(* ===== verification/Net_Prelude.thy ===== *)
theory Net_Prelude
  imports Main "HOL-Library.Word" "HOL-Library.Product_Lexorder"
begin

text \<open>
  Shared base of the development.

  \<^item> Machine integers of the Rust sources: \<open>u8\<close> to \<open>u128\<close> are words of that width;
    \<open>usize\<close> values (lengths, counts, byte charges) are naturals, and the checked operations on
    them compare with \<open>usize_max\<close> of a 64-bit target.
  \<^item> Fallible operations return \<open>'e + 'a\<close>; a method on \<open>&mut self\<close> returns its result together
    with the state it leaves behind, because the sources also change state on some error paths.
  \<^item> \<open>BTreeMap\<close> is an association list in strictly increasing key order (\<open>bt_ok\<close>), so that
    iteration order, \<open>len\<close> and \<open>pop_first\<close> are those of the source; \<open>BTreeSet\<close> is a strictly
    increasing list (\<open>bs_ok\<close>).  The locale \<open>key_map\<close> states what the components use of a map,
    and \<open>bt_map\<close> interprets it on these lists.
  \<^item> The locale \<open>guarded_machine\<close> is the contract of a component whose every operation keeps an
    invariant; each stateful component interprets it.
\<close>

section \<open>Theorem collections\<close>

named_theorems res_simps \<open>case analysis of fallible operations\<close>

section \<open>Failures\<close>

text \<open>
  A method either returns an error of its own or, where the source indexes or calls \<open>expect\<close>, can
  panic; the component invariants show that the \<open>Panic\<close> branches are never taken.
\<close>

datatype 'e failure = Err 'e | Panic string

fun is_panic :: "'e failure + 'a \<Rightarrow> bool" where
  "is_panic (Inl (Panic _)) = True"
| "is_panic _ = False"

text \<open>
  The \<open>?\<close> operator: \<open>and_then\<close> in a function that returns a result, \<open>attempt\<close> in a method that
  returns early with the state it has at that point, and \<open>ok_or\<close> on an option.
\<close>

definition and_then :: "'e + 'a \<Rightarrow> ('a \<Rightarrow> 'e + 'b) \<Rightarrow> 'e + 'b" where
  "and_then r k = (case r of Inl e \<Rightarrow> Inl e | Inr x \<Rightarrow> k x)"

definition attempt :: "'e + 'a \<Rightarrow> 's \<Rightarrow> ('a \<Rightarrow> ('e + 'b) \<times> 's) \<Rightarrow> ('e + 'b) \<times> 's" where
  "attempt r s k = (case r of Inl e \<Rightarrow> (Inl e, s) | Inr x \<Rightarrow> k x)"

definition ok_or :: "'e \<Rightarrow> 'a option \<Rightarrow> 'e + 'a" where
  "ok_or e x = (case x of None \<Rightarrow> Inl e | Some v \<Rightarrow> Inr v)"

lemma and_then_simps [simp]:
  "and_then (Inl e) k = Inl e"
  "and_then (Inr x) k = k x"
  by (simp_all add: and_then_def)

lemma attempt_simps [simp]:
  "attempt (Inl e) s k = (Inl e, s)"
  "attempt (Inr x) s k = k x"
  by (simp_all add: attempt_def)

lemma ok_or_simps [simp]:
  "ok_or e None = Inl e"
  "ok_or e (Some v) = Inr v"
  by (simp_all add: ok_or_def)

lemma and_then_Inr_iff [res_simps]: "and_then r k = Inr y \<longleftrightarrow> (\<exists>x. r = Inr x \<and> k x = Inr y)"
  by (cases r) simp_all

lemma and_then_Inl_iff [res_simps]: "and_then r k = Inl e \<longleftrightarrow> r = Inl e \<or> (\<exists>x. r = Inr x \<and> k x = Inl e)"
  by (cases r) simp_all

lemma attempt_Inr_iff [res_simps]: "attempt r s k = (Inr y, t) \<longleftrightarrow> (\<exists>x. r = Inr x \<and> k x = (Inr y, t))"
  by (cases r) simp_all

lemma attempt_Inl_iff [res_simps]:
  "attempt r s k = (Inl e, t) \<longleftrightarrow> r = Inl e \<and> t = s \<or> (\<exists>x. r = Inr x \<and> k x = (Inl e, t))"
  by (cases r) auto

lemma ok_or_Inr_iff [res_simps]: "ok_or e x = Inr v \<longleftrightarrow> x = Some v"
  by (cases x) simp_all

lemma ok_or_Inl_iff [res_simps]: "ok_or e x = Inl f \<longleftrightarrow> x = None \<and> e = f"
  by (cases x) auto

lemma attempt_state:
  "(\<And>x. r = Inr x \<Longrightarrow> P (snd (k x))) \<Longrightarrow> P s \<Longrightarrow> P (snd (attempt r s k))"
  by (cases r) simp_all

section \<open>Machine integers\<close>

type_synonym u8 = "8 word"
type_synonym u16 = "16 word"
type_synonym u32 = "32 word"
type_synonym u64 = "64 word"
type_synonym usize = nat

definition checked_add :: "'a::len word \<Rightarrow> 'a word \<Rightarrow> 'a word option" where
  "checked_add a b = (if unat a + unat b < 2 ^ LENGTH('a) then Some (a + b) else None)"

definition checked_sub :: "'a::len word \<Rightarrow> 'a word \<Rightarrow> 'a word option" where
  "checked_sub a b = (if b \<le> a then Some (a - b) else None)"

definition saturating_add :: "'a::len word \<Rightarrow> 'a word \<Rightarrow> 'a word" where
  "saturating_add a b = (case checked_add a b of Some c \<Rightarrow> c | None \<Rightarrow> - 1)"

definition saturating_sub :: "'a::len word \<Rightarrow> 'a word \<Rightarrow> 'a word" where
  "saturating_sub a b = (if b \<le> a then a - b else 0)"

definition usize_max :: usize where
  "usize_max = 2 ^ 64 - 1"

definition usize_checked_add :: "usize \<Rightarrow> usize \<Rightarrow> usize option" where
  "usize_checked_add a b = (if a + b \<le> usize_max then Some (a + b) else None)"

definition usize_checked_mul :: "usize \<Rightarrow> usize \<Rightarrow> usize option" where
  "usize_checked_mul a b = (if a * b \<le> usize_max then Some (a * b) else None)"

definition usize_checked_sub :: "usize \<Rightarrow> usize \<Rightarrow> usize option" where
  "usize_checked_sub a b = (if b \<le> a then Some (a - b) else None)"

definition usize_saturating_add :: "usize \<Rightarrow> usize \<Rightarrow> usize" where
  "usize_saturating_add a b = min (a + b) usize_max"

lemma unat_less_2p: "unat (w :: 'a::len word) < 2 ^ LENGTH('a)"
  by (fact unsigned_less)

lemma unat_max_word: "unat (- 1 :: 'a::len word) = 2 ^ LENGTH('a) - 1"
  by (simp add: unsigned_minus_1_eq_mask mask_eq_exp_minus_1)

lemma unat_ucast_widen:
  fixes w :: "'a::len word"
  assumes "LENGTH('a) \<le> LENGTH('b::len)"
  shows "unat (ucast w :: 'b word) = unat w"
proof -
  have "unat w < 2 ^ LENGTH('b)"
    using unat_less_2p[of w] assms by (meson one_le_numeral order_less_le_trans power_increasing)
  then show ?thesis
    by (simp add: unsigned_ucast_eq take_bit_nat_eq_self_iff)
qed

lemma checked_add_Some:
  fixes a b c :: "'a::len word"
  shows "checked_add a b = Some c \<longleftrightarrow> unat c = unat a + unat b"
  using unat_less_2p[of c]
  by (cases "unat a + unat b < 2 ^ LENGTH('a)")
    (auto simp: checked_add_def unat_word_ariths word_unat_eq_iff simp del: unsigned_less)

lemma checked_add_None:
  fixes a b :: "'a::len word"
  shows "checked_add a b = None \<longleftrightarrow> 2 ^ LENGTH('a) \<le> unat a + unat b"
  by (auto simp: checked_add_def)

lemma checked_add_ge: "checked_add a b = Some c \<Longrightarrow> a \<le> c"
  by (simp add: checked_add_Some word_le_nat_alt)

lemma unat_saturating_add:
  fixes a b :: "'a::len word"
  shows "unat (saturating_add a b) = min (unat a + unat b) (2 ^ LENGTH('a) - 1)"
proof (cases "checked_add a b")
  case None
  have "unat (- 1 :: 'a word) = 2 ^ LENGTH('a) - 1"
    by (rule unat_max_word)
  moreover have "2 ^ LENGTH('a) \<le> unat a + unat b"
    using None by (simp add: checked_add_None)
  ultimately show ?thesis
    using None by (simp add: saturating_add_def)
next
  case (Some c)
  then have "unat c = unat a + unat b"
    by (simp add: checked_add_Some)
  moreover have "unat c < 2 ^ LENGTH('a)"
    by (rule unat_less_2p)
  ultimately show ?thesis
    using Some by (simp add: saturating_add_def)
qed

lemma saturating_add_ge [simp, intro]: "a \<le> saturating_add a b"
proof -
  have "unat a \<le> 2 ^ LENGTH('a) - 1"
    using unat_less_2p[of a] by linarith
  then show ?thesis
    by (simp add: word_le_nat_alt unat_saturating_add)
qed

lemma unat_saturating_sub: "unat (saturating_sub a b) = unat a - unat b"
  by (auto simp: saturating_sub_def unat_sub word_le_nat_alt)

text \<open>\<open>checked_next\<close> of every identity counter: \<open>checked_add (1)\<close>.\<close>

definition checked_next :: "'a::len word \<Rightarrow> 'a word option" where
  "checked_next w = checked_add w 1"

lemma checked_next_Some:
  fixes v w :: "'a::len word"
  shows "checked_next w = Some v \<longleftrightarrow> unat v = unat w + 1"
proof -
  have "unat (1 :: 'a word) = 1"
    by (rule unat_1)
  then show ?thesis
    by (simp add: checked_next_def checked_add_Some)
qed

lemma checked_next_None:
  fixes w :: "'a::len word"
  shows "checked_next w = None \<longleftrightarrow> w = - 1"
proof -
  have "2 ^ LENGTH('a) \<le> unat w + 1 \<longleftrightarrow> unat w = 2 ^ LENGTH('a) - 1"
    using unat_less_2p[of w] by linarith
  then show ?thesis
    by (simp add: checked_next_def checked_add_None word_unat_eq_iff unat_max_word)
qed

lemma checked_next_less: "checked_next w = Some v \<Longrightarrow> w < v"
  by (simp add: checked_next_Some word_less_nat_alt)

lemma checked_next_le_iff: "checked_next w = Some v \<Longrightarrow> u \<le> w \<longleftrightarrow> u < v"
  by (simp add: checked_next_Some word_less_nat_alt word_le_nat_alt less_Suc_eq_le)

lemma checked_next_nonzero: "checked_next w = Some v \<Longrightarrow> v \<noteq> 0"
  by (auto simp: checked_next_Some)

section \<open>Ordered maps and sets\<close>

type_synonym ('k, 'v) bt = "('k \<times> 'v) list"

definition bt_ok :: "('k::linorder, 'v) bt \<Rightarrow> bool" where
  "bt_ok m \<longleftrightarrow> sorted_wrt (<) (map fst m)"

fun bt_insert :: "'k::linorder \<Rightarrow> 'v \<Rightarrow> ('k, 'v) bt \<Rightarrow> ('k, 'v) bt" where
  "bt_insert k v [] = [(k, v)]"
| "bt_insert k v (e # m) =
    (if fst e < k then e # bt_insert k v m
     else if fst e = k then (k, v) # m
     else (k, v) # e # m)"

definition bt_remove :: "'k \<Rightarrow> ('k, 'v) bt \<Rightarrow> ('k, 'v) bt" where
  "bt_remove k m = filter (\<lambda>e. fst e \<noteq> k) m"

definition bt_retain :: "('k \<Rightarrow> 'v \<Rightarrow> bool) \<Rightarrow> ('k, 'v) bt \<Rightarrow> ('k, 'v) bt" where
  "bt_retain P m = filter (\<lambda>(k, v). P k v) m"

definition bt_map :: "('k \<Rightarrow> 'v \<Rightarrow> 'w) \<Rightarrow> ('k, 'v) bt \<Rightarrow> ('k, 'w) bt" where
  "bt_map f m = map (\<lambda>(k, v). (k, f k v)) m"

definition bt_update :: "'k \<Rightarrow> ('v \<Rightarrow> 'v) \<Rightarrow> ('k, 'v) bt \<Rightarrow> ('k, 'v) bt" where
  "bt_update k f m = bt_map (\<lambda>a v. if a = k then f v else v) m"

definition bt_contains :: "'k \<Rightarrow> ('k, 'v) bt \<Rightarrow> bool" where
  "bt_contains k m \<longleftrightarrow> map_of m k \<noteq> None"

definition bt_sum :: "('k \<Rightarrow> 'v \<Rightarrow> nat) \<Rightarrow> ('k, 'v) bt \<Rightarrow> nat" where
  "bt_sum f m = sum_list (map (\<lambda>(k, v). f k v) m)"

definition opt_charge :: "('v \<Rightarrow> nat) \<Rightarrow> 'v option \<Rightarrow> nat" where
  "opt_charge f x = (case x of None \<Rightarrow> 0 | Some v \<Rightarrow> f v)"

lemma opt_charge_simps [simp]:
  "opt_charge f None = 0"
  "opt_charge f (Some v) = f v"
  by (simp_all add: opt_charge_def)

lemma bt_ok_Nil [simp]: "bt_ok []"
  by (simp add: bt_ok_def)

lemma bt_ok_Cons: "bt_ok (e # m) \<longleftrightarrow> (\<forall>x \<in> set m. fst e < fst x) \<and> bt_ok m"
  by (auto simp: bt_ok_def)

lemma bt_ok_distinct: "bt_ok m \<Longrightarrow> distinct (map fst m)"
  by (simp add: bt_ok_def strict_sorted_iff)

lemma bt_keys_unique: "bt_ok m \<Longrightarrow> (k, v) \<in> set m \<Longrightarrow> map_of m k = Some v"
  by (simp add: bt_ok_distinct)

lemma set_bt_insert:
  "bt_ok m \<Longrightarrow> set (bt_insert k v m) = insert (k, v) {e \<in> set m. fst e \<noteq> k}"
  by (induction m) (auto simp: bt_ok_Cons)

lemma fst_set_bt_insert [simp]: "fst ` set (bt_insert k v m) = insert k (fst ` set m)"
  by (induction m) (auto simp: insert_commute)

lemma bt_ok_insert [simp, intro]:
  assumes "bt_ok m"
  shows "bt_ok (bt_insert k v m)"
  using assms
proof (induction m)
  case (Cons e m)
  show ?case
  proof (cases "fst e < k")
    case True
    with Cons show ?thesis
      by (auto simp: bt_ok_Cons set_bt_insert)
  next
    case False
    with Cons.prems show ?thesis
      by (auto simp: bt_ok_Cons)
  qed
qed (simp add: bt_ok_Cons)

lemma map_of_bt_insert [simp]: "bt_ok m \<Longrightarrow> map_of (bt_insert k v m) = (map_of m)(k \<mapsto> v)"
  by (induction m) (auto simp: bt_ok_Cons fun_eq_iff)

lemma map_of_bt_remove [simp]: "map_of (bt_remove k m) = (map_of m)(k := None)"
  by (induction m) (auto simp: bt_remove_def)

lemma bt_ok_filter: "bt_ok m \<Longrightarrow> bt_ok (filter P m)"
  by (induction m) (auto simp: bt_ok_Cons)

lemma bt_ok_remove [simp, intro]: "bt_ok m \<Longrightarrow> bt_ok (bt_remove k m)"
  by (simp add: bt_remove_def bt_ok_filter)

lemma bt_ok_retain [simp, intro]: "bt_ok m \<Longrightarrow> bt_ok (bt_retain P m)"
  by (simp add: bt_retain_def bt_ok_filter)

lemma set_bt_remove [simp]: "set (bt_remove k m) = {e \<in> set m. fst e \<noteq> k}"
  by (auto simp: bt_remove_def)

lemma set_bt_retain [simp]: "set (bt_retain P m) = {(k, v) \<in> set m. P k v}"
  by (auto simp: bt_retain_def)

lemma bt_map_keys [simp]: "map fst (bt_map f m) = map fst m"
  by (simp add: bt_map_def comp_def case_prod_beta)

lemma bt_ok_map [simp]: "bt_ok (bt_map f m) \<longleftrightarrow> bt_ok m"
  by (simp add: bt_ok_def)

lemma bt_ok_update [simp]: "bt_ok (bt_update k f m) \<longleftrightarrow> bt_ok m"
  by (simp add: bt_update_def)

lemma map_of_bt_map [simp]: "map_of (bt_map f m) k = map_option (f k) (map_of m k)"
  by (induction m) (auto simp: bt_map_def)

lemma map_of_bt_update [simp]:
  "map_of (bt_update k f m) a = (if a = k then map_option f (map_of m a) else map_of m a)"
  by (cases "map_of m a") (auto simp: bt_update_def)

lemma map_of_bt_retain:
  "bt_ok m \<Longrightarrow> map_of (bt_retain P m) k =
    (case map_of m k of Some v \<Rightarrow> if P k v then Some v else None | None \<Rightarrow> None)"
proof (induction m)
  case (Cons e m)
  moreover have "map_of m (fst e) = None" if "bt_ok (e # m)"
    using that by (auto simp: map_of_eq_None_iff bt_ok_Cons)
  ultimately show ?case
    by (auto simp: bt_retain_def bt_ok_Cons split: option.splits)
qed (simp add: bt_retain_def)

lemma length_bt_map [simp]: "length (bt_map f m) = length m"
  by (simp add: bt_map_def)

lemma length_bt_update [simp]: "length (bt_update k f m) = length m"
  by (simp add: bt_update_def)

lemma length_bt_retain [simp]: "length (bt_retain P m) \<le> length m"
  by (simp add: bt_retain_def)

lemma length_bt_remove_le [simp]: "length (bt_remove k m) \<le> length m"
  by (simp add: bt_remove_def)

lemma length_bt_insert:
  "bt_ok m \<Longrightarrow> length (bt_insert k v m) = (if map_of m k = None then Suc (length m) else length m)"
proof (induction m)
  case (Cons e m)
  moreover have "map_of m k = None" if "\<not> fst e < k" "bt_ok (e # m)"
    using that by (auto simp: map_of_eq_None_iff bt_ok_Cons)
  ultimately show ?case
    by (auto simp: bt_ok_Cons)
qed simp

lemma length_bt_insert_le: "bt_ok m \<Longrightarrow> length (bt_insert k v m) \<le> Suc (length m)"
  by (simp add: length_bt_insert)

section \<open>Charges over a map\<close>

lemma bt_sum_simps [simp]:
  "bt_sum f [] = 0"
  "bt_sum f ((k, v) # m) = f k v + bt_sum f m"
  by (simp_all add: bt_sum_def)

lemma bt_remove_absent: "map_of m k = None \<Longrightarrow> bt_remove k m = m"
  by (induction m) (auto simp: bt_remove_def split: if_splits)

lemma bt_sum_remove:
  "bt_ok m \<Longrightarrow> bt_sum f (bt_remove k m) + opt_charge (f k) (map_of m k) = bt_sum f m"
proof (induction m)
  case (Cons e m)
  have "map_of m (fst e) = None"
    using Cons.prems by (auto simp: map_of_eq_None_iff bt_ok_Cons)
  with Cons show ?case
    by (cases e) (auto simp: bt_ok_Cons bt_remove_def dest: bt_remove_absent[unfolded bt_remove_def])
qed (simp add: bt_remove_def)

lemma bt_sum_insert:
  "bt_ok m \<Longrightarrow> bt_sum f (bt_insert k v m) + opt_charge (f k) (map_of m k) = bt_sum f m + f k v"
proof (induction m)
  case (Cons e m)
  moreover have "map_of m k = None" if "\<not> fst e < k"
    using that Cons.prems by (auto simp: map_of_eq_None_iff bt_ok_Cons)
  ultimately show ?case
    by (cases e) (auto simp: bt_ok_Cons)
qed simp

lemma bt_update_absent: "map_of m k = None \<Longrightarrow> bt_update k g m = m"
  by (induction m) (auto simp: bt_update_def bt_map_def split: if_splits)

lemma bt_sum_update:
  assumes "bt_ok m" "map_of m k = Some v"
  shows "bt_sum f (bt_update k g m) + f k v = bt_sum f m + f k (g v)"
  using assms
proof (induction m)
  case (Cons e m)
  have absent: "map_of m (fst e) = None"
    using Cons.prems by (auto simp: map_of_eq_None_iff bt_ok_Cons)
  have "bt_update k g m = m" if "map_of m k = None"
    using that by (rule bt_update_absent)
  with Cons absent show ?case
    by (cases e) (auto simp: bt_ok_Cons bt_update_def bt_map_def split: if_splits)
qed simp

lemma bt_sum_update_le:
  assumes "bt_ok m" "\<And>v. map_of m k = Some v \<Longrightarrow> f k (g v) \<le> f k v"
  shows "bt_sum f (bt_update k g m) \<le> bt_sum f m"
proof (cases "map_of m k")
  case (Some v)
  then show ?thesis
    using bt_sum_update[OF assms(1) Some, of f g] assms(2)[OF Some] by linarith
qed (simp add: bt_update_absent)

lemma bt_sum_update_eq:
  assumes "bt_ok m" "\<And>v. map_of m k = Some v \<Longrightarrow> f k (g v) = f k v"
  shows "bt_sum f (bt_update k g m) = bt_sum f m"
proof (cases "map_of m k")
  case (Some v)
  then show ?thesis
    using bt_sum_update[OF assms(1) Some, of f g] assms(2)[OF Some] by linarith
qed (simp add: bt_update_absent)

lemma bt_sum_member: "map_of m k = Some v \<Longrightarrow> f k v \<le> bt_sum f m"
  by (induction m) (auto split: if_splits)

lemma bt_sum_retain_le: "bt_sum f (bt_retain P m) \<le> bt_sum f m"
  by (induction m) (auto simp: bt_retain_def)

lemma bt_sum_mono: "(\<And>k v. (k, v) \<in> set m \<Longrightarrow> f k v \<le> g k v) \<Longrightarrow> bt_sum f m \<le> bt_sum g m"
  by (induction m) (auto intro!: add_mono)

lemma bt_sum_cong: "(\<And>k v. (k, v) \<in> set m \<Longrightarrow> f k v = g k v) \<Longrightarrow> bt_sum f m = bt_sum g m"
  by (induction m) auto

section \<open>Ordered sets\<close>

definition bs_ok :: "'k::linorder list \<Rightarrow> bool" where
  "bs_ok s \<longleftrightarrow> sorted_wrt (<) s"

fun bs_insert :: "'k::linorder \<Rightarrow> 'k list \<Rightarrow> 'k list" where
  "bs_insert k [] = [k]"
| "bs_insert k (a # s) = (if a < k then a # bs_insert k s else if a = k then a # s else k # a # s)"

definition bs_remove :: "'k \<Rightarrow> 'k list \<Rightarrow> 'k list" where
  "bs_remove k s = filter (\<lambda>a. a \<noteq> k) s"

lemma bs_ok_Nil [simp]: "bs_ok []"
  by (simp add: bs_ok_def)

lemma bs_ok_Cons: "bs_ok (a # s) \<longleftrightarrow> (\<forall>x \<in> set s. a < x) \<and> bs_ok s"
  by (auto simp: bs_ok_def)

lemma set_bs_insert [simp]: "set (bs_insert k s) = insert k (set s)"
  by (induction s) auto

lemma bs_ok_insert [simp, intro]: "bs_ok s \<Longrightarrow> bs_ok (bs_insert k s)"
  by (induction s) (auto simp: bs_ok_Cons)

lemma bs_ok_distinct: "bs_ok s \<Longrightarrow> distinct s"
  by (simp add: bs_ok_def strict_sorted_iff)

lemma bs_ok_filter: "bs_ok s \<Longrightarrow> bs_ok (filter P s)"
  by (simp add: bs_ok_def sorted_wrt_filter)

lemma set_bs_remove [simp]: "set (bs_remove k s) = set s - {k}"
  by (auto simp: bs_remove_def)

lemma bs_ok_remove [simp, intro]: "bs_ok s \<Longrightarrow> bs_ok (bs_remove k s)"
  by (simp add: bs_remove_def bs_ok_filter)

lemma length_bs_insert: "length (bs_insert k s) \<le> Suc (length s)"
  by (induction s) auto

section \<open>Interfaces\<close>

text \<open>
  What the components rely on of a keyed store with a charge per entry: point updates, and the
  running total a component keeps beside the store.
\<close>

locale key_map =
  fixes ok :: "'m \<Rightarrow> bool"
    and lookup :: "'m \<Rightarrow> 'k \<Rightarrow> 'v option"
    and insert :: "'k \<Rightarrow> 'v \<Rightarrow> 'm \<Rightarrow> 'm"
    and remove :: "'k \<Rightarrow> 'm \<Rightarrow> 'm"
    and total :: "('k \<Rightarrow> 'v \<Rightarrow> nat) \<Rightarrow> 'm \<Rightarrow> nat"
  assumes ok_insert: "ok m \<Longrightarrow> ok (insert k v m)"
    and ok_remove: "ok m \<Longrightarrow> ok (remove k m)"
    and lookup_insert: "ok m \<Longrightarrow> lookup (insert k v m) = (lookup m)(k \<mapsto> v)"
    and lookup_remove: "ok m \<Longrightarrow> lookup (remove k m) = (lookup m)(k := None)"
    and total_insert: "ok m \<Longrightarrow>
      total f (insert k v m) + opt_charge (f k) (lookup m k) = total f m + f k v"
    and total_remove: "ok m \<Longrightarrow> total f (remove k m) + opt_charge (f k) (lookup m k) = total f m"
begin

lemma charge_le_total: "ok m \<Longrightarrow> opt_charge (f k) (lookup m k) \<le> total f m"
  using total_remove[of m f k] by linarith

lemma replace_total:
  "ok m \<Longrightarrow> total f (insert k v m) = total f m - opt_charge (f k) (lookup m k) + f k v"
  using total_insert[of m f k v] charge_le_total[of m f k] by linarith

lemma remove_total: "ok m \<Longrightarrow> total f (remove k m) = total f m - opt_charge (f k) (lookup m k)"
  using total_remove[of m f k] by linarith

lemma remove_insert_total: "ok m \<Longrightarrow> lookup m k = None \<Longrightarrow> total f (remove k (insert k v m)) = total f m"
  using remove_total[OF ok_insert, of m f k k v] replace_total[of m f k v] lookup_insert[of m k v]
  by simp

lemma fresh_total: "ok m \<Longrightarrow> lookup m k = None \<Longrightarrow> total f (insert k v m) = total f m + f k v"
  using total_insert[of m f k v] by simp

end

interpretation btm: key_map bt_ok map_of bt_insert bt_remove bt_sum
  by unfold_locales (simp_all add: bt_sum_insert bt_sum_remove)

text \<open>
  A component as a machine: every operation is one step on its state.  \<open>guarded_machine\<close> carries an
  invariant along any sequence of operations, \<open>monotone_machine\<close> a preorder on states (progress
  that is never undone).
\<close>

locale guarded_machine =
  fixes step :: "'op \<Rightarrow> 's \<Rightarrow> 's"
    and inv :: "'s \<Rightarrow> bool"
  assumes step_inv: "inv s \<Longrightarrow> inv (step op s)"
begin

lemma run_inv: "inv s \<Longrightarrow> inv (fold step ops s)"
  by (induction ops arbitrary: s) (simp_all add: step_inv)

end

locale monotone_machine = guarded_machine step inv
  for step :: "'op \<Rightarrow> 's \<Rightarrow> 's" and inv :: "'s \<Rightarrow> bool" +
  fixes below :: "'s \<Rightarrow> 's \<Rightarrow> bool"
  assumes below_refl: "below s s"
    and below_trans: "below s t \<Longrightarrow> below t u \<Longrightarrow> below s u"
    and step_below: "inv s \<Longrightarrow> below s (step op s)"
begin

lemma run_below: "inv s \<Longrightarrow> below s (fold step ops s)"
  by (induction ops arbitrary: s) (simp_all add: below_refl step_inv, meson below_trans step_below step_inv)

end

end
