(* ===== verification/Net_Types.thy ===== *)
theory Net_Types
  imports Net_Prelude
begin

text \<open>
  Protocol identities and clocks: \<open>engine/net/src/types.rs\<close> and \<open>newer\<close> of
  \<open>engine/net/src/lib.rs\<close>.

  The transparent counter newtypes are synonyms of their words; the composite identities, which the
  sources use as ordered map keys, are datatypes with the derived lexicographic order.  A
  \<open>Duration\<close> is its number of nanoseconds.
\<close>

section \<open>Identities\<close>

type_synonym ServerTick = u64
type_synonym CommandSeq = u64
type_synonym TargetTick = u64
type_synonym SnapshotId = u64
type_synonym BaselineId = u64
type_synonym BaselineGeneration = u64
type_synonym ConnectionEpoch = u64
type_synonym ConnectionId = u64
type_synonym CommandStream = u32
type_synonym OwnershipEpoch = u32
type_synonym ScopeEpoch = u64
type_synonym RepresentationRevision = u32
type_synonym StateVersion = u64
type_synonym ReplicationFrame = u64
type_synonym SceneRevision = u32
type_synonym PolicyRevision = u64
type_synonym GroupId = u32
type_synonym GroupRevision = u64
type_synonym SchemaId = u32

datatype EntityId = EntityId (eid_index: u64) (eid_generation: u32)

datatype ScopeIdentity = ScopeIdentity
  (si_connection: ConnectionEpoch) (si_entity: EntityId)
  (si_scope: ScopeEpoch) (si_representation: RepresentationRevision)

datatype ActionKey = ActionKey
  (ak_connection: ConnectionEpoch) (ak_stream: CommandStream)
  (ak_command: CommandSeq) (ak_slot: u8)

definition entity_tuple :: "EntityId \<Rightarrow> u64 \<times> u32" where
  "entity_tuple e = (eid_index e, eid_generation e)"

lemma entity_tuple_inj: "entity_tuple a = entity_tuple b \<longleftrightarrow> a = b"
  by (cases a; cases b) (simp add: entity_tuple_def)

instantiation EntityId :: linorder
begin

definition less_eq_EntityId :: "EntityId \<Rightarrow> EntityId \<Rightarrow> bool" where
  "less_eq_EntityId a b \<longleftrightarrow> entity_tuple a \<le> entity_tuple b"

definition less_EntityId :: "EntityId \<Rightarrow> EntityId \<Rightarrow> bool" where
  "less_EntityId a b \<longleftrightarrow> entity_tuple a < entity_tuple b"

instance
  by standard (auto simp: less_eq_EntityId_def less_EntityId_def less_le_not_le entity_tuple_inj[symmetric])

end

definition scope_tuple :: "ScopeIdentity \<Rightarrow> u64 \<times> EntityId \<times> u64 \<times> u32" where
  "scope_tuple s = (si_connection s, si_entity s, si_scope s, si_representation s)"

lemma scope_tuple_inj: "scope_tuple a = scope_tuple b \<longleftrightarrow> a = b"
  by (cases a; cases b) (simp add: scope_tuple_def)

instantiation ScopeIdentity :: linorder
begin

definition less_eq_ScopeIdentity :: "ScopeIdentity \<Rightarrow> ScopeIdentity \<Rightarrow> bool" where
  "less_eq_ScopeIdentity a b \<longleftrightarrow> scope_tuple a \<le> scope_tuple b"

definition less_ScopeIdentity :: "ScopeIdentity \<Rightarrow> ScopeIdentity \<Rightarrow> bool" where
  "less_ScopeIdentity a b \<longleftrightarrow> scope_tuple a < scope_tuple b"

instance
  by standard (auto simp: less_eq_ScopeIdentity_def less_ScopeIdentity_def less_le_not_le scope_tuple_inj[symmetric])

end

definition action_tuple :: "ActionKey \<Rightarrow> u64 \<times> u32 \<times> u64 \<times> u8" where
  "action_tuple k = (ak_connection k, ak_stream k, ak_command k, ak_slot k)"

lemma action_tuple_inj: "action_tuple a = action_tuple b \<longleftrightarrow> a = b"
  by (cases a; cases b) (simp add: action_tuple_def)

instantiation ActionKey :: linorder
begin

definition less_eq_ActionKey :: "ActionKey \<Rightarrow> ActionKey \<Rightarrow> bool" where
  "less_eq_ActionKey a b \<longleftrightarrow> action_tuple a \<le> action_tuple b"

definition less_ActionKey :: "ActionKey \<Rightarrow> ActionKey \<Rightarrow> bool" where
  "less_ActionKey a b \<longleftrightarrow> action_tuple a < action_tuple b"

instance
  by standard (auto simp: less_eq_ActionKey_def less_ActionKey_def less_le_not_le action_tuple_inj[symmetric])

end

section \<open>Serial numbers\<close>

datatype SerialOrdering = Older | Equal | Newer | Ambiguous

definition compare_serial32 :: "u32 \<Rightarrow> u32 \<Rightarrow> SerialOrdering" where
  "compare_serial32 val previous =
    (let delta = val - previous in
     if delta = 0 then Equal
     else if delta = 0x80000000 then Ambiguous
     else if delta < 0x80000000 then Newer
     else Older)"

definition newer :: "u32 \<Rightarrow> u32 option \<Rightarrow> bool" where
  "newer seq previous =
    (case previous of None \<Rightarrow> True | Some old \<Rightarrow> seq \<noteq> old \<and> seq - old < 0x80000000)"

section \<open>Durations and tick rates\<close>

type_synonym Duration = nat

definition nanos_per_second :: nat where
  "nanos_per_second = 1000000000"

definition duration_max :: Duration where
  "duration_max = (2 ^ 64 - 1) * nanos_per_second + (nanos_per_second - 1)"

definition duration_new :: "nat \<Rightarrow> nat \<Rightarrow> Duration" where
  "duration_new secs nanos = secs * nanos_per_second + nanos"

definition duration_checked_add :: "Duration \<Rightarrow> Duration \<Rightarrow> Duration option" where
  "duration_checked_add a b = (if a + b \<le> duration_max then Some (a + b) else None)"

definition duration_checked_sub :: "Duration \<Rightarrow> Duration \<Rightarrow> Duration option" where
  "duration_checked_sub a b = (if b \<le> a then Some (a - b) else None)"

definition duration_saturating_sub :: "Duration \<Rightarrow> Duration \<Rightarrow> Duration" where
  "duration_saturating_sub a b = a - b"

definition u64_try_from :: "nat \<Rightarrow> u64 option" where
  "u64_try_from n = (if n < 2 ^ 64 then Some (of_nat n) else None)"

definition div_ceil :: "nat \<Rightarrow> nat \<Rightarrow> nat" where
  "div_ceil a b = (if a mod b = 0 then a div b else a div b + 1)"

datatype TickRate = TickRate (tr_hz: u32)

definition tick_rate_new :: "u32 \<Rightarrow> TickRate option" where
  "tick_rate_new hz = (if hz = 0 \<or> hz > 1000000000 then None else Some (TickRate hz))"

definition deadline :: "TickRate \<Rightarrow> ServerTick \<Rightarrow> Duration option" where
  "deadline r tick =
    (let nanos = div_ceil (unat tick * nanos_per_second) (unat (tr_hz r)) in
     case u64_try_from (nanos div nanos_per_second) of
       None \<Rightarrow> None
     | Some seconds \<Rightarrow> Some (duration_new (unat seconds) (nanos mod nanos_per_second)))"

definition elapsed_tick_phase :: "TickRate \<Rightarrow> Duration \<Rightarrow> (ServerTick \<times> u16) option" where
  "elapsed_tick_phase r elapsed =
    (let scaled = elapsed * unat (tr_hz r) in
     if scaled < 2 ^ 128 then
       (case u64_try_from (scaled div nanos_per_second) of
          None \<Rightarrow> None
        | Some tick \<Rightarrow>
            Some (tick, of_nat ((scaled mod nanos_per_second) * 65536 div nanos_per_second)))
     else None)"

definition elapsed_ticks :: "TickRate \<Rightarrow> Duration \<Rightarrow> ServerTick option" where
  "elapsed_ticks r elapsed =
    u64_try_from ((elapsed * unat (tr_hz r)) mod 2 ^ 128 div nanos_per_second)"

section \<open>Serial numbers are a half-range order\<close>

lemma uint_minus32: "uint (- d :: u32) = (if d = 0 then 0 else 2 ^ 32 - uint d)"
proof (cases "d = 0")
  case False
  then have "0 < uint d"
    by (simp add: uint_0_iff[symmetric] order_less_le)
  moreover have "uint d < 2 ^ 32"
    using uint_lt2p[of d] by simp
  ultimately have "(- uint d) mod 2 ^ 32 = 2 ^ 32 - uint d"
    by (subst zmod_zminus1_eq_if) simp
  with False show ?thesis
    by (simp add: uint_word_ariths)
qed simp

lemma compare_serial32_swap:
  "compare_serial32 b a =
    (case compare_serial32 a b of Older \<Rightarrow> Newer | Newer \<Rightarrow> Older | x \<Rightarrow> x)"
proof -
  define d where "d = a - b"
  have "b - a = - d"
    by (simp add: d_def)
  moreover have "0 \<le> uint d" "uint d < 2 ^ 32"
    using uint_lt2p[of d] by simp_all
  ultimately show ?thesis
    by (auto simp: compare_serial32_def Let_def word_less_def word_uint_eq_iff uint_minus32
        d_def[symmetric] split: if_splits)
qed

lemma newer_iff: "newer seq (Some old) \<longleftrightarrow> compare_serial32 seq old = Newer"
  by (auto simp: newer_def compare_serial32_def Let_def)

section \<open>Tick rates: deadlines and elapsed ticks\<close>

lemma tick_rate_new_Some:
  "tick_rate_new hz = Some r \<Longrightarrow> tr_hz r = hz \<and> 0 < unat (tr_hz r) \<and> unat (tr_hz r) \<le> nanos_per_second"
  by (auto simp: tick_rate_new_def nanos_per_second_def unat_gt_0 word_less_nat_alt split: if_splits)

lemma div_ceil_le_iff:
  assumes "0 < b"
  shows "div_ceil a b \<le> e \<longleftrightarrow> a \<le> e * b"
proof -
  have split: "a = a div b * b + a mod b" and rest: "a mod b < b"
    using assms by simp_all
  show ?thesis
  proof (cases "a mod b = 0")
    case True
    with split have "a = a div b * b"
      by simp
    with True assms show ?thesis
      by (metis div_ceil_def mult_le_cancel2)
  next
    case False
    with split rest have "a \<le> e * b \<longleftrightarrow> a div b < e"
      using assms by (metis div_less_iff_less_mult less_or_eq_imp_le mod_mult_self2_is_0 nat_less_le
          mult.commute)
    with False show ?thesis
      by (simp add: div_ceil_def Suc_le_eq)
  qed
qed

lemma div_ceil_mult_less:
  assumes "0 < b"
  shows "div_ceil a b * b < a + b"
proof (cases "a mod b = 0")
  case True
  have "a div b * b < a + b"
    using assms div_times_less_eq_dividend[of a b] by linarith
  with True show ?thesis
    by (simp add: div_ceil_def)
next
  case False
  moreover have "a div b * b + a mod b = a"
    by simp
  ultimately have "a div b * b < a"
    by linarith
  then show ?thesis
    using False by (simp add: div_ceil_def)
qed

lemma u64_try_from_Some: "u64_try_from n = Some w \<longleftrightarrow> unat w = n"
  using unat_less_2p[of w]
  by (auto simp: u64_try_from_def unat_of_nat take_bit_nat_eq_self simp del: unsigned_less)

lemma elapsed_product_fits:
  assumes "unat (tr_hz r) \<le> nanos_per_second" "e \<le> duration_max"
  shows "e * unat (tr_hz r) < 2 ^ 128"
proof -
  have "e * unat (tr_hz r) \<le> duration_max * nanos_per_second"
    using assms by (rule mult_le_mono[rotated])
  also have "\<dots> < 2 ^ 128"
    by (simp add: duration_max_def nanos_per_second_def)
  finally show ?thesis .
qed

lemma deadline_total:
  assumes "0 < unat (tr_hz r)"
  shows "deadline r k = Some (div_ceil (unat k * nanos_per_second) (unat (tr_hz r)))"
proof -
  define n where "n = div_ceil (unat k * nanos_per_second) (unat (tr_hz r))"
  have "unat k * nanos_per_second \<le> unat k * nanos_per_second * unat (tr_hz r)"
    using assms by simp
  then have "n \<le> unat k * nanos_per_second"
    using assms by (simp add: n_def div_ceil_le_iff)
  then have "n div nanos_per_second \<le> unat k"
    using div_le_mono[of n "unat k * nanos_per_second" nanos_per_second]
    by (simp add: nanos_per_second_def)
  also have "unat k < 2 ^ 64"
    using unat_less_2p[of k] by simp
  finally have "n div nanos_per_second < 2 ^ 64" .
  then show ?thesis
    by (simp add: deadline_def n_def[symmetric] Let_def u64_try_from_def duration_new_def
        unat_of_nat take_bit_nat_eq_self)
qed

lemma elapsed_ticks_value:
  assumes "unat (tr_hz r) \<le> nanos_per_second" "e \<le> duration_max"
  shows "elapsed_ticks r e = u64_try_from (e * unat (tr_hz r) div nanos_per_second)"
  using elapsed_product_fits[OF assms] by (simp add: elapsed_ticks_def)

lemma le_elapsed_iff:
  assumes "0 < h"
  shows "k \<le> e * h div nanos_per_second \<longleftrightarrow> div_ceil (k * nanos_per_second) h \<le> e"
  using assms by (simp add: div_ceil_le_iff less_eq_div_iff_mult_less_eq nanos_per_second_def)

lemma deadline_le_max:
  fixes k :: ServerTick
  assumes "0 < unat (tr_hz r)"
  shows "div_ceil (unat k * nanos_per_second) (unat (tr_hz r)) \<le> duration_max"
proof -
  have "unat k \<le> 2 ^ 64 - 1"
    using unat_less_2p[of k] by (simp del: unsigned_less)
  then have "unat k * nanos_per_second \<le> duration_max"
    unfolding duration_max_def by (intro trans_le_add1 mult_le_mono1)
  also have "\<dots> \<le> duration_max * unat (tr_hz r)"
    using assms by simp
  finally show ?thesis
    using assms by (simp add: div_ceil_le_iff)
qed

lemma elapsed_ticks_deadline:
  assumes "0 < unat (tr_hz r)" "unat (tr_hz r) \<le> nanos_per_second" "deadline r k = Some d"
  shows "elapsed_ticks r d = Some k"
proof -
  define h where "h = unat (tr_hz r)"
  have h: "0 < h" "h \<le> nanos_per_second"
    using assms by (simp_all add: h_def)
  have d: "d = div_ceil (unat k * nanos_per_second) h"
    using assms deadline_total[of r k] by (simp add: h_def)
  have "unat k \<le> d * h div nanos_per_second"
    using h by (simp add: le_elapsed_iff d)
  moreover have "\<not> unat k + 1 \<le> d * h div nanos_per_second"
  proof -
    have "d * h < unat k * nanos_per_second + h"
      using h by (simp add: d div_ceil_mult_less)
    then have "\<not> (unat k + 1) * nanos_per_second \<le> d * h"
      using h unfolding distrib_right by linarith
    then show ?thesis
      by (simp add: less_eq_div_iff_mult_less_eq nanos_per_second_def)
  qed
  ultimately have "d * h div nanos_per_second = unat k"
    by linarith
  then show ?thesis
    using assms deadline_le_max[of r k] by (simp add: elapsed_ticks_value u64_try_from_Some h_def d)
qed

lemma phase_fits: "(x mod nanos_per_second) * 65536 div nanos_per_second < 65536"
proof -
  have "x mod nanos_per_second < nanos_per_second"
    by (simp add: nanos_per_second_def)
  then show ?thesis
    by (simp add: div_less_iff_less_mult nanos_per_second_def)
qed

lemma phase_bracket:
  fixes x :: nat
  defines "p \<equiv> (x mod nanos_per_second) * 65536 div nanos_per_second"
  shows "(x div nanos_per_second * 65536 + p) * nanos_per_second \<le> x * 65536"
    and "x * 65536 < (x div nanos_per_second * 65536 + p + 1) * nanos_per_second"
proof -
  define q m where "q = x div nanos_per_second" and "m = x mod nanos_per_second"
  have x: "x = q * nanos_per_second + m"
    by (simp add: q_def m_def)
  have "p * nanos_per_second \<le> m * 65536"
    by (simp add: p_def m_def)
  moreover have "m * 65536 < (p + 1) * nanos_per_second"
    using div_less_iff_less_mult[of nanos_per_second "m * 65536" "p + 1"]
    by (simp add: p_def m_def nanos_per_second_def)
  ultimately show "(x div nanos_per_second * 65536 + p) * nanos_per_second \<le> x * 65536"
    "x * 65536 < (x div nanos_per_second * 65536 + p + 1) * nanos_per_second"
    unfolding q_def[symmetric] by (simp_all add: x algebra_simps)
qed

section \<open>Properties\<close>

text \<open>
  Serial ordering of 32-bit counters is antisymmetric across wrap-around: exchanging the
  arguments exchanges Newer and Older and keeps Equal and Ambiguous, and the session layer's
  \<open>newer\<close> test is exactly the Newer outcome, so a counter exactly half the range away is never
  accepted.
\<close>

theorem serial_order_antisymmetric:
  "compare_serial32 b a =
      (case compare_serial32 a b of Older \<Rightarrow> Newer | Newer \<Rightarrow> Older | x \<Rightarrow> x)
   \<and> newer a (Some b) = (compare_serial32 a b = Newer)
   \<and> \<not> (newer a (Some b) \<and> newer b (Some a))"
  unfolding newer_iff compare_serial32_swap[of b a]
  by (cases "compare_serial32 a b") simp_all

text \<open>
  Rational tick deadlines never drift.  For every accepted rate each tick has a deadline,
  quantising that deadline gives back the same tick, and an instant has reached tick \<open>k\<close> exactly
  when it is not before the deadline of \<open>k\<close>.
\<close>

theorem deadline_elapsed_galois:
  assumes "tick_rate_new hz = Some r"
  shows "\<exists>d. deadline r k = Some d \<and> elapsed_ticks r d = Some k \<and>
    (\<forall>e t. e \<le> duration_max \<longrightarrow> elapsed_ticks r e = Some t \<longrightarrow> (k \<le> t) = (d \<le> e))"
proof -
  have hz: "0 < unat (tr_hz r)" "unat (tr_hz r) \<le> nanos_per_second"
    using tick_rate_new_Some[OF assms] by auto
  show ?thesis
    using hz
    by (auto simp: deadline_total elapsed_ticks_value u64_try_from_Some word_le_nat_alt
        le_elapsed_iff[symmetric] intro: elapsed_ticks_deadline)
qed

theorem deadline_elapsed_galois_witness:
  "elapsed_ticks (TickRate 60) 16666666 = Some 0 \<and>
   (\<exists>d. deadline (TickRate 60) 1 = Some d \<and> \<not> d \<le> 16666666 \<and> d \<le> 16666667)"
proof -
  have rate: "tick_rate_new 60 = Some (TickRate 60)"
    by (simp add: tick_rate_new_def)
  have early: "elapsed_ticks (TickRate 60) 16666666 = Some 0"
    and late: "elapsed_ticks (TickRate 60) 16666667 = Some 1"
    by (simp_all add: elapsed_ticks_def u64_try_from_def nanos_per_second_def)
  have "16666666 \<le> duration_max" "16666667 \<le> duration_max"
    by (simp_all add: duration_max_def nanos_per_second_def)
  then show ?thesis
    using deadline_elapsed_galois[OF rate, of 1] early late
    by (metis word_not_simps(1) word_le_less_eq order_refl lessI zero_neq_one word_zero_le
        order_antisym_conv)
qed

text \<open>
  The fractional quantisation agrees with the whole-tick one and rounds down: tick and phase
  bracket the elapsed instant within one phase unit, for every representable duration.
\<close>

theorem elapsed_tick_phase_rounds_down:
  assumes "tick_rate_new hz = Some r" "e \<le> duration_max"
  shows "map_option fst (elapsed_tick_phase r e) = elapsed_ticks r e \<and>
    (\<forall>t p. elapsed_tick_phase r e = Some (t, p) \<longrightarrow>
      (unat t * 65536 + unat p) * nanos_per_second \<le> e * unat hz * 65536 \<and>
      e * unat hz * 65536 < (unat t * 65536 + unat p + 1) * nanos_per_second)"
proof -
  define x where "x = e * unat (tr_hz r)"
  have fits: "x < 2 ^ 128"
    using elapsed_product_fits[of r e] assms(2) tick_rate_new_Some[OF assms(1)]
    unfolding x_def by blast
  then have phase: "elapsed_tick_phase r e = map_option
      (\<lambda>t. (t, of_nat (x mod nanos_per_second * 65536 div nanos_per_second)))
      (u64_try_from (x div nanos_per_second))"
    by (simp add: elapsed_tick_phase_def x_def[symmetric] Let_def split: option.split)
  have "elapsed_ticks r e = u64_try_from (x div nanos_per_second)"
    using fits by (simp add: elapsed_ticks_def x_def)
  moreover have "e * unat hz = x"
    using tick_rate_new_Some[OF assms(1)] by (simp add: x_def)
  ultimately show ?thesis
    using phase_bracket[of x] phase_fits[of x]
    by (auto simp: phase option.map_comp comp_def option.map_ident u64_try_from_Some unat_of_nat take_bit_nat_eq_self)
qed

theorem elapsed_tick_phase_rounds_down_witness:
  "(16666666 * 65536 * 60 :: nat) < (0 * 65536 + 65535 + 1) * nanos_per_second"
proof -
  have rate: "tick_rate_new 60 = Some (TickRate 60)"
    by (simp add: tick_rate_new_def)
  have "16666666 \<le> duration_max"
    by (simp add: duration_max_def nanos_per_second_def)
  moreover have "elapsed_tick_phase (TickRate 60) 16666666 = Some (0, 65535)"
    by (simp add: elapsed_tick_phase_def u64_try_from_def nanos_per_second_def Let_def)
  ultimately show ?thesis
    using elapsed_tick_phase_rounds_down[OF rate, of 16666666] by force
qed

end
