(* ===== verification/Net_Codec.thy ===== *)
theory Net_Codec
  imports Net_Types
begin

text \<open>
  Application frames, bounded collections and payloads (\<open>engine/net/src/codec.rs\<close>) and the
  compressed message form (\<open>engine/net/src/wire.rs\<close>).

  \<open>bincode\<close> and \<open>miniz_oxide\<close> are not part of the repository: serialisation, deserialisation,
  \<open>compress_to_vec\<close> and \<open>decompress\<close> are arguments of the definitions that call them, and the laws
  the code relies on (round trip, exact consumption) are premises of the properties that need them.
\<close>

section \<open>Little-endian integers\<close>

type_synonym bytes = "u8 list"

fun le_bytes :: "nat \<Rightarrow> nat \<Rightarrow> bytes" where
  "le_bytes 0 x = []"
| "le_bytes (Suc n) x = of_nat (x mod 256) # le_bytes n (x div 256)"

fun from_le_bytes :: "bytes \<Rightarrow> nat" where
  "from_le_bytes [] = 0"
| "from_le_bytes (b # bs) = unat b + 256 * from_le_bytes bs"

definition byte_range :: "nat \<Rightarrow> nat \<Rightarrow> 'a list \<Rightarrow> 'a list" where
  "byte_range a b xs = take (b - a) (drop a xs)"

section \<open>Codec errors and bounded collections\<close>

datatype CodecError =
    InvalidLimit | Oversized | Truncated | TrailingBytes | ProtocolMismatch
  | InvalidLane | InvalidFlags | WrongEpoch | InvalidPayload string

definition bounded_new :: "nat \<Rightarrow> 'a list \<Rightarrow> CodecError + 'a list" where
  "bounded_new N vals = (if length vals > N then Inl Oversized else Inr vals)"

definition bounded_push :: "nat \<Rightarrow> 'a \<Rightarrow> 'a list \<Rightarrow> (CodecError + unit) \<times> 'a list" where
  "bounded_push N val vec =
    (if length vec = N then (Inl Oversized, vec) else (Inr (), vec @ [val]))"

fun visit_elements :: "nat \<Rightarrow> ('e + 'a) list \<Rightarrow> 'a list \<Rightarrow> ('e + string) + 'a list" where
  "visit_elements N [] vals = Inr vals"
| "visit_elements N (Inl e # rest) vals = Inl (Inl e)"
| "visit_elements N (Inr v # rest) vals =
    (if length vals = N then Inl (Inr ''collection count exceeds limit'')
     else visit_elements N rest (vals @ [v]))"

definition visit_seq :: "nat \<Rightarrow> nat option \<Rightarrow> ('e + 'a) list \<Rightarrow> ('e + string) + 'a list" where
  "visit_seq N size_hint elements =
    (if (case size_hint of None \<Rightarrow> False | Some sz \<Rightarrow> sz > N)
     then Inl (Inr ''collection count exceeds limit'')
     else visit_elements N elements [])"

section \<open>Frames\<close>

definition PROTOCOL_MAJOR :: u16 where "PROTOCOL_MAJOR = 1"

definition PROTOCOL_MINOR :: u16 where "PROTOCOL_MINOR = 0"

definition HEADER_BYTES :: nat where "HEADER_BYTES = 24"

definition MAGIC :: bytes where "MAGIC = [78, 82, 71, 49]"

datatype Lane = Control | Input | State | Outcomes | Diagnostics

definition lane_byte :: "Lane \<Rightarrow> u8" where
  "lane_byte l = (case l of Control \<Rightarrow> 0 | Input \<Rightarrow> 1 | State \<Rightarrow> 2 | Outcomes \<Rightarrow> 3 | Diagnostics \<Rightarrow> 4)"

definition lane_try_from :: "u8 \<Rightarrow> CodecError + Lane" where
  "lane_try_from b =
    (if b = 0 then Inr Control
     else if b = 1 then Inr Input
     else if b = 2 then Inr State
     else if b = 3 then Inr Outcomes
     else if b = 4 then Inr Diagnostics
     else Inl InvalidLane)"

record FrameHeader =
  fh_lane :: Lane
  fh_connection :: ConnectionEpoch
  fh_sequence :: u32

datatype FrameLimit = FrameLimit (fl_bytes: nat)

definition frame_limit_new :: "nat \<Rightarrow> CodecError + FrameLimit" where
  "frame_limit_new n =
    (if \<not> (HEADER_BYTES \<le> n \<and> n \<le> HEADER_BYTES + 65535) then Inl InvalidLimit
     else Inr (FrameLimit n))"

definition payload_bytes :: "FrameLimit \<Rightarrow> nat" where
  "payload_bytes limit = fl_bytes limit - HEADER_BYTES"

definition encode_frame :: "FrameHeader \<Rightarrow> bytes \<Rightarrow> FrameLimit \<Rightarrow> CodecError + bytes" where
  "encode_frame header payload limit =
    (if fh_connection header = 0 then Inl WrongEpoch
     else if length payload > payload_bytes limit then Inl Oversized
     else Inr (MAGIC
       @ le_bytes 2 (unat PROTOCOL_MAJOR)
       @ le_bytes 2 (unat PROTOCOL_MINOR)
       @ [lane_byte (fh_lane header)]
       @ [0]
       @ le_bytes 8 (unat (fh_connection header))
       @ le_bytes 4 (unat (fh_sequence header))
       @ le_bytes 2 (unat (of_nat (length payload) :: u16))
       @ payload))"

definition decode_frame ::
  "bytes \<Rightarrow> ConnectionEpoch \<Rightarrow> FrameLimit \<Rightarrow> CodecError + (FrameHeader \<times> bytes)" where
  "decode_frame bytes expected limit =
    (if length bytes > fl_bytes limit then Inl Oversized
     else if length bytes < HEADER_BYTES then Inl Truncated
     else if take 4 bytes \<noteq> MAGIC
       \<or> byte_range 4 6 bytes \<noteq> le_bytes 2 (unat PROTOCOL_MAJOR)
       \<or> byte_range 6 8 bytes \<noteq> le_bytes 2 (unat PROTOCOL_MINOR) then Inl ProtocolMismatch
     else case lane_try_from (bytes ! 8) of
       Inl e \<Rightarrow> Inl e
     | Inr lane \<Rightarrow>
       (if bytes ! 9 \<noteq> 0 then Inl InvalidFlags
        else let connection = of_nat (from_le_bytes (byte_range 10 18 bytes)) in
        if expected = 0 \<or> connection \<noteq> expected then Inl WrongEpoch
        else let sequence = of_nat (from_le_bytes (byte_range 18 22 bytes));
                 len = from_le_bytes (byte_range 22 24 bytes) in
        if length bytes < HEADER_BYTES + len then Inl Truncated
        else if length bytes > HEADER_BYTES + len then Inl TrailingBytes
        else Inr (\<lparr>fh_lane = lane, fh_connection = connection, fh_sequence = sequence\<rparr>,
                  drop HEADER_BYTES bytes)))"

section \<open>Payloads\<close>

definition encode_payload ::
  "('a \<Rightarrow> CodecError + unit) \<Rightarrow> (nat \<Rightarrow> 'a \<Rightarrow> string + nat) \<Rightarrow> (nat \<Rightarrow> 'a \<Rightarrow> string + bytes) \<Rightarrow>
   'a \<Rightarrow> nat \<Rightarrow> CodecError + bytes" where
  "encode_payload validate serialized_size serialize_with val limit =
    (if limit = 0 \<or> limit > 65535 then Inl InvalidLimit
     else case validate val of Inl e \<Rightarrow> Inl e | Inr _ \<Rightarrow>
       (case serialized_size limit val of Inl e \<Rightarrow> Inl (InvalidPayload e) | Inr sz \<Rightarrow>
         (if sz > limit then Inl Oversized
          else case serialize_with limit val of
            Inl e \<Rightarrow> Inl (InvalidPayload e) | Inr bytes \<Rightarrow> Inr bytes)))"

definition decode_payload ::
  "('a \<Rightarrow> CodecError + unit) \<Rightarrow> (nat \<Rightarrow> bytes \<Rightarrow> string + 'a) \<Rightarrow> bytes \<Rightarrow> nat \<Rightarrow> CodecError + 'a" where
  "decode_payload validate deserialize_with bytes limit =
    (if limit = 0 \<or> limit > 65535 then Inl InvalidLimit
     else if length bytes > limit then Inl Oversized
     else case deserialize_with limit bytes of
       Inl e \<Rightarrow> Inl (InvalidPayload e)
     | Inr val \<Rightarrow> (case validate val of Inl e \<Rightarrow> Inl e | Inr _ \<Rightarrow> Inr val))"

section \<open>Compressed messages\<close>

datatype 'e WireError = Invalid string | Bincode 'e

datatype CompressionMode = Auto | Off

record CompressionPolicy =
  cp_mode :: CompressionMode
  cp_minimum_bytes :: nat

definition default_policy :: CompressionPolicy where
  "default_policy = \<lparr>cp_mode = Auto, cp_minimum_bytes = 0\<rparr>"

definition MAX_STATE_BYTES :: nat where "MAX_STATE_BYTES = 1024 * 1024"

definition deserialize :: "(bytes \<Rightarrow> 'e + 'a) \<Rightarrow> bytes \<Rightarrow> 'e WireError + 'a" where
  "deserialize bincode_de bytes =
    (if length bytes > MAX_STATE_BYTES then Inl (Invalid ''oversized state'')
     else case bincode_de bytes of Inl e \<Rightarrow> Inl (Bincode e) | Inr v \<Rightarrow> Inr v)"

definition encode_with_compression ::
  "('a \<Rightarrow> bytes) \<Rightarrow> (bytes \<Rightarrow> bytes) \<Rightarrow> 'a \<Rightarrow> CompressionPolicy \<Rightarrow> bytes" where
  "encode_with_compression serialize compress_to_vec val policy =
    (let raw = serialize val;
         compressed = compress_to_vec raw in
     if cp_mode policy = Auto \<and> length raw \<ge> cp_minimum_bytes policy
        \<and> length compressed + 5 < length raw + 1
     then [1] @ le_bytes 4 (unat (of_nat (length raw) :: u32)) @ compressed
     else [0] @ raw)"

definition encode_message :: "('a \<Rightarrow> bytes) \<Rightarrow> (bytes \<Rightarrow> bytes) \<Rightarrow> 'a \<Rightarrow> bytes" where
  "encode_message serialize compress_to_vec val =
    encode_with_compression serialize compress_to_vec val default_policy"

text \<open>
  \<open>decompress input size\<close> stands for inflating into a zeroed buffer of \<open>size\<close> bytes: whether the
  status is Done, the input bytes consumed, the bytes written, and the buffer afterwards.
\<close>

type_synonym inflater = "bytes \<Rightarrow> nat \<Rightarrow> bool \<times> nat \<times> nat \<times> bytes"

definition decode_with_limit ::
  "(bytes \<Rightarrow> 'e + 'a) \<Rightarrow> inflater \<Rightarrow> bytes \<Rightarrow> nat \<Rightarrow> 'e WireError + 'a" where
  "decode_with_limit bincode_de decompress bytes limit0 =
    (let limit = min limit0 MAX_STATE_BYTES in
     if length bytes > limit + 1 then Inl (Invalid ''oversized message'')
     else case bytes of
       [] \<Rightarrow> Inl (Invalid ''invalid wire frame'')
     | tag # body \<Rightarrow>
       (if tag = 0 \<and> length body \<le> limit then deserialize bincode_de body
        else if tag = 1 \<and> length body \<ge> 4 then
          (let sz = from_le_bytes (take 4 body) in
           if sz > limit then Inl (Invalid ''oversized inflated state'')
           else case decompress (drop 4 body) sz of
             (finished, consumed, written, raw) \<Rightarrow>
               (if \<not> finished \<or> consumed \<noteq> length body - 4 \<or> written \<noteq> sz
                then Inl (Invalid ''invalid compressed state or trailing bytes'')
                else deserialize bincode_de raw))
        else Inl (Invalid ''invalid wire frame'')))"

definition decode_message :: "(bytes \<Rightarrow> 'e + 'a) \<Rightarrow> inflater \<Rightarrow> bytes \<Rightarrow> 'e WireError + 'a" where
  "decode_message bincode_de decompress bytes =
    decode_with_limit bincode_de decompress bytes MAX_STATE_BYTES"

section \<open>Byte-level round trips\<close>

lemma length_le_bytes [simp]: "length (le_bytes n x) = n"
  by (induction n arbitrary: x) simp_all

lemma from_le_le_bytes: "x < 256 ^ n \<Longrightarrow> from_le_bytes (le_bytes n x) = x"
proof (induction n arbitrary: x)
  case (Suc n)
  then have "x div 256 < 256 ^ n"
    by (simp add: div_less_iff_less_mult mult.commute)
  with Suc show ?case
    by (simp add: unat_of_nat take_bit_nat_eq_self)
qed simp

lemma le_from_le_bytes: "le_bytes (length bs) (from_le_bytes bs) = bs"
proof (induction bs)
  case (Cons b bs)
  have "unat b < 256"
    using unat_less_2p[of b] by simp
  with Cons show ?case
    by simp
qed simp

lemma from_le_bytes_less: "from_le_bytes bs < 256 ^ length bs"
proof (induction bs)
  case (Cons b bs)
  have "unat b < 256"
    using unat_less_2p[of b] by simp
  moreover have "256 * from_le_bytes bs + 256 \<le> 256 * 256 ^ length bs"
    using Cons by (simp add: Suc_le_eq[symmetric])
  ultimately show ?case
    by simp
qed simp

lemma unat_round_u16 [simp]: "n < 65536 \<Longrightarrow> unat (of_nat n :: u16) = n"
  and unat_round_u32 [simp]: "n < 4294967296 \<Longrightarrow> unat (of_nat n :: u32) = n"
  and unat_round_u64 [simp]: "n < 18446744073709551616 \<Longrightarrow> unat (of_nat n :: u64) = n"
  by (simp_all add: unat_of_nat take_bit_nat_eq_self)

lemma from_le_unat [simp]:
  "from_le_bytes (le_bytes 2 (unat (x :: u16))) = unat x"
  "from_le_bytes (le_bytes 4 (unat (y :: u32))) = unat y"
  "from_le_bytes (le_bytes 8 (unat (z :: u64))) = unat z"
  using unat_less_2p[of x] unat_less_2p[of y] unat_less_2p[of z]
  by (simp_all add: from_le_le_bytes)

lemma le_bytes_of_from_le:
  "length bs = 2 \<Longrightarrow> le_bytes 2 (from_le_bytes bs) = bs"
  "length bs = 4 \<Longrightarrow> le_bytes 4 (unat (of_nat (from_le_bytes bs) :: u32)) = bs"
  "length bs = 8 \<Longrightarrow> le_bytes 8 (unat (of_nat (from_le_bytes bs) :: u64)) = bs"
  using le_from_le_bytes[of bs] from_le_bytes_less[of bs] by auto

lemma length_byte_range: "length (byte_range a b xs) = min (b - a) (length xs - a)"
  by (simp add: byte_range_def)

lemma lane_round_trip: "lane_try_from (lane_byte l) = Inr l"
  by (cases l) (simp_all add: lane_byte_def lane_try_from_def)

lemma lane_byte_try_from: "lane_try_from b = Inr l \<Longrightarrow> lane_byte l = b"
  by (auto simp: lane_byte_def lane_try_from_def split: if_splits)

lemma frame_slices:
  assumes "length m = 4" "length a = 2" "length b = 2" "length e = 8" "length f = 4" "length g = 2"
    and "xs = m @ a @ b @ [c] @ [d] @ e @ f @ g @ p"
  shows "take 4 xs = m" "byte_range 4 6 xs = a" "byte_range 6 8 xs = b" "xs ! 8 = c" "xs ! 9 = d"
    "byte_range 10 18 xs = e" "byte_range 18 22 xs = f" "byte_range 22 24 xs = g" "drop 24 xs = p"
    "length xs = 24 + length p"
  using assms by (simp_all add: byte_range_def nth_append)

lemma frame_split:
  assumes "24 \<le> length xs"
  shows "take 4 xs @ byte_range 4 6 xs @ byte_range 6 8 xs @ [xs ! 8] @ [xs ! 9] @ byte_range 10 18 xs
    @ byte_range 18 22 xs @ byte_range 22 24 xs @ drop 24 xs = xs"
proof -
  have one: "[xs ! n] = byte_range n (n + 1) xs" if "n < 24" for n
    using that assms by (simp add: byte_range_def take_Suc_conv_app_nth[of 0 "drop n xs", simplified])
  have join: "byte_range a b xs @ drop b xs = drop a xs" if "a \<le> b" for a b
    unfolding byte_range_def using that append_take_drop_id[of "b - a" "drop a xs"] by simp
  show ?thesis
    using one[of 8] one[of 9] by (simp add: join)
qed

lemma frame_limit_ok: "frame_limit_new n = Inr limit \<Longrightarrow> HEADER_BYTES \<le> fl_bytes limit \<and> payload_bytes limit < 65536"
  by (auto simp: frame_limit_new_def payload_bytes_def split: if_splits)

lemma encode_frame_slices:
  assumes "encode_frame h p limit = Inr bs"
  shows "take 4 bs = MAGIC" "byte_range 4 6 bs = le_bytes 2 (unat PROTOCOL_MAJOR)"
    "byte_range 6 8 bs = le_bytes 2 (unat PROTOCOL_MINOR)" "bs ! 8 = lane_byte (fh_lane h)" "bs ! 9 = 0"
    "byte_range 10 18 bs = le_bytes 8 (unat (fh_connection h))"
    "byte_range 18 22 bs = le_bytes 4 (unat (fh_sequence h))"
    "byte_range 22 24 bs = le_bytes 2 (unat (of_nat (length p) :: u16))"
    "drop 24 bs = p" "length bs = 24 + length p"
proof -
  have "length MAGIC = 4"
    by (simp add: MAGIC_def)
  note eqs = frame_slices[OF this length_le_bytes length_le_bytes length_le_bytes length_le_bytes
      length_le_bytes]
  have "bs = MAGIC @ le_bytes 2 (unat PROTOCOL_MAJOR) @ le_bytes 2 (unat PROTOCOL_MINOR)
      @ [lane_byte (fh_lane h)] @ [0] @ le_bytes 8 (unat (fh_connection h))
      @ le_bytes 4 (unat (fh_sequence h)) @ le_bytes 2 (unat (of_nat (length p) :: u16)) @ p"
    using assms by (simp add: encode_frame_def split: if_splits)
  from eqs[OF this] show "take 4 bs = MAGIC" "byte_range 4 6 bs = le_bytes 2 (unat PROTOCOL_MAJOR)"
    "byte_range 6 8 bs = le_bytes 2 (unat PROTOCOL_MINOR)" "bs ! 8 = lane_byte (fh_lane h)" "bs ! 9 = 0"
    "byte_range 10 18 bs = le_bytes 8 (unat (fh_connection h))"
    "byte_range 18 22 bs = le_bytes 4 (unat (fh_sequence h))"
    "byte_range 22 24 bs = le_bytes 2 (unat (of_nat (length p) :: u16))"
    "drop 24 bs = p" "length bs = 24 + length p"
    by blast+
qed

lemma encode_frame_bounds:
  "encode_frame h p limit = Inr bs \<Longrightarrow> fh_connection h \<noteq> 0 \<and> length p \<le> payload_bytes limit"
  by (auto simp: encode_frame_def split: if_splits)

lemma decode_encode_frame:
  assumes "frame_limit_new n = Inr limit" "encode_frame h p limit = Inr bs"
  shows "decode_frame bs (fh_connection h) limit = Inr (h, p)"
proof -
  have "length bs \<le> fl_bytes limit" "length p < 65536"
    using frame_limit_ok[OF assms(1)] encode_frame_bounds[OF assms(2)]
      encode_frame_slices(10)[OF assms(2)]
    by (auto simp: payload_bytes_def HEADER_BYTES_def)
  then show ?thesis
    unfolding decode_frame_def encode_frame_slices[OF assms(2)] HEADER_BYTES_def
    using encode_frame_bounds[OF assms(2)]
    by (simp add: lane_round_trip from_le_le_bytes Let_def)
qed

lemma encode_decode_frame:
  assumes "frame_limit_new n = Inr limit" "decode_frame bs expected limit = Inr (h, p)"
  shows "encode_frame h p limit = Inr bs \<and> fh_connection h = expected"
proof -
  define len where "len = from_le_bytes (byte_range 22 24 bs)"
  have long: "24 \<le> length bs"
    using assms(2) by (auto simp: decode_frame_def HEADER_BYTES_def split: if_splits)
  have facts: "length bs \<le> fl_bytes limit" "take 4 bs = MAGIC"
      "byte_range 4 6 bs = le_bytes 2 (unat PROTOCOL_MAJOR)"
      "byte_range 6 8 bs = le_bytes 2 (unat PROTOCOL_MINOR)"
      "lane_try_from (bs ! 8) = Inr (fh_lane h)" "bs ! 9 = 0" "expected \<noteq> 0"
      "fh_connection h = expected" "expected = of_nat (from_le_bytes (byte_range 10 18 bs))"
      "fh_sequence h = of_nat (from_le_bytes (byte_range 18 22 bs))"
      "length bs = 24 + len" "p = drop 24 bs"
    using assms(2)
    by (auto simp: decode_frame_def HEADER_BYTES_def Let_def len_def split: if_splits sum.splits)
  have len: "len < 65536" "length p = len"
    using from_le_bytes_less[of "byte_range 22 24 bs"] long facts(11,12)
    by (simp_all add: len_def length_byte_range)
  have parts: "le_bytes 8 (unat expected) = byte_range 10 18 bs"
      "le_bytes 4 (unat (fh_sequence h)) = byte_range 18 22 bs" "le_bytes 2 len = byte_range 22 24 bs"
    using long facts(8-10) by (simp_all add: le_bytes_of_from_le length_byte_range len_def)
  have "length p \<le> payload_bytes limit"
    using facts(1,11) len by (simp add: payload_bytes_def HEADER_BYTES_def)
  then show ?thesis
    using facts(7,8) len frame_split[OF long]
    by (simp add: encode_frame_def parts facts(2-4,12)[symmetric] lane_byte_try_from[OF facts(5)]
        facts(6)[symmetric] del: append.simps append_Cons)
qed

lemma byte_range_take: "b \<le> k \<Longrightarrow> byte_range a b (take k xs) = byte_range a b xs"
  by (auto simp: byte_range_def take_drop min_def)

lemma byte_range_append: "b \<le> length xs \<Longrightarrow> byte_range a b (xs @ ys) = byte_range a b xs"
  by (cases "a \<le> b") (simp_all add: byte_range_def)

lemma decode_short_frame:
  assumes limit: "frame_limit_new n = Inr limit" and bs: "encode_frame h p limit = Inr bs"
    and short: "k < length bs"
  shows "decode_frame (take k bs) (fh_connection h) limit = Inl Truncated"
proof (cases "k < 24")
  case True
  then show ?thesis
    using short encode_frame_slices(10)[OF bs] frame_limit_ok[OF limit]
    by (simp add: decode_frame_def HEADER_BYTES_def)
next
  case False
  have "length p < 65536" "length bs \<le> fl_bytes limit"
    using frame_limit_ok[OF limit] encode_frame_bounds[OF bs] encode_frame_slices(10)[OF bs]
    by (auto simp: payload_bytes_def HEADER_BYTES_def)
  then show ?thesis
    using False short encode_frame_bounds[OF bs] encode_frame_slices(10)[OF bs]
    by (simp add: decode_frame_def byte_range_take encode_frame_slices(1-8)[OF bs] HEADER_BYTES_def
        lane_round_trip from_le_le_bytes Let_def take_take min_def)
qed

lemma decode_long_frame:
  assumes limit: "frame_limit_new n = Inr limit" and bs: "encode_frame h p limit = Inr bs"
    and extra: "extra \<noteq> []"
  shows "decode_frame (bs @ extra) (fh_connection h) limit =
    Inl (if length bs + length extra > fl_bytes limit then Oversized else TrailingBytes)"
proof -
  have len: "length bs = 24 + length p" "length p < 65536" "length bs \<le> fl_bytes limit"
    using frame_limit_ok[OF limit] encode_frame_bounds[OF bs] encode_frame_slices(10)[OF bs]
    by (auto simp: payload_bytes_def HEADER_BYTES_def)
  moreover have "take 4 (bs @ extra) = MAGIC" "(bs @ extra) ! 8 = lane_byte (fh_lane h)"
      "(bs @ extra) ! 9 = 0"
    using len encode_frame_slices(1,4,5)[OF bs] by (simp_all add: nth_append)
  ultimately show ?thesis
    using extra encode_frame_bounds[OF bs]
    by (simp add: decode_frame_def byte_range_append encode_frame_slices(2,3,6-8)[OF bs]
        HEADER_BYTES_def lane_round_trip from_le_le_bytes Let_def)
qed

lemma decode_encode_wire:
  assumes "length (ser v) \<le> limit" "limit \<le> MAX_STATE_BYTES"
    and de: "de (ser v) = Inr v"
    and inflate: "inflate (deflate (ser v)) (length (ser v)) =
      (True, length (deflate (ser v)), length (ser v), ser v)"
  shows "decode_with_limit de inflate (encode_with_compression ser deflate v policy) limit = Inr v"
proof -
  have "length (ser v) < 4294967296" "length (ser v) \<le> MAX_STATE_BYTES"
    using assms(1,2) by (simp_all add: MAX_STATE_BYTES_def)
  then show ?thesis
    using assms(1,2)
    by (auto simp: decode_with_limit_def encode_with_compression_def Let_def deserialize_def de
        inflate from_le_le_bytes min_def)
qed

lemma visit_elements_iff:
  "length vals \<le> N \<Longrightarrow>
    visit_elements N es vals = Inr r \<longleftrightarrow> (\<exists>vs. es = map Inr vs \<and> r = vals @ vs \<and> length r \<le> N)"
proof (induction N es vals rule: visit_elements.induct)
  case (3 N v rest vals)
  then show ?case
    by (auto simp: Cons_eq_map_conv)
qed auto

section \<open>Properties\<close>

text \<open>
  C29: The frame decoder accepts exactly the encoder's output.  For every valid frame limit, decoding
  bytes for an expected connection epoch yields a header and payload if and only if encoding that
  header and payload yields those very bytes and the header carries the expected epoch: encode then
  decode is the identity, no two byte strings decode to the same frame, and nothing else is accepted.
\<close>

theorem frame_codec_exact:
  assumes "frame_limit_new n = Inr limit"
  shows "decode_frame bs expected limit = Inr (h, p) \<longleftrightarrow>
    encode_frame h p limit = Inr bs \<and> fh_connection h = expected"
  using decode_encode_frame[OF assms] encode_decode_frame[OF assms] by blast

theorem frame_codec_exact_witness:
  "decode_frame ([78, 82, 71, 49, 1, 0, 0, 0, 2, 0, 7, 0, 0, 0, 0, 0, 0, 0, 9, 1, 0, 0, 2, 0, 5, 6])
     7 (FrameLimit 26) =
   Inr (\<lparr>fh_lane = State, fh_connection = 7, fh_sequence = 265\<rparr>, [5, 6])"
proof -
  have "frame_limit_new 26 = Inr (FrameLimit 26)"
    by (simp add: frame_limit_new_def HEADER_BYTES_def)
  moreover have "encode_frame \<lparr>fh_lane = State, fh_connection = 7, fh_sequence = 265\<rparr> [5, 6] (FrameLimit 26)
      = Inr [78, 82, 71, 49, 1, 0, 0, 0, 2, 0, 7, 0, 0, 0, 0, 0, 0, 0, 9, 1, 0, 0, 2, 0, 5, 6]"
    by code_simp
  ultimately show ?thesis
    by (simp add: frame_codec_exact)
qed

text \<open>
  A damaged length is always detected.  Every proper prefix of an encoded frame is rejected as
  truncated, and every extension is rejected as oversized when it exceeds the transport limit and as
  carrying trailing bytes otherwise.
\<close>

theorem frame_length_damage_detected:
  assumes "frame_limit_new n = Inr limit" "encode_frame h p limit = Inr bs"
  shows "(\<forall>k < length bs. decode_frame (take k bs) (fh_connection h) limit = Inl Truncated) \<and>
    (\<forall>extra. extra \<noteq> [] \<longrightarrow> decode_frame (bs @ extra) (fh_connection h) limit =
      Inl (if length bs + length extra > fl_bytes limit then Oversized else TrailingBytes))"
  using decode_short_frame[OF assms] decode_long_frame[OF assms] by blast

theorem frame_length_damage_detected_witness:
  "\<exists>bs. encode_frame \<lparr>fh_lane = Control, fh_connection = 1, fh_sequence = 3\<rparr> [5] (FrameLimit 26) = Inr bs
    \<and> decode_frame (bs @ [0]) 1 (FrameLimit 26) = Inl TrailingBytes
    \<and> decode_frame (take 24 bs) 1 (FrameLimit 26) = Inl Truncated"
proof -
  let ?h = "\<lparr>fh_lane = Control, fh_connection = 1, fh_sequence = 3\<rparr>"
  have limit: "frame_limit_new 26 = Inr (FrameLimit 26)"
    by (simp add: frame_limit_new_def HEADER_BYTES_def)
  have "\<exists>bs. encode_frame ?h [5] (FrameLimit 26) = Inr bs \<and> length bs = 25"
    by (simp add: encode_frame_def payload_bytes_def HEADER_BYTES_def MAGIC_def)
  then obtain bs where bs: "encode_frame ?h [5] (FrameLimit 26) = Inr bs" "length bs = 25"
    by blast
  from frame_length_damage_detected[OF limit bs(1)] bs show ?thesis
    by (intro exI[of _ bs]) simp
qed

text \<open>
  C30: A message that serialises within the receiver's limit survives the wire under every
  compression policy, given that bincode decodes what it encoded and that inflating the deflated
  body into a buffer of the original size consumes all of it and restores it.
\<close>

theorem wire_round_trip:
  assumes "length (ser v) \<le> limit" "limit \<le> MAX_STATE_BYTES" "de (ser v) = Inr v"
    and "inflate (deflate (ser v)) (length (ser v)) =
      (True, length (deflate (ser v)), length (ser v), ser v)"
  shows "decode_with_limit de inflate (encode_with_compression ser deflate v policy) limit = Inr v
    \<and> length (encode_with_compression ser deflate v policy) \<le> length (ser v) + 1"
  using decode_encode_wire[of ser v limit de inflate deflate policy] assms
  by (simp add: encode_with_compression_def Let_def)

theorem wire_round_trip_witness:
  "decode_with_limit (\<lambda>bs. Inr (length bs) :: nat + nat) (\<lambda>i n. (True, length i, n, replicate n (i ! 0)))
     (encode_with_compression (\<lambda>n. replicate n 17) (\<lambda>raw. [hd raw]) 20 default_policy) 20 = Inr 20
   \<and> encode_with_compression (\<lambda>n. replicate n 17) (\<lambda>raw. [hd raw]) 20 default_policy
     = [1, 20, 0, 0, 0, 17]"
proof
  show "decode_with_limit (\<lambda>bs. Inr (length bs) :: nat + nat)
     (\<lambda>i n. (True, length i, n, replicate n (i ! 0)))
     (encode_with_compression (\<lambda>n. replicate n 17) (\<lambda>raw. [hd raw]) 20 default_policy) 20 = Inr 20"
    using wire_round_trip[of "\<lambda>n. replicate n 17" 20 20
        "\<lambda>bs. Inr (length bs) :: nat + nat" "\<lambda>i n. (True, length i, n, replicate n (i ! 0))" "\<lambda>raw. [hd raw]" default_policy]
    by (simp add: MAX_STATE_BYTES_def)
  show "encode_with_compression (\<lambda>n. replicate n 17) (\<lambda>raw. [hd raw]) 20 default_policy
     = [1, 20, 0, 0, 0, 17]"
    by code_simp
qed

text \<open>
  Untrusted expansion is bounded before it happens.  The result of decoding is the same for any
  two inflaters that agree on buffers of at most the effective limit, so no larger buffer is ever
  requested; and the deserialiser is only ever consulted on at most that many bytes.
\<close>

theorem wire_expansion_bounded:
  assumes "\<And>i n. n \<le> min limit MAX_STATE_BYTES \<Longrightarrow> inflate i n = inflate' i n"
    and "\<And>i n. length (snd (snd (snd (inflate i n)))) = n"
    and "\<And>bs. length bs \<le> min limit MAX_STATE_BYTES \<Longrightarrow> de bs = de' bs"
  shows "decode_with_limit de inflate bytes limit = decode_with_limit de' inflate' bytes limit"
proof (cases "\<exists>body. bytes = 1 # body \<and> from_le_bytes (take 4 body) \<le> min limit MAX_STATE_BYTES")
  case True
  then obtain body where body: "bytes = 1 # body"
      "from_le_bytes (take 4 body) \<le> min limit MAX_STATE_BYTES"
    by blast
  obtain x y z raw where raw:
      "inflate' (drop 4 body) (from_le_bytes (take 4 body)) = (x, y, z, raw)"
    by (metis surj_pair)
  then have "length raw \<le> min limit MAX_STATE_BYTES"
    using assms(1)[OF body(2)] assms(2)[of "drop 4 body" "from_le_bytes (take 4 body)"] body(2)
    by simp
  with raw body show ?thesis
    by (simp add: decode_with_limit_def deserialize_def assms(1,3) Let_def)
next
  case False
  then show ?thesis
    by (auto simp: decode_with_limit_def deserialize_def assms(3) Let_def split: list.split)
qed

theorem wire_expansion_bounded_witness:
  "decode_with_limit (\<lambda>bs. if length bs \<le> 4 then Inr bs else Inl ()) (\<lambda>i n. (True, length i, n, replicate n 0))
     [1, 5, 0, 0, 0] 4 =
   decode_with_limit (\<lambda>bs. Inr bs)
     (\<lambda>i n. if n \<le> 4 then (True, length i, n, replicate n 0) else (False, 0, 0, [])) [1, 5, 0, 0, 0] 4"
  by (rule wire_expansion_bounded) (simp_all add: MAX_STATE_BYTES_def)

text \<open>
  A bounded collection is deserialised exactly when it fits.  With a truthful size hint the
  visitor returns a vector if and only if every element decoded and there are at most \<open>N\<close> of them,
  and the vector is then the sequence of decoded elements.
\<close>

lemma bounded_vec_exact:
  "visit_seq N (Some (length es)) es = Inr r \<longleftrightarrow> es = map Inr r \<and> length r \<le> N"
  by (auto simp: visit_seq_def visit_elements_iff)

text \<open>
  A payload accepted for sending is within the limit and is received unchanged, given that
  bincode reports the size it writes and decodes what it encoded.
\<close>

lemma payload_round_trip:
  assumes "encode_payload validate size_of serialize_with v limit = Inr bs"
    and "serialize_with limit v = Inr bs \<Longrightarrow> size_of limit v = Inr (length bs)"
    and "serialize_with limit v = Inr bs \<Longrightarrow> deserialize_with limit bs = Inr v"
  shows "decode_payload validate deserialize_with bs limit = Inr v \<and> length bs \<le> limit"
  using assms by (auto simp: encode_payload_def decode_payload_def split: if_splits sum.splits)

end
