(* ===== verification/Net_Session.thy ===== *)
theory Net_Session
  imports Net_Types
begin

text \<open>
  The legacy per-peer inbox of \<open>engine/net/src/session.rs\<close>: latest held input, bounded one-shot
  action queue, message budget, and applied acknowledgements.

  The input type's \<open>Default\<close> is the argument \<open>default_input\<close> of \<open>inbox_new\<close> and \<open>inbox_reset\<close>.
  \<open>inbox_step\<close> makes one method call an operation of a machine, so that statements about arbitrary
  call sequences are statements about \<open>inbox_run\<close>.
\<close>

section \<open>State and operations\<close>

datatype InboxError = MessageLimit | ActionLimit

record ('i, 'a) PeerInbox =
  pi_input :: 'i
  pi_received_input :: "u32 option"
  pi_applied_input :: "u32 option"
  pi_received_action :: "u32 option"
  pi_applied_action :: "u32 option"
  pi_input_at :: Duration
  pi_actions :: "(u32 \<times> 'a) list"
  pi_budget :: usize
  pi_epoch :: u32
  pi_action_taken :: bool

definition inbox_new :: "'i \<Rightarrow> u32 \<Rightarrow> ('i, 'a) PeerInbox" where
  "inbox_new default_input epoch =
    \<lparr>pi_input = default_input, pi_received_input = None, pi_applied_input = None,
     pi_received_action = None, pi_applied_action = None, pi_input_at = 0, pi_actions = [],
     pi_budget = 0, pi_epoch = epoch, pi_action_taken = False\<rparr>"

definition inbox_reset :: "'i \<Rightarrow> u32 \<Rightarrow> ('i, 'a) PeerInbox \<Rightarrow> ('i, 'a) PeerInbox" where
  "inbox_reset default_input epoch s = inbox_new default_input epoch"

definition consume_message ::
  "usize \<Rightarrow> ('i, 'a) PeerInbox \<Rightarrow> (InboxError + unit) \<times> ('i, 'a) PeerInbox" where
  "consume_message limit s =
    (if pi_budget s \<ge> limit then (Inl MessageLimit, s)
     else (Inr (), s\<lparr>pi_budget := pi_budget s + 1\<rparr>))"

definition accepts_input :: "u32 \<Rightarrow> u32 \<Rightarrow> ('i, 'a) PeerInbox \<Rightarrow> bool" where
  "accepts_input epoch seq s \<longleftrightarrow> epoch = pi_epoch s \<and> newer seq (pi_received_input s)"

definition receive_input ::
  "u32 \<Rightarrow> u32 \<Rightarrow> 'i \<Rightarrow> Duration \<Rightarrow> ('i, 'a) PeerInbox \<Rightarrow> bool \<times> ('i, 'a) PeerInbox" where
  "receive_input epoch seq input now s =
    (if \<not> accepts_input epoch seq s then (False, s)
     else (True, s\<lparr>pi_input := input, pi_received_input := Some seq, pi_input_at := now\<rparr>))"

definition accepts_action :: "u32 \<Rightarrow> u32 \<Rightarrow> ('i, 'a) PeerInbox \<Rightarrow> bool" where
  "accepts_action epoch seq s \<longleftrightarrow> epoch = pi_epoch s \<and> newer seq (pi_received_action s)"

definition queue_action ::
  "u32 \<Rightarrow> u32 \<Rightarrow> 'a \<Rightarrow> usize \<Rightarrow> ('i, 'a) PeerInbox \<Rightarrow> (InboxError + bool) \<times> ('i, 'a) PeerInbox" where
  "queue_action epoch seq action limit s =
    (if \<not> accepts_action epoch seq s then (Inr False, s)
     else if length (pi_actions s) \<ge> limit then (Inl ActionLimit, s)
     else (Inr True, s\<lparr>pi_received_action := Some seq, pi_actions := pi_actions s @ [(seq, action)]\<rparr>))"

definition begin_tick :: "('i, 'a) PeerInbox \<Rightarrow> ('i, 'a) PeerInbox" where
  "begin_tick s = s\<lparr>pi_budget := 0, pi_action_taken := False\<rparr>"

definition input_is_fresh :: "Duration \<Rightarrow> Duration \<Rightarrow> ('i, 'a) PeerInbox \<Rightarrow> bool" where
  "input_is_fresh now timeout s \<longleftrightarrow> duration_saturating_sub now (pi_input_at s) \<le> timeout"

definition next_action ::
  "('i, 'a) PeerInbox \<Rightarrow> (u32 \<times> 'a) option \<times> ('i, 'a) PeerInbox" where
  "next_action s =
    (if pi_action_taken s then (None, s)
     else case pi_actions s of
       [] \<Rightarrow> (None, s)
     | action # rest \<Rightarrow> (Some action, s\<lparr>pi_actions := rest, pi_action_taken := True\<rparr>))"

definition acknowledge_input :: "('i, 'a) PeerInbox \<Rightarrow> ('i, 'a) PeerInbox" where
  "acknowledge_input s = s\<lparr>pi_applied_input := pi_received_input s\<rparr>"

definition acknowledge_action :: "u32 \<Rightarrow> ('i, 'a) PeerInbox \<Rightarrow> ('i, 'a) PeerInbox" where
  "acknowledge_action seq s =
    (if newer seq (pi_applied_action s) then s\<lparr>pi_applied_action := Some seq\<rparr> else s)"

section \<open>Call sequences\<close>

datatype ('i, 'a) InboxOp =
    ConsumeMessage usize
  | ReceiveInput u32 u32 'i Duration
  | QueueAction u32 u32 'a usize
  | BeginTick
  | NextAction
  | AcknowledgeInput
  | AcknowledgeAction u32
  | ResetInbox 'i u32

datatype 'a InboxOutput = Quiet | Queued "u32 \<times> 'a" | Taken "u32 \<times> 'a"

fun inbox_step :: "('i, 'a) InboxOp \<Rightarrow> ('i, 'a) PeerInbox \<Rightarrow> 'a InboxOutput \<times> ('i, 'a) PeerInbox" where
  "inbox_step (ConsumeMessage limit) s = (Quiet, snd (consume_message limit s))"
| "inbox_step (ReceiveInput epoch seq input now) s = (Quiet, snd (receive_input epoch seq input now s))"
| "inbox_step (QueueAction epoch seq action limit) s =
    (case queue_action epoch seq action limit s of
       (Inr True, t) \<Rightarrow> (Queued (seq, action), t) | (_, t) \<Rightarrow> (Quiet, t))"
| "inbox_step BeginTick s = (Quiet, begin_tick s)"
| "inbox_step NextAction s =
    (case next_action s of (Some a, t) \<Rightarrow> (Taken a, t) | (None, t) \<Rightarrow> (Quiet, t))"
| "inbox_step AcknowledgeInput s = (Quiet, acknowledge_input s)"
| "inbox_step (AcknowledgeAction seq) s = (Quiet, acknowledge_action seq s)"
| "inbox_step (ResetInbox i epoch) s = (Quiet, inbox_reset i epoch s)"

fun inbox_run ::
  "('i, 'a) InboxOp list \<Rightarrow> ('i, 'a) PeerInbox \<Rightarrow> 'a InboxOutput list \<times> ('i, 'a) PeerInbox" where
  "inbox_run [] s = ([], s)"
| "inbox_run (op # ops) s =
    (case inbox_step op s of (out, t) \<Rightarrow>
       (case inbox_run ops t of (outs, u) \<Rightarrow> (out # outs, u)))"

fun queued :: "'a InboxOutput list \<Rightarrow> (u32 \<times> 'a) list" where
  "queued [] = []"
| "queued (Queued a # outs) = a # queued outs"
| "queued (_ # outs) = queued outs"

fun taken :: "'a InboxOutput list \<Rightarrow> (u32 \<times> 'a) list" where
  "taken [] = []"
| "taken (Taken a # outs) = a # taken outs"
| "taken (_ # outs) = taken outs"

fun is_reset :: "('i, 'a) InboxOp \<Rightarrow> bool" where
  "is_reset (ResetInbox _ _) = True"
| "is_reset _ = False"

fun opens_tick :: "('i, 'a) InboxOp \<Rightarrow> bool" where
  "opens_tick BeginTick = True"
| "opens_tick (ResetInbox _ _) = True"
| "opens_tick _ = False"

fun queue_limits_within :: "usize \<Rightarrow> ('i, 'a) InboxOp \<Rightarrow> bool" where
  "queue_limits_within L (QueueAction _ _ _ limit) \<longleftrightarrow> limit \<le> L"
| "queue_limits_within L _ \<longleftrightarrow> True"

text \<open>
  The queue is a chain of successively newer sequence numbers that ends at the last received one.
\<close>

fun newer_chain :: "(u32 \<times> 'a) list \<Rightarrow> bool" where
  "newer_chain (a # b # rest) \<longleftrightarrow> newer (fst b) (Some (fst a)) \<and> newer_chain (b # rest)"
| "newer_chain _ \<longleftrightarrow> True"

definition inbox_ok :: "('i, 'a) PeerInbox \<Rightarrow> bool" where
  "inbox_ok s \<longleftrightarrow> newer_chain (pi_actions s) \<and>
    (pi_actions s \<noteq> [] \<longrightarrow> pi_received_action s = Some (fst (last (pi_actions s)))) \<and>
    (pi_received_input s = None \<longrightarrow> pi_applied_input s = None)"

section \<open>Lemmas\<close>

lemmas inbox_defs = consume_message_def receive_input_def queue_action_def begin_tick_def
  next_action_def acknowledge_input_def acknowledge_action_def inbox_reset_def inbox_new_def

lemma newer_chain_snoc:
  "newer_chain (xs @ [x]) \<longleftrightarrow> newer_chain xs \<and> (xs \<noteq> [] \<longrightarrow> newer (fst x) (Some (fst (last xs))))"
  by (induction xs rule: newer_chain.induct) auto

lemma newer_chain_tl: "newer_chain (x # xs) \<Longrightarrow> newer_chain xs"
  by (cases xs) simp_all

lemma inbox_step_ok: "inbox_ok s \<Longrightarrow> inbox_ok (snd (inbox_step op s))"
  by (cases op)
    (auto simp: inbox_defs inbox_ok_def accepts_action_def accepts_input_def newer_chain_snoc
      split: list.splits bool.splits dest: newer_chain_tl)

lemma inbox_step_fifo:
  assumes "inbox_step op s = (out, t)" "\<not> is_reset op"
  shows "taken [out] @ pi_actions t = pi_actions s @ queued [out]"
  using assms by (cases op) (auto simp: inbox_defs split: list.splits bool.splits if_splits)

lemma inbox_step_taken:
  assumes "inbox_step op s = (out, t)"
  shows "length (taken [out]) + (if pi_action_taken t then 0 else 1)
    \<le> (if pi_action_taken s then 0 else 1) + (if opens_tick op then 1 else 0)"
  using assms by (cases op) (auto simp: inbox_defs split: list.splits bool.splits if_splits)

lemma inbox_step_length:
  assumes "length (pi_actions s) \<le> L" "queue_limits_within L op"
  shows "length (pi_actions (snd (inbox_step op s))) \<le> L"
  using assms by (cases op) (auto simp: inbox_defs split: list.splits bool.splits if_splits)

lemma queued_Cons: "queued (out # outs) = queued [out] @ queued outs"
  and taken_Cons: "taken (out # outs) = taken [out] @ taken outs"
  by (cases out; simp)+

interpretation inbox_machine: guarded_machine "\<lambda>op s. snd (inbox_step op s)" inbox_ok
  by unfold_locales (rule inbox_step_ok)

lemma inbox_run_fold: "snd (inbox_run ops s) = fold (\<lambda>op s. snd (inbox_step op s)) ops s"
  by (induction ops arbitrary: s) (simp_all add: case_prod_beta)

section \<open>Properties\<close>

text \<open>
  C31: Queued actions are delivered exactly once and in order.  Over any sequence of inbox calls
  without a reset, what was handed to the game followed by what is still queued is what was queued
  at the start followed by what was accepted since: nothing is lost, duplicated or reordered.
\<close>

theorem inbox_fifo_exactly_once:
  assumes "\<not> (\<exists>op \<in> set ops. is_reset op)" "inbox_run ops s = (outs, t)"
  shows "taken outs @ pi_actions t = pi_actions s @ queued outs"
  using assms
proof (induction ops arbitrary: s outs)
  case (Cons op ops)
  obtain out u where step: "inbox_step op s = (out, u)"
    by (cases "inbox_step op s")
  obtain rest where rest: "inbox_run ops u = (rest, t)" "outs = out # rest"
    using Cons.prems(2) step by (auto split: prod.splits)
  have "taken rest @ pi_actions t = pi_actions u @ queued rest"
    using Cons.IH Cons.prems(1) rest(1) by simp
  moreover have "taken [out] @ pi_actions u = pi_actions s @ queued [out]"
    using inbox_step_fifo[OF step] Cons.prems(1) by simp
  ultimately show ?case
    by (metis append.assoc queued_Cons rest(2) taken_Cons)
qed simp

theorem inbox_fifo_exactly_once_witness:
  "taken (fst (inbox_run [QueueAction 4 7 CHR ''a'' 4, QueueAction 4 8 CHR ''b'' 4, NextAction,
       NextAction, BeginTick] (inbox_new () 4)))
     @ pi_actions (snd (inbox_run [QueueAction 4 7 CHR ''a'' 4, QueueAction 4 8 CHR ''b'' 4,
       NextAction, NextAction, BeginTick] (inbox_new () 4)))
   = [(7, CHR ''a''), (8, CHR ''b'')]"
proof -
  let ?ops = "[QueueAction 4 7 CHR ''a'' 4, QueueAction 4 8 CHR ''b'' 4, NextAction, NextAction,
    BeginTick]"
  have "queued (fst (inbox_run ?ops (inbox_new () 4))) = [(7, CHR ''a''), (8, CHR ''b'')]"
    by (simp add: inbox_defs accepts_action_def newer_def)
  then show ?thesis
    using inbox_fifo_exactly_once[of ?ops "inbox_new () 4" "fst (inbox_run ?ops (inbox_new () 4))"
        "snd (inbox_run ?ops (inbox_new () 4))"]
    by (simp add: inbox_new_def)
qed

text \<open>
  At most one queued action is consumed per simulation tick: over any sequence of calls the
  number of actions handed out is at most the number of ticks opened (by \<open>begin_tick\<close> or a reset),
  plus one if the current tick's action was still available at the start.
\<close>

theorem inbox_one_action_per_tick:
  "length (taken (fst (inbox_run ops s)))
    \<le> length (filter opens_tick ops) + (if pi_action_taken s then 0 else 1)"
proof -
  have "length (taken (fst (inbox_run ops s)))
      + (if pi_action_taken (snd (inbox_run ops s)) then 0 else 1)
    \<le> length (filter opens_tick ops) + (if pi_action_taken s then 0 else 1)"
  proof (induction ops arbitrary: s)
    case (Cons op ops)
    obtain out t where step: "inbox_step op s = (out, t)"
      by (cases "inbox_step op s")
    have run: "fst (inbox_run (op # ops) s) = out # fst (inbox_run ops t)"
        "snd (inbox_run (op # ops) s) = snd (inbox_run ops t)"
      by (simp_all add: step split: prod.split)
    have "length (filter opens_tick (op # ops)) =
        (if opens_tick op then 1 else 0) + length (filter opens_tick ops)"
      by simp
    then show ?case
      using Cons.IH[of t] inbox_step_taken[OF step]
      unfolding run taken_Cons[of out "fst (inbox_run ops t)"] length_append by linarith
  qed simp
  then show ?thesis
    by simp
qed

text \<open>
  Every inbox reachable from a fresh one keeps its queue as a chain of strictly newer sequence
  numbers ending at the last received one, within the queue limit its callers use, and never
  acknowledges an input it did not receive.
\<close>

lemma inbox_reachable_ok:
  assumes "\<forall>op \<in> set ops. queue_limits_within L op"
  shows "inbox_ok (snd (inbox_run ops (inbox_new i epoch)))
    \<and> length (pi_actions (snd (inbox_run ops (inbox_new i epoch)))) \<le> L"
proof
  show "inbox_ok (snd (inbox_run ops (inbox_new i epoch)))"
    unfolding inbox_run_fold
    by (rule inbox_machine.run_inv) (simp add: inbox_ok_def inbox_new_def)
  have "length (pi_actions s) \<le> L \<Longrightarrow> length (pi_actions (snd (inbox_run ops s))) \<le> L" for s
    using assms by (induction ops arbitrary: s) (simp_all add: inbox_step_length case_prod_beta)
  then show "length (pi_actions (snd (inbox_run ops (inbox_new i epoch)))) \<le> L"
    by (simp add: inbox_new_def)
qed

text \<open>
  A rejected or stale packet changes nothing: an input or action of another epoch, or one that
  is not newer than the last received, and an action refused by a full queue leave the inbox exactly
  as it was, so a refusal can never acknowledge or discard a command.
\<close>

lemma inbox_rejection_is_silent:
  "(epoch \<noteq> pi_epoch s \<or> \<not> newer seq (pi_received_input s) \<longleftrightarrow> \<not> fst (receive_input epoch seq i now s))
   \<and> (fst (receive_input epoch seq i now s) \<or> snd (receive_input epoch seq i now s) = s)
   \<and> (fst (queue_action epoch seq a limit s) = Inr True
        \<longleftrightarrow> epoch = pi_epoch s \<and> newer seq (pi_received_action s) \<and> length (pi_actions s) < limit)
   \<and> (fst (queue_action epoch seq a limit s) = Inr True \<or> snd (queue_action epoch seq a limit s) = s)"
  by (auto simp: receive_input_def queue_action_def accepts_input_def accepts_action_def)

end
