(* ===== verification/Net_Commands.thy ===== *)
theory Net_Commands
  imports Net_Codec
begin

text \<open>
  Target-tick command admission and finalisation: \<open>engine/net/src/commands.rs\<close> and
  \<open>engine/net/src/commands/continuity.rs\<close>.

  The game's \<open>CommandRules\<close> implementation is a record of functions passed to the operations.
  \<open>bincode\<close>'s sequence of writer calls for a command is the argument \<open>writes\<close> (None when the
  serialiser fails) and \<open>blake3\<close> is the hash of the bytes written; the length cap of
  \<open>FingerprintWriter\<close> is modelled.
\<close>

section \<open>Data\<close>

record OwnerStream =
  os_connection :: ConnectionId
  os_epoch :: ConnectionEpoch
  os_stream :: CommandStream
  os_owner :: EntityId
  os_ownership :: OwnershipEpoch

record 'a ActionEdge =
  ae_slot :: u8
  ae_action :: 'a

record ('i, 'a) Command =
  cmd_owner :: OwnerStream
  cmd_sequence :: CommandSeq
  cmd_target :: TargetTick
  cmd_input :: 'i
  cmd_actions :: "'a ActionEdge list"

definition action_key :: "('i, 'a) Command \<Rightarrow> u8 \<Rightarrow> ActionKey" where
  "action_key c slot =
    ActionKey (os_epoch (cmd_owner c)) (os_stream (cmd_owner c)) (cmd_sequence c) slot"

record ('i, 'a) CommandRules =
  cr_owns_at :: "OwnerStream \<Rightarrow> TargetTick \<Rightarrow> bool"
  cr_valid_input :: "'i \<Rightarrow> bool"
  cr_valid_action :: "'a \<Rightarrow> bool"
  cr_held_input :: "'i \<Rightarrow> 'i"
  cr_neutral_input :: 'i

record CommandLimits =
  cl_future_ticks :: u8
  cl_held_grace_ticks :: u8
  cl_audit_records :: usize
  cl_sequence_ahead :: u64
  cl_max_command_bytes :: usize
  cl_submissions_per_tick :: usize

definition default_command_limits :: CommandLimits where
  "default_command_limits =
    \<lparr>cl_future_ticks = 12, cl_held_grace_ticks = 3, cl_audit_records = 256,
     cl_sequence_ahead = 256, cl_max_command_bytes = 2048, cl_submissions_per_tick = 64\<rparr>"

datatype CommandError =
    InvalidConfiguration | WrongOwnerStream | OwnershipDenied | InvalidIdentity | InvalidInput
  | InvalidAction | DuplicateActionSlot | OversizedOrInvalidEncoding | Equivocation
  | SequenceWindow | AuditFull | RateLimit | TickInProgress | TickExhausted | NothingPrepared
  | WrongCommitTick | InvalidSubstitute | InvalidBundleLimit | NewestDoesNotFit

datatype Admission =
    Accepted (arrival_slack: u64) | Duplicate | Late | Future | TargetOccupied | RetiredSequence

datatype FinalizedStatus = Executed | Substituted

record FinalizedReceipt =
  fr_tick :: ServerTick
  fr_sequence :: "CommandSeq option"
  fr_status :: FinalizedStatus

record ('i, 'a) PreparedInput =
  pr_tick :: ServerTick
  pr_sequence :: "CommandSeq option"
  pr_input :: 'i
  pr_actions :: "'a ActionEdge list"
  pr_missing_streak :: u32

record AuditRecord =
  ar_fingerprint :: bytes
  ar_admission :: Admission
  ar_pending :: bool

record 'i InputContinuity =
  ic_last_input :: "'i option"
  ic_missing_streak :: u32

record ('i, 'a) CommandInbox =
  ci_owner :: OwnerStream
  ci_limits :: CommandLimits
  ci_finalized :: ServerTick
  ci_pending :: "(TargetTick, ('i, 'a) Command) bt"
  ci_audit :: "(CommandSeq, AuditRecord) bt"
  ci_audit_order :: "CommandSeq list"
  ci_retired_sequence :: "CommandSeq option"
  ci_highest_received :: "CommandSeq option"
  ci_sequence_window_floor :: CommandSeq
  ci_receipts :: "FinalizedReceipt list"
  ci_prepared :: "('i, 'a) PreparedInput option"
  ci_continuity :: "'i InputContinuity"
  ci_submissions :: usize

section \<open>Input continuity\<close>

definition continuity_default :: "'i InputContinuity" where
  "continuity_default = \<lparr>ic_last_input = None, ic_missing_streak = 0\<rparr>"

definition continuity_map :: "('i \<Rightarrow> 't) \<Rightarrow> 'i InputContinuity \<Rightarrow> 't InputContinuity" where
  "continuity_map f c =
    \<lparr>ic_last_input = map_option f (ic_last_input c), ic_missing_streak = ic_missing_streak c\<rparr>"

definition commit_input :: "'i \<Rightarrow> 'i InputContinuity \<Rightarrow> 'i InputContinuity" where
  "commit_input input c = c\<lparr>ic_last_input := Some input, ic_missing_streak := 0\<rparr>"

definition substitute :: "u8 \<Rightarrow> ('i \<Rightarrow> 'i) \<Rightarrow> 'i \<Rightarrow> 'i InputContinuity \<Rightarrow> 'i \<times> u32" where
  "substitute grace_ticks held neutral c =
    (let missing_streak = saturating_add (ic_missing_streak c) 1;
         input = (if missing_streak \<le> ucast grace_ticks
                  then (case ic_last_input c of None \<Rightarrow> neutral | Some l \<Rightarrow> held l)
                  else neutral)
     in (input, missing_streak))"

section \<open>Fingerprints\<close>

record FingerprintWriter =
  fw_hashed :: bytes
  fw_length :: usize
  fw_limit :: usize

definition fw_write :: "bytes \<Rightarrow> FingerprintWriter \<Rightarrow> FingerprintWriter option" where
  "fw_write bs w =
    (if length bs > fw_limit w - fw_length w then None
     else Some (w\<lparr>fw_hashed := fw_hashed w @ bs, fw_length := fw_length w + length bs\<rparr>))"

fun fw_write_all :: "bytes list \<Rightarrow> FingerprintWriter \<Rightarrow> FingerprintWriter option" where
  "fw_write_all [] w = Some w"
| "fw_write_all (bs # rest) w =
    (case fw_write bs w of None \<Rightarrow> None | Some w' \<Rightarrow> fw_write_all rest w')"

definition fingerprint ::
  "(bytes \<Rightarrow> bytes) \<Rightarrow> ('c \<Rightarrow> bytes list option) \<Rightarrow> 'c \<Rightarrow> usize \<Rightarrow> CommandError + (bytes \<times> usize)" where
  "fingerprint blake3 writes val limit =
    (case writes val of None \<Rightarrow> Inl OversizedOrInvalidEncoding
     | Some chunks \<Rightarrow>
       (case fw_write_all chunks \<lparr>fw_hashed = [], fw_length = 0, fw_limit = limit\<rparr> of
          None \<Rightarrow> Inl OversizedOrInvalidEncoding
        | Some w \<Rightarrow> Inr (blake3 (fw_hashed w), fw_length w)))"

section \<open>The command inbox\<close>

definition command_inbox_new ::
  "OwnerStream \<Rightarrow> ServerTick \<Rightarrow> CommandLimits \<Rightarrow> CommandError + ('i, 'a) CommandInbox" where
  "command_inbox_new owner initialized_at limits =
    (if cl_future_ticks limits = 0
        \<or> cl_future_ticks limits > 12
        \<or> cl_held_grace_ticks limits > 3
        \<or> cl_audit_records limits < unat (cl_future_ticks limits)
        \<or> cl_sequence_ahead limits < ucast (cl_future_ticks limits)
        \<or> cl_max_command_bytes limits = 0
        \<or> cl_submissions_per_tick limits = 0
     then Inl InvalidConfiguration
     else if os_epoch owner = 0 \<or> os_stream owner = 0 \<or> eid_generation (os_owner owner) = 0
        \<or> os_ownership owner = 0
     then Inl InvalidIdentity
     else Inr \<lparr>ci_owner = owner, ci_limits = limits, ci_finalized = initialized_at,
       ci_pending = [], ci_audit = [], ci_audit_order = [], ci_retired_sequence = None,
       ci_highest_received = None, ci_sequence_window_floor = 0, ci_receipts = [],
       ci_prepared = None, ci_continuity = continuity_default, ci_submissions = 0\<rparr>)"

fun check_actions :: "('a \<Rightarrow> bool) \<Rightarrow> 'a ActionEdge list \<Rightarrow> u8 list \<Rightarrow> CommandError + unit" where
  "check_actions valid [] slots = Inr ()"
| "check_actions valid (edge # edges) slots =
    (if ae_slot edge \<ge> 8 \<or> \<not> valid (ae_action edge) then Inl InvalidAction
     else if ae_slot edge \<in> set slots then Inl DuplicateActionSlot
     else check_actions valid edges (bs_insert (ae_slot edge) slots))"

fun evict_position :: "(CommandSeq, AuditRecord) bt \<Rightarrow> CommandSeq list \<Rightarrow> CommandError failure + nat" where
  "evict_position audit [] = Inl (Err AuditFull)"
| "evict_position audit (seq # rest) =
    (case map_of audit seq of
       None \<Rightarrow> Inl (Panic ''no audit entry for ordered sequence'')
     | Some r \<Rightarrow>
         (if \<not> ar_pending r then Inr 0
          else case evict_position audit rest of Inl e \<Rightarrow> Inl e | Inr i \<Rightarrow> Inr (Suc i)))"

definition option_max :: "'k::linorder option \<Rightarrow> 'k \<Rightarrow> 'k" where
  "option_max old k = (case old of None \<Rightarrow> k | Some v \<Rightarrow> max v k)"

definition reserve_audit ::
  "CommandSeq \<Rightarrow> ('i, 'a) CommandInbox \<Rightarrow> (CommandError failure + unit) \<times> ('i, 'a) CommandInbox" where
  "reserve_audit seq s =
    (if bt_contains seq (ci_audit s) then (Inr (), s)
     else if length (ci_audit s) = cl_audit_records (ci_limits s) then
       (case evict_position (ci_audit s) (ci_audit_order s) of
          Inl e \<Rightarrow> (Inl e, s)
        | Inr i \<Rightarrow>
            (let evicted = ci_audit_order s ! i in
             (Inr (), s\<lparr>ci_audit_order := (take i (ci_audit_order s) @ drop (Suc i) (ci_audit_order s)) @ [seq],
                ci_audit := bt_remove evicted (ci_audit s),
                ci_retired_sequence := Some (option_max (ci_retired_sequence s) evicted)\<rparr>)))
     else (Inr (), s\<lparr>ci_audit_order := ci_audit_order s @ [seq]\<rparr>))"

definition classify :: "TargetTick \<Rightarrow> ('i, 'a) CommandInbox \<Rightarrow> Admission" where
  "classify target s =
    (let cutoff = (case ci_prepared s of None \<Rightarrow> ci_finalized s | Some p \<Rightarrow> pr_tick p) in
     if target \<le> cutoff then Late
     else if target > saturating_add (ci_finalized s) (ucast (cl_future_ticks (ci_limits s))) then Future
     else if bt_contains target (ci_pending s) then TargetOccupied
     else Accepted (target - ci_finalized s))"

fun is_accepted :: "Admission \<Rightarrow> bool" where
  "is_accepted (Accepted _) = True"
| "is_accepted _ = False"

definition record_admission ::
  "('i, 'a) Command \<Rightarrow> bytes \<Rightarrow> Admission \<Rightarrow> ('i, 'a) CommandInbox \<Rightarrow> ('i, 'a) CommandInbox" where
  "record_admission command fp admission s =
    (let s1 = s\<lparr>ci_audit := bt_insert (cmd_sequence command)
                 \<lparr>ar_fingerprint = fp, ar_admission = admission, ar_pending = is_accepted admission\<rparr>
                 (ci_audit s)\<rparr> in
     if is_accepted admission then
       s1\<lparr>ci_highest_received := Some (option_max (ci_highest_received s) (cmd_sequence command)),
          ci_pending := bt_insert (cmd_target command) command (ci_pending s)\<rparr>
     else s1)"

definition place_command ::
  "('i, 'a) Command \<Rightarrow> bytes \<Rightarrow> ('i, 'a) CommandInbox \<Rightarrow>
   (CommandError failure + Admission) \<times> ('i, 'a) CommandInbox" where
  "place_command command fp s =
    (let admission = classify (cmd_target command) s in
     case reserve_audit (cmd_sequence command) s of
       (Inl e, t) \<Rightarrow> (Inl e, t)
     | (Inr _, t) \<Rightarrow> (Inr admission, record_admission command fp admission t))"

definition admit ::
  "(bytes \<Rightarrow> bytes) \<Rightarrow> (('i, 'a) Command \<Rightarrow> bytes list option) \<Rightarrow>
   ConnectionId \<Rightarrow> ('i, 'a) Command \<Rightarrow> ('i, 'a) CommandRules \<Rightarrow> ('i, 'a) CommandInbox \<Rightarrow>
   (CommandError failure + Admission) \<times> ('i, 'a) CommandInbox" where
  "admit blake3 writes authenticated_connection command rules s0 =
    (if authenticated_connection \<noteq> os_connection (ci_owner s0) \<or> cmd_owner command \<noteq> ci_owner s0
     then (Inl (Err WrongOwnerStream), s0)
     else if ci_submissions s0 \<ge> cl_submissions_per_tick (ci_limits s0) then (Inl (Err RateLimit), s0)
     else let s = s0\<lparr>ci_submissions := ci_submissions s0 + 1\<rparr> in
     if \<not> cr_owns_at rules (cmd_owner command) (cmd_target command) then (Inl (Err OwnershipDenied), s)
     else if cmd_sequence command = 0 \<or> cmd_target command = 0 then (Inl (Err InvalidIdentity), s)
     else if \<not> cr_valid_input rules (cmd_input command) then (Inl (Err InvalidInput), s)
     else case check_actions (cr_valid_action rules) (cmd_actions command) [] of
       Inl e \<Rightarrow> (Inl (Err e), s)
     | Inr _ \<Rightarrow>
       (case fingerprint blake3 writes command (cl_max_command_bytes (ci_limits s)) of
          Inl e \<Rightarrow> (Inl (Err e), s)
        | Inr (fp, _) \<Rightarrow>
          (case map_of (ci_audit s) (cmd_sequence command) of
             Some previous \<Rightarrow>
               (if ar_fingerprint previous \<noteq> fp then (Inl (Err Equivocation), s)
                else case ar_admission previous of
                  Accepted _ \<Rightarrow> (Inr Duplicate, s)
                | Late \<Rightarrow> (Inr Late, s)
                | TargetOccupied \<Rightarrow> (Inr TargetOccupied, s)
                | _ \<Rightarrow> place_command command fp s)
           | None \<Rightarrow>
               (if (case ci_retired_sequence s of None \<Rightarrow> False | Some floor \<Rightarrow> cmd_sequence command \<le> floor)
                then (Inr RetiredSequence, s)
                else if cmd_sequence command
                  > saturating_add (ci_sequence_window_floor s) (cl_sequence_ahead (ci_limits s))
                then (Inl (Err SequenceWindow), s)
                else place_command command fp s))))"

definition prepare_next ::
  "('i, 'a) CommandRules \<Rightarrow> ('i, 'a) CommandInbox \<Rightarrow>
   (CommandError + ('i, 'a) PreparedInput) \<times> ('i, 'a) CommandInbox" where
  "prepare_next rules s =
    (if ci_prepared s \<noteq> None then (Inl TickInProgress, s)
     else case checked_next (ci_finalized s) of
       None \<Rightarrow> (Inl TickExhausted, s)
     | Some tick \<Rightarrow>
       (if \<not> cr_owns_at rules (ci_owner s) tick then (Inl OwnershipDenied, s)
        else case map_of (ci_pending s) tick of
          Some command \<Rightarrow>
            (let p = \<lparr>pr_tick = tick, pr_sequence = Some (cmd_sequence command),
                      pr_input = cmd_input command, pr_actions = cmd_actions command,
                      pr_missing_streak = 0\<rparr>
             in (Inr p, s\<lparr>ci_prepared := Some p\<rparr>))
        | None \<Rightarrow>
            (case substitute (cl_held_grace_ticks (ci_limits s)) (cr_held_input rules)
                    (cr_neutral_input rules) (ci_continuity s) of
               (input, missing_streak) \<Rightarrow>
                 (if \<not> cr_valid_input rules input then (Inl InvalidSubstitute, s)
                  else let p = \<lparr>pr_tick = tick, pr_sequence = None, pr_input = input,
                                pr_actions = [], pr_missing_streak = missing_streak\<rparr>
                       in (Inr p, s\<lparr>ci_prepared := Some p\<rparr>)))))"

definition consume_prepared ::
  "('i, 'a) PreparedInput \<Rightarrow> CommandSeq \<Rightarrow> ('i, 'a) CommandInbox \<Rightarrow> ('i, 'a) CommandInbox" where
  "consume_prepared p seq s =
    s\<lparr>ci_continuity := commit_input (pr_input p) (ci_continuity s),
      ci_sequence_window_floor := max (ci_sequence_window_floor s) seq,
      ci_pending := bt_remove (pr_tick p) (ci_pending s),
      ci_audit := bt_update seq (\<lambda>r. r\<lparr>ar_pending := False\<rparr>) (ci_audit s)\<rparr>"

definition push_receipt :: "FinalizedReceipt \<Rightarrow> ('i, 'a) CommandInbox \<Rightarrow> ('i, 'a) CommandInbox" where
  "push_receipt receipt s =
    s\<lparr>ci_receipts :=
        (if length (ci_receipts s) = cl_audit_records (ci_limits s) then tl (ci_receipts s)
         else ci_receipts s) @ [receipt]\<rparr>"

definition commit ::
  "ServerTick \<Rightarrow> ('i, 'a) CommandInbox \<Rightarrow>
   (CommandError failure + FinalizedReceipt) \<times> ('i, 'a) CommandInbox" where
  "commit tick s0 =
    (case ci_prepared s0 of
       None \<Rightarrow> (Inl (Err NothingPrepared), s0)
     | Some p \<Rightarrow>
       (if pr_tick p \<noteq> tick then (Inl (Err WrongCommitTick), s0)
        else
          let s1 = s0\<lparr>ci_prepared := None,
                 ci_sequence_window_floor := saturating_add (ci_sequence_window_floor s0) 1\<rparr> in
          if (case pr_sequence p of None \<Rightarrow> False | Some seq \<Rightarrow> \<not> bt_contains seq (ci_audit s1))
          then (Inl (Panic ''pending audit retained''), s1)
          else
            let s2 = (case pr_sequence p of None \<Rightarrow> s1 | Some seq \<Rightarrow> consume_prepared p seq s1);
                s3 = s2\<lparr>ci_continuity := (ci_continuity s2)\<lparr>ic_missing_streak := pr_missing_streak p\<rparr>,
                       ci_finalized := tick, ci_submissions := 0\<rparr>;
                receipt = \<lparr>fr_tick = tick, fr_sequence = pr_sequence p,
                  fr_status = (if pr_sequence p \<noteq> None then Executed else Substituted)\<rparr>
            in (Inr receipt, push_receipt receipt s3)))"

section \<open>Accessors\<close>

definition prepared_tick :: "('i, 'a) CommandInbox \<Rightarrow> ServerTick option" where
  "prepared_tick s = map_option pr_tick (ci_prepared s)"

definition retained_admission :: "CommandSeq \<Rightarrow> ('i, 'a) CommandInbox \<Rightarrow> Admission option" where
  "retained_admission seq s = map_option ar_admission (map_of (ci_audit s) seq)"

definition receipt_at :: "ServerTick \<Rightarrow> ('i, 'a) CommandInbox \<Rightarrow> FinalizedReceipt option" where
  "receipt_at tick s = find (\<lambda>r. fr_tick r = tick) (ci_receipts s)"

definition is_substitute :: "('i, 'a) PreparedInput \<Rightarrow> bool" where
  "is_substitute p \<longleftrightarrow> pr_sequence p = None"

section \<open>Redundant bundles\<close>

fun pack_older ::
  "(('i, 'a) Command \<Rightarrow> usize \<Rightarrow> CommandError + (bytes \<times> usize)) \<Rightarrow> ('i, 'a) Command \<Rightarrow>
   ('i, 'a) Command list \<Rightarrow> nat \<Rightarrow> usize \<Rightarrow> (CommandStream \<times> CommandSeq) list \<Rightarrow>
   ('i, 'a) Command list \<Rightarrow> ('i, 'a) Command list" where
  "pack_older fp newest [] max_records remaining seen result = result"
| "pack_older fp newest (command # older) max_records remaining seen result =
    (if length result = max_records then result
     else if cmd_owner command \<noteq> cmd_owner newest
     then pack_older fp newest older max_records remaining seen result
     else if (os_stream (cmd_owner command), cmd_sequence command) \<in> set seen
     then pack_older fp newest older max_records remaining seen result
     else let seen' = bs_insert (os_stream (cmd_owner command), cmd_sequence command) seen in
       case fp command remaining of
         Inl _ \<Rightarrow> pack_older fp newest older max_records remaining seen' result
       | Inr (_, n) \<Rightarrow>
           pack_older fp newest older max_records (remaining - n) seen' (result @ [command]))"

definition pack_redundant ::
  "(bytes \<Rightarrow> bytes) \<Rightarrow> (('i, 'a) Command \<Rightarrow> bytes list option) \<Rightarrow>
   ('i, 'a) Command \<Rightarrow> ('i, 'a) Command list \<Rightarrow> nat \<Rightarrow> usize \<Rightarrow> CommandError + ('i, 'a) Command list" where
  "pack_redundant blake3 writes newest older max_records payload_budget =
    (if \<not> (1 \<le> max_records \<and> max_records \<le> 8) then Inl InvalidBundleLimit
     else case fingerprint blake3 writes newest payload_budget of
       Inl _ \<Rightarrow> Inl NewestDoesNotFit
     | Inr (_, newest_bytes) \<Rightarrow>
       (case usize_checked_sub payload_budget 8 of
          None \<Rightarrow> Inl NewestDoesNotFit
        | Some n \<Rightarrow>
          (case usize_checked_sub n newest_bytes of
             None \<Rightarrow> Inl NewestDoesNotFit
           | Some remaining \<Rightarrow>
               Inr (pack_older (fingerprint blake3 writes) newest older max_records remaining
                 [(os_stream (cmd_owner newest), cmd_sequence newest)] [newest]))))"

end
