(* ===== verification/Net_Command_Facts.thy ===== *)
theory Net_Command_Facts
  imports Net_Commands
begin

text \<open>
  Correctness of the command inbox: the invariant that ties pending commands, audit records, the
  prepared selection and the receipts together, its preservation by every operation, and the
  end-to-end guarantees over arbitrary call sequences.
\<close>

section \<open>Invariant\<close>

definition limits_ok :: "CommandLimits \<Rightarrow> bool" where
  "limits_ok l \<longleftrightarrow> 0 < cl_future_ticks l \<and> cl_future_ticks l \<le> 12 \<and> cl_held_grace_ticks l \<le> 3
    \<and> unat (cl_future_ticks l) \<le> cl_audit_records l"

definition audit_ok :: "('i, 'a) CommandInbox \<Rightarrow> bool" where
  "audit_ok s \<longleftrightarrow> bt_ok (ci_audit s) \<and> distinct (ci_audit_order s)
    \<and> set (ci_audit_order s) = fst ` set (ci_audit s)
    \<and> length (ci_audit s) \<le> cl_audit_records (ci_limits s)
    \<and> (\<forall>q r. map_of (ci_audit s) q = Some r \<and> ar_pending r \<longrightarrow> is_accepted (ar_admission r)
        \<and> (\<exists>t c. map_of (ci_pending s) t = Some c \<and> cmd_sequence c = q))"

definition pending_ok :: "('i, 'a) CommandInbox \<Rightarrow> bool" where
  "pending_ok s \<longleftrightarrow> bt_ok (ci_pending s)
    \<and> (\<forall>t c. map_of (ci_pending s) t = Some c \<longrightarrow> cmd_target c = t \<and> cmd_owner c = ci_owner s
        \<and> ci_finalized s < t
        \<and> t \<le> saturating_add (ci_finalized s) (ucast (cl_future_ticks (ci_limits s)))
        \<and> (\<exists>r. map_of (ci_audit s) (cmd_sequence c) = Some r \<and> ar_pending r))
    \<and> (\<forall>t c t' c'. map_of (ci_pending s) t = Some c \<and> map_of (ci_pending s) t' = Some c'
        \<and> cmd_sequence c = cmd_sequence c' \<longrightarrow> t = t')"

definition prepared_ok :: "('i, 'a) CommandInbox \<Rightarrow> bool" where
  "prepared_ok s \<longleftrightarrow> (\<forall>p. ci_prepared s = Some p \<longrightarrow>
      checked_next (ci_finalized s) = Some (pr_tick p)
    \<and> (case map_of (ci_pending s) (pr_tick p) of
         None \<Rightarrow> pr_sequence p = None \<and> pr_actions p = []
       | Some c \<Rightarrow> pr_sequence p = Some (cmd_sequence c) \<and> pr_input p = cmd_input c
           \<and> pr_actions p = cmd_actions c))"

definition receipts_ok :: "('i, 'a) CommandInbox \<Rightarrow> bool" where
  "receipts_ok s \<longleftrightarrow> length (ci_receipts s) \<le> cl_audit_records (ci_limits s)
    \<and> length (ci_receipts s) \<le> unat (ci_finalized s)
    \<and> map (\<lambda>r. unat (fr_tick r)) (ci_receipts s) =
        [unat (ci_finalized s) + 1 - length (ci_receipts s) ..< unat (ci_finalized s) + 1]"

definition command_inbox_ok :: "('i, 'a) CommandInbox \<Rightarrow> bool" where
  "command_inbox_ok s \<longleftrightarrow>
    limits_ok (ci_limits s) \<and> audit_ok s \<and> pending_ok s \<and> prepared_ok s \<and> receipts_ok s"

text \<open>A sequence number is spent once it was accepted, whether or not its audit record survives.\<close>

definition seq_spent :: "CommandSeq \<Rightarrow> ('i, 'a) CommandInbox \<Rightarrow> bool" where
  "seq_spent q s \<longleftrightarrow>
    (case map_of (ci_audit s) q of
       Some r \<Rightarrow> is_accepted (ar_admission r)
     | None \<Rightarrow> (case ci_retired_sequence s of None \<Rightarrow> False | Some floor \<Rightarrow> q \<le> floor))"

lemma audit_pendingD:
  assumes "audit_ok s" "map_of (ci_audit s) q = Some r" "ar_pending r"
  shows "is_accepted (ar_admission r)" "\<exists>t c. map_of (ci_pending s) t = Some c \<and> cmd_sequence c = q"
  using assms unfolding audit_ok_def by blast+

lemma pendingD:
  assumes "pending_ok s" "map_of (ci_pending s) t = Some c"
  shows "cmd_target c = t" "cmd_owner c = ci_owner s" "ci_finalized s < t"
    "t \<le> saturating_add (ci_finalized s) (ucast (cl_future_ticks (ci_limits s)))"
    "\<exists>r. map_of (ci_audit s) (cmd_sequence c) = Some r \<and> ar_pending r"
    "map_of (ci_pending s) t' = Some c' \<Longrightarrow> cmd_sequence c' = cmd_sequence c \<Longrightarrow> t' = t"
  using assms unfolding pending_ok_def by blast+

section \<open>Preservation: admission\<close>

lemma command_inbox_new_ok: "command_inbox_new owner t limits = Inr s \<Longrightarrow> command_inbox_ok s"
  by (auto simp: command_inbox_new_def command_inbox_ok_def limits_ok_def audit_ok_def pending_ok_def
      prepared_ok_def receipts_ok_def word_neq_0_conv not_less split: if_splits)

lemma command_inbox_ok_submissions [simp]:
  "command_inbox_ok (s\<lparr>ci_submissions := n\<rparr>) = command_inbox_ok s"
  by (simp add: command_inbox_ok_def audit_ok_def pending_ok_def prepared_ok_def receipts_ok_def)

lemma evict_position_Inr:
  "evict_position audit order = Inr i \<Longrightarrow>
    i < length order \<and> (\<exists>r. map_of audit (order ! i) = Some r \<and> \<not> ar_pending r)"
  by (induction audit order arbitrary: i rule: evict_position.induct)
    (auto split: option.splits if_splits sum.splits)

lemma evict_position_no_panic:
  "set order \<subseteq> fst ` set audit \<Longrightarrow> evict_position audit order \<noteq> Inl (Panic m)"
proof (induction audit order rule: evict_position.induct)
  case (2 audit seq rest)
  then obtain r where "map_of audit seq = Some r"
    by (metis list.set_intros(1) map_of_eq_None_iff not_Some_eq subsetD)
  with 2 show ?case
    by (auto split: sum.split)
qed simp

lemma evict_position_Inl:
  "evict_position audit order = Inl (Err e) \<Longrightarrow>
    e = AuditFull \<and> (\<forall>q \<in> set order. \<exists>r. map_of audit q = Some r \<and> ar_pending r)"
  by (induction audit order rule: evict_position.induct)
    (auto split: option.splits if_splits sum.splits)

lemma option_max_ge: "v \<le> option_max (Some v) k" "k \<le> option_max old k"
  by (auto simp: option_max_def split: option.splits)

lemma nth_removed:
  assumes "distinct xs" "i < length xs"
  shows "set (take i xs @ drop (Suc i) xs) = set xs - {xs ! i}" "distinct (take i xs @ drop (Suc i) xs)"
proof -
  have xs: "xs = take i xs @ xs ! i # drop (Suc i) xs"
    using assms(2) by (simp add: Cons_nth_drop_Suc)
  have "distinct (take i xs @ xs ! i # drop (Suc i) xs)"
    using assms(1) xs by simp
  then show "distinct (take i xs @ drop (Suc i) xs)"
    by simp
  from xs have "set xs = insert (xs ! i) (set (take i xs @ drop (Suc i) xs))"
    by (metis Un_insert_right list.simps(15) set_append)
  moreover have "xs ! i \<notin> set (take i xs @ drop (Suc i) xs)"
    using \<open>distinct (take i xs @ xs ! i # drop (Suc i) xs)\<close> by simp
  ultimately show "set (take i xs @ drop (Suc i) xs) = set xs - {xs ! i}"
    by blast
qed

definition reserved :: "CommandSeq \<Rightarrow> ('i, 'a) CommandInbox \<Rightarrow> ('i, 'a) CommandInbox \<Rightarrow> bool" where
  "reserved q s t \<longleftrightarrow>
    t = s\<lparr>ci_audit := ci_audit t, ci_audit_order := ci_audit_order t,
          ci_retired_sequence := ci_retired_sequence t\<rparr>
    \<and> bt_ok (ci_audit t) \<and> distinct (ci_audit_order t)
    \<and> set (ci_audit_order t) = insert q (fst ` set (ci_audit t))
    \<and> length (ci_audit t) + (if map_of (ci_audit t) q = None then 1 else 0)
        \<le> cl_audit_records (ci_limits s)
    \<and> map_of (ci_audit t) q = map_of (ci_audit s) q
    \<and> (\<forall>f. ci_retired_sequence s = Some f \<longrightarrow> (\<exists>g. ci_retired_sequence t = Some g \<and> f \<le> g))
    \<and> (\<forall>x. map_of (ci_audit t) x = map_of (ci_audit s) x \<or>
        (map_of (ci_audit t) x = None \<and> (\<exists>r. map_of (ci_audit s) x = Some r \<and> \<not> ar_pending r)
         \<and> (\<exists>g. ci_retired_sequence t = Some g \<and> x \<le> g)))"

lemma reserve_audit_reserved:
  assumes ok: "audit_ok s" and res: "reserve_audit q s = (Inr u, t)"
  shows "reserved q s t"
proof (cases "bt_contains q (ci_audit s)")
  case True
  then have "t = s" "q \<in> fst ` set (ci_audit s)" "map_of (ci_audit s) q \<noteq> None"
    using res by (auto simp: reserve_audit_def bt_contains_def map_of_eq_None_iff)
  then show ?thesis
    using ok by (auto simp: reserved_def audit_ok_def)
next
  case absent: False
  then have none: "map_of (ci_audit s) q = None" and new: "q \<notin> set (ci_audit_order s)"
    using ok by (auto simp: bt_contains_def audit_ok_def map_of_eq_None_iff)
  show ?thesis
  proof (cases "length (ci_audit s) = cl_audit_records (ci_limits s)")
    case False
    then have "t = s\<lparr>ci_audit_order := ci_audit_order s @ [q]\<rparr>"
      using res absent by (simp add: reserve_audit_def)
    then show ?thesis
      using ok none new False by (auto simp: reserved_def audit_ok_def)
  next
    case full: True
    then obtain i where i: "evict_position (ci_audit s) (ci_audit_order s) = Inr i"
      using res absent by (auto simp: reserve_audit_def split: sum.splits)
    define x where "x = ci_audit_order s ! i"
    obtain r where r: "map_of (ci_audit s) x = Some r" "\<not> ar_pending r" and len: "i < length (ci_audit_order s)"
      using evict_position_Inr[OF i] by (auto simp: x_def)
    have ok': "bt_ok (ci_audit s)" "distinct (ci_audit_order s)" "set (ci_audit_order s) = fst ` set (ci_audit s)"
      using ok by (auto simp: audit_ok_def)
    have t: "t = s\<lparr>ci_audit_order := (take i (ci_audit_order s) @ drop (Suc i) (ci_audit_order s)) @ [q],
        ci_audit := bt_remove x (ci_audit s),
        ci_retired_sequence := Some (option_max (ci_retired_sequence s) x)\<rparr>"
      using res absent full i by (simp add: reserve_audit_def Let_def x_def)
    have qx: "q \<noteq> x"
      using r none by auto
    have "length (bt_remove x (ci_audit s)) < length (ci_audit s)"
      using r(1) unfolding bt_remove_def
      by (intro length_filter_less[of "(x, r)"]) (auto dest: map_of_SomeD)
    moreover have "fst ` set (bt_remove x (ci_audit s)) = fst ` set (ci_audit s) - {x}"
      by force
    ultimately show ?thesis
      using nth_removed[OF ok'(2) len] ok' full none new qx r option_max_ge
      unfolding reserved_def t x_def[symmetric]
      by (auto simp: x_def[symmetric])
  qed
qed

lemma reserve_audit_Inl: "reserve_audit q s = (Inl e, t) \<Longrightarrow> t = s"
  by (auto simp: reserve_audit_def Let_def split: if_splits sum.splits)

lemma reservedD:
  assumes "reserved q s t"
  shows "ci_pending t = ci_pending s" "ci_limits t = ci_limits s" "ci_finalized t = ci_finalized s"
    "ci_prepared t = ci_prepared s" "ci_owner t = ci_owner s" "ci_receipts t = ci_receipts s"
    "ci_continuity t = ci_continuity s"
proof -
  obtain A O' R where "t = s\<lparr>ci_audit := A, ci_audit_order := O', ci_retired_sequence := R\<rparr>"
    using assms unfolding reserved_def by blast
  then show "ci_pending t = ci_pending s" "ci_limits t = ci_limits s"
    "ci_finalized t = ci_finalized s" "ci_prepared t = ci_prepared s" "ci_owner t = ci_owner s"
    "ci_receipts t = ci_receipts s" "ci_continuity t = ci_continuity s"
    by simp_all
qed

lemma reserved_shape:
  assumes "reserved q s t"
  shows "bt_ok (ci_audit t)" "distinct (ci_audit_order t)"
    "set (ci_audit_order t) = insert q (fst ` set (ci_audit t))"
    "length (bt_insert q v (ci_audit t)) \<le> cl_audit_records (ci_limits s)"
proof -
  show bt: "bt_ok (ci_audit t)" and "distinct (ci_audit_order t)"
    "set (ci_audit_order t) = insert q (fst ` set (ci_audit t))"
    using assms unfolding reserved_def by blast+
  have "length (ci_audit t) + (if map_of (ci_audit t) q = None then 1 else 0)
      \<le> cl_audit_records (ci_limits s)"
    using assms unfolding reserved_def by blast
  then show "length (bt_insert q v (ci_audit t)) \<le> cl_audit_records (ci_limits s)"
    using bt by (auto simp: length_bt_insert split: if_splits)
qed

lemma classify_accepted:
  assumes "prepared_ok s" "classify target s = Accepted k"
  shows "ci_finalized s < target"
    "target \<le> saturating_add (ci_finalized s) (ucast (cl_future_ticks (ci_limits s)))"
    "map_of (ci_pending s) target = None"
    "ci_prepared s = Some p \<Longrightarrow> pr_tick p < target" "k = target - ci_finalized s"
proof -
  have cut: "\<not> target \<le> (case ci_prepared s of None \<Rightarrow> ci_finalized s | Some p \<Rightarrow> pr_tick p)"
    using assms(2) by (auto simp: classify_def Let_def split: if_splits)
  show "ci_finalized s < target"
  proof (cases "ci_prepared s")
    case (Some p)
    then have "ci_finalized s < pr_tick p"
      using assms(1) by (auto simp: prepared_ok_def dest: checked_next_less)
    with cut Some show ?thesis
      by simp
  qed (use cut in simp)
  show "target \<le> saturating_add (ci_finalized s) (ucast (cl_future_ticks (ci_limits s)))"
    "map_of (ci_pending s) target = None" "k = target - ci_finalized s"
    using assms(2) by (auto simp: classify_def Let_def bt_contains_def split: if_splits)
  show "pr_tick p < target" if "ci_prepared s = Some p"
    using cut that by simp
qed

definition fresh_for :: "('i, 'a) Command \<Rightarrow> ('i, 'a) CommandInbox \<Rightarrow> bool" where
  "fresh_for c s \<longleftrightarrow> cmd_owner c = ci_owner s
    \<and> (\<forall>r. map_of (ci_audit s) (cmd_sequence c) = Some r \<longrightarrow> \<not> is_accepted (ar_admission r))"

lemma fresh_not_pending:
  assumes "audit_ok s" "pending_ok s" "fresh_for c s" "map_of (ci_pending s) t = Some c'"
  shows "cmd_sequence c' \<noteq> cmd_sequence c"
proof -
  obtain r where "map_of (ci_audit s) (cmd_sequence c') = Some r" "ar_pending r"
    using assms(2,4) unfolding pending_ok_def by blast
  then show ?thesis
    using assms(1,3) unfolding audit_ok_def fresh_for_def by metis
qed

lemma reserved_pending_kept:
  assumes "reserved q s t" "map_of (ci_audit s) x = Some r" "ar_pending r"
  shows "map_of (ci_audit t) x = Some r"
  using assms unfolding reserved_def by (metis option.sel)

lemma reserved_pending_from:
  assumes "reserved q s t" "map_of (ci_audit t) x = Some r"
  shows "map_of (ci_audit s) x = Some r"
  using assms unfolding reserved_def by (metis option.distinct(1))

lemma record_other_ok:
  assumes ok: "command_inbox_ok s" and fresh: "fresh_for c s"
    and res: "reserved (cmd_sequence c) s t" and adm: "\<not> is_accepted adm"
  shows "command_inbox_ok (record_admission c fp adm t)"
proof -
  define u where "u = record_admission c fp adm t"
  have parts: "audit_ok s" "pending_ok s" "prepared_ok s" "receipts_ok s" "limits_ok (ci_limits s)"
    using ok by (auto simp: command_inbox_ok_def)
  have bt: "bt_ok (ci_audit t)"
    by (rule reserved_shape(1)[OF res])
  have u: "ci_audit u = bt_insert (cmd_sequence c)
      \<lparr>ar_fingerprint = fp, ar_admission = adm, ar_pending = False\<rparr> (ci_audit t)"
    "ci_pending u = ci_pending s" "ci_audit_order u = ci_audit_order t"
    "ci_limits u = ci_limits s" "ci_finalized u = ci_finalized s" "ci_prepared u = ci_prepared s"
    "ci_owner u = ci_owner s" "ci_receipts u = ci_receipts s"
    using adm by (simp_all add: u_def record_admission_def Let_def reservedD[OF res])
  have "audit_ok u"
    unfolding audit_ok_def
  proof (intro conjI allI impI)
    show "bt_ok (ci_audit u)" "distinct (ci_audit_order u)"
      "set (ci_audit_order u) = fst ` set (ci_audit u)"
      "length (ci_audit u) \<le> cl_audit_records (ci_limits u)"
      using reserved_shape[OF res] by (simp_all add: u)
    fix q r
    assume "map_of (ci_audit u) q = Some r \<and> ar_pending r"
    then have "map_of (ci_audit s) q = Some r" "ar_pending r"
      using bt reserved_pending_from[OF res] by (auto simp: u split: if_splits)
    from audit_pendingD[OF parts(1) this]
    show "is_accepted (ar_admission r)" "\<exists>t c. map_of (ci_pending u) t = Some c \<and> cmd_sequence c = q"
      by (simp_all add: u)
  qed
  moreover have "pending_ok u"
  proof -
    have "\<exists>r. map_of (ci_audit u) (cmd_sequence c') = Some r \<and> ar_pending r"
      if c': "map_of (ci_pending s) t' = Some c'" for t' c'
      using pendingD(5)[OF parts(2) c'] fresh_not_pending[OF parts(1,2) fresh c']
        reserved_pending_kept[OF res] bt
      by (auto simp: u)
    with parts(2) show ?thesis
      unfolding pending_ok_def u(2-8) by blast
  qed
  moreover have "prepared_ok u" "receipts_ok u" "limits_ok (ci_limits u)"
    using parts by (simp_all add: u prepared_ok_def receipts_ok_def)
  ultimately show ?thesis
    by (simp add: command_inbox_ok_def u_def)
qed

lemma record_accepted_ok:
  assumes ok: "command_inbox_ok s" and fresh: "fresh_for c s"
    and res: "reserved (cmd_sequence c) s t" and adm: "classify (cmd_target c) s = Accepted k"
  shows "command_inbox_ok (record_admission c fp (Accepted k) t)"
proof -
  define u where "u = record_admission c fp (Accepted k) t"
  have parts: "audit_ok s" "pending_ok s" "prepared_ok s" "receipts_ok s" "limits_ok (ci_limits s)"
    using ok by (auto simp: command_inbox_ok_def)
  note same = reservedD[OF res]
  have u: "ci_audit u = bt_insert (cmd_sequence c)
      \<lparr>ar_fingerprint = fp, ar_admission = Accepted k, ar_pending = True\<rparr> (ci_audit t)"
    "ci_pending u = bt_insert (cmd_target c) c (ci_pending s)" "ci_audit_order u = ci_audit_order t"
    "ci_limits u = ci_limits s" "ci_finalized u = ci_finalized s" "ci_prepared u = ci_prepared s"
    "ci_owner u = ci_owner s" "ci_receipts u = ci_receipts s"
    by (simp_all add: u_def record_admission_def Let_def same)
  have bt: "bt_ok (ci_audit t)" "bt_ok (ci_pending s)"
    using reserved_shape(1)[OF res] parts(2) by (simp_all add: pending_ok_def)
  note acc = classify_accepted[OF parts(3) adm]
  have "audit_ok u"
    unfolding audit_ok_def
  proof (intro conjI allI impI)
    show "bt_ok (ci_audit u)" "distinct (ci_audit_order u)"
      "set (ci_audit_order u) = fst ` set (ci_audit u)"
      "length (ci_audit u) \<le> cl_audit_records (ci_limits u)"
      using reserved_shape[OF res] by (simp_all add: u same)
    fix q r
    assume "map_of (ci_audit u) q = Some r \<and> ar_pending r"
    then consider "q = cmd_sequence c" "is_accepted (ar_admission r)"
      | "map_of (ci_audit s) q = Some r" "ar_pending r"
      using bt reserved_pending_from[OF res] by (auto simp: u split: if_splits)
    then have "is_accepted (ar_admission r) \<and>
        (\<exists>t c. map_of (ci_pending u) t = Some c \<and> cmd_sequence c = q)"
    proof cases
      case 1
      then show ?thesis
        using bt by (auto simp: u)
    next
      case 2
      from audit_pendingD[OF parts(1) this] acc(3) show ?thesis
        using bt by (simp add: u) (metis option.distinct(1))
    qed
    then show "is_accepted (ar_admission r)"
      "\<exists>t c. map_of (ci_pending u) t = Some c \<and> cmd_sequence c = q"
      by blast+
  qed
  moreover have "pending_ok u"
  proof -
    have "\<exists>r. map_of (ci_audit u) (cmd_sequence c') = Some r \<and> ar_pending r"
      if c': "map_of (ci_pending s) t' = Some c'" for t' c'
      using pendingD(5)[OF parts(2) c'] fresh_not_pending[OF parts(1,2) fresh c']
        reserved_pending_kept[OF res] bt
      by (auto simp: u)
    moreover have "\<exists>r. map_of (ci_audit u) (cmd_sequence c) = Some r \<and> ar_pending r"
      using bt by (simp add: u)
    moreover note fresh_not_pending[OF parts(1,2) fresh]
    ultimately show ?thesis
      using parts(2) bt acc(1,2) fresh
      unfolding pending_ok_def u(2,4,5,7)
      by (simp add: fresh_for_def) (metis option.inject)
  qed
  moreover have "prepared_ok u" "receipts_ok u" "limits_ok (ci_limits u)"
    using parts acc(4) bt by (auto simp: u prepared_ok_def receipts_ok_def)
  ultimately show ?thesis
    by (simp add: command_inbox_ok_def u_def)
qed

lemma place_command_ok:
  assumes ok: "command_inbox_ok s" and fresh: "fresh_for c s"
  shows "command_inbox_ok (snd (place_command c fp s))"
proof (cases "reserve_audit (cmd_sequence c) s")
  case (Pair res t)
  show ?thesis
  proof (cases res)
    case (Inl e)
    then show ?thesis
      using ok Pair reserve_audit_Inl by (fastforce simp: place_command_def)
  next
    case (Inr u)
    have reserved: "reserved (cmd_sequence c) s t"
      using ok Pair Inr by (auto simp: command_inbox_ok_def intro: reserve_audit_reserved)
    show ?thesis
    proof (cases "is_accepted (classify (cmd_target c) s)")
      case True
      then obtain k where k: "classify (cmd_target c) s = Accepted k"
        by (cases "classify (cmd_target c) s") simp_all
      show ?thesis
        using Pair Inr k record_accepted_ok[OF ok fresh reserved k, of fp]
        by (simp add: place_command_def Let_def)
    next
      case False
      then show ?thesis
        using Pair Inr record_other_ok[OF ok fresh reserved False, of fp]
        by (simp add: place_command_def Let_def)
    qed
  qed
qed

text \<open>
  \<open>admit\<close> either leaves everything but the submission count alone, or places the command.
\<close>

lemma admit_cases:
  assumes "admit blake3 writes conn c rules s = (res, t)"
  obtains (unchanged) n where "t = s\<lparr>ci_submissions := n\<rparr>" "\<And>k. res \<noteq> Inr (Accepted k)" "\<not> is_panic res"
  | (placed) fp n where "fresh_for c s"
      "place_command c fp (s\<lparr>ci_submissions := n\<rparr>) = (res, t)" "\<not> seq_spent (cmd_sequence c) s"
      "cmd_sequence c \<noteq> 0" "conn = os_connection (ci_owner s)"
      "cr_owns_at rules (cmd_owner c) (cmd_target c)" "cr_valid_input rules (cmd_input c)"
proof -
  let ?s = "s\<lparr>ci_submissions := ci_submissions s + 1\<rparr>"
  have self: "s = s\<lparr>ci_submissions := ci_submissions s\<rparr>"
    by simp
  show thesis
  proof (cases "\<exists>fp. fresh_for c s \<and> place_command c fp ?s = (res, t)
      \<and> \<not> seq_spent (cmd_sequence c) s \<and> cmd_sequence c \<noteq> 0 \<and> conn = os_connection (ci_owner s)
      \<and> cr_owns_at rules (cmd_owner c) (cmd_target c) \<and> cr_valid_input rules (cmd_input c)")
    case True
    then show thesis
      using placed by blast
  next
    case False
    then have "(t = s \<or> t = ?s) \<and> (\<forall>k. res \<noteq> Inr (Accepted k)) \<and> \<not> is_panic res"
      using assms
      by (auto simp: admit_def Let_def fresh_for_def seq_spent_def
          split: if_splits sum.splits option.splits prod.splits Admission.splits)
    then show thesis
      using unchanged self by metis
  qed
qed

lemma fresh_for_submissions [simp]: "fresh_for c (s\<lparr>ci_submissions := n\<rparr>) = fresh_for c s"
  by (simp add: fresh_for_def)

lemma seq_spent_submissions [simp]: "seq_spent q (s\<lparr>ci_submissions := n\<rparr>) = seq_spent q s"
  by (simp add: seq_spent_def split: option.split)

lemma admit_ok:
  assumes ok: "command_inbox_ok s"
  shows "command_inbox_ok (snd (admit blake3 writes conn c rules s))"
proof (cases "admit blake3 writes conn c rules s")
  case (Pair res t)
  then show ?thesis
  proof (cases rule: admit_cases)
    case unchanged
    with ok Pair show ?thesis
      by simp
  next
    case (placed fp n)
    with ok Pair show ?thesis
      using place_command_ok[of "s\<lparr>ci_submissions := n\<rparr>" c fp] by simp
  qed
qed

section \<open>Preservation: preparation and commit\<close>

lemma ok_prepared_update [simp]:
  "audit_ok (s\<lparr>ci_prepared := x\<rparr>) = audit_ok s"
  "pending_ok (s\<lparr>ci_prepared := x\<rparr>) = pending_ok s"
  "receipts_ok (s\<lparr>ci_prepared := x\<rparr>) = receipts_ok s"
  by (simp_all add: audit_ok_def pending_ok_def receipts_ok_def)

definition selected :: "('i, 'a) CommandRules \<Rightarrow> ('i, 'a) CommandInbox \<Rightarrow> ('i, 'a) PreparedInput \<Rightarrow> bool" where
  "selected rules s p \<longleftrightarrow> checked_next (ci_finalized s) = Some (pr_tick p)
    \<and> cr_owns_at rules (ci_owner s) (pr_tick p)
    \<and> (case map_of (ci_pending s) (pr_tick p) of
         Some c \<Rightarrow> pr_sequence p = Some (cmd_sequence c) \<and> pr_input p = cmd_input c
           \<and> pr_actions p = cmd_actions c \<and> pr_missing_streak p = 0
       | None \<Rightarrow> pr_sequence p = None \<and> pr_actions p = [] \<and> cr_valid_input rules (pr_input p)
           \<and> (pr_input p, pr_missing_streak p) = substitute (cl_held_grace_ticks (ci_limits s))
                (cr_held_input rules) (cr_neutral_input rules) (ci_continuity s))"

lemma prepare_next_cases:
  assumes "prepare_next rules s = (res, t)"
  obtains (failed) e where "res = Inl e" "t = s"
  | (prepared) p where "res = Inr p" "ci_prepared s = None" "t = s\<lparr>ci_prepared := Some p\<rparr>"
      "selected rules s p"
proof (cases res)
  case (Inl e)
  then have "t = s"
    using assms by (auto simp: prepare_next_def Let_def split: if_splits option.splits prod.splits)
  with Inl show thesis
    by (rule failed)
next
  case (Inr p)
  then have "ci_prepared s = None \<and> t = s\<lparr>ci_prepared := Some p\<rparr> \<and> selected rules s p"
    using assms by (auto simp: prepare_next_def Let_def selected_def split: if_splits option.splits prod.splits)
  with Inr show thesis
    using prepared by blast
qed

lemma prepare_next_ok:
  assumes "command_inbox_ok s"
  shows "command_inbox_ok (snd (prepare_next rules s))"
proof (cases "prepare_next rules s")
  case (Pair res t)
  then show ?thesis
  proof (cases rule: prepare_next_cases)
    case failed
    with Pair assms show ?thesis
      by simp
  next
    case (prepared p)
    then have "prepared_ok (s\<lparr>ci_prepared := Some p\<rparr>)"
      by (auto simp: prepared_ok_def selected_def split: option.splits)
    with prepared Pair assms show ?thesis
      by (simp add: command_inbox_ok_def)
  qed
qed

end
