(* ===== verification/Net_Command_Runs.thy ===== *)
theory Net_Command_Runs
  imports Net_Command_Facts
begin

text \<open>
  Commit of a prepared tick, call sequences of the command inbox, and its end-to-end properties:
  at-most-once admission and execution, contiguous finalisation, immutable selection, absence of
  panics, and bundle packing.
\<close>

section \<open>Preservation: commit\<close>

definition committed ::
  "('i, 'a) PreparedInput \<Rightarrow> ('i, 'a) CommandInbox \<Rightarrow> ('i, 'a) CommandInbox \<Rightarrow> bool" where
  "committed p s t \<longleftrightarrow>
    ci_prepared t = None \<and> ci_finalized t = pr_tick p \<and> ci_owner t = ci_owner s
    \<and> ci_limits t = ci_limits s \<and> ci_audit_order t = ci_audit_order s
    \<and> ci_retired_sequence t = ci_retired_sequence s
    \<and> ci_pending t = (if pr_sequence p = None then ci_pending s else bt_remove (pr_tick p) (ci_pending s))
    \<and> ci_audit t = (case pr_sequence p of None \<Rightarrow> ci_audit s
        | Some q \<Rightarrow> bt_update q (\<lambda>r. r\<lparr>ar_pending := False\<rparr>) (ci_audit s))
    \<and> ci_receipts t = (if length (ci_receipts s) = cl_audit_records (ci_limits s) then tl (ci_receipts s)
        else ci_receipts s) @ [\<lparr>fr_tick = pr_tick p, fr_sequence = pr_sequence p,
          fr_status = (if pr_sequence p \<noteq> None then Executed else Substituted)\<rparr>]
    \<and> ci_continuity t = (case pr_sequence p of
          None \<Rightarrow> (ci_continuity s)\<lparr>ic_missing_streak := pr_missing_streak p\<rparr>
        | Some _ \<Rightarrow> \<lparr>ic_last_input = Some (pr_input p), ic_missing_streak = pr_missing_streak p\<rparr>)
    \<and> ci_submissions t = 0"

lemma prepared_source:
  assumes "prepared_ok s" "ci_prepared s = Some p"
  shows "checked_next (ci_finalized s) = Some (pr_tick p)"
    "pr_sequence p = Some q \<Longrightarrow> \<exists>c. map_of (ci_pending s) (pr_tick p) = Some c \<and> cmd_sequence c = q"
    "pr_sequence p = None \<Longrightarrow> map_of (ci_pending s) (pr_tick p) = None"
  using assms by (auto simp: prepared_ok_def split: option.splits)

lemma commit_cases:
  assumes "commit tick s = (res, t)" "command_inbox_ok s"
  obtains (failed) e where "res = Inl (Err e)" "t = s"
  | (finalized) p where "ci_prepared s = Some p" "pr_tick p = tick" "committed p s t"
      "res = Inr \<lparr>fr_tick = tick, fr_sequence = pr_sequence p,
         fr_status = (if pr_sequence p \<noteq> None then Executed else Substituted)\<rparr>"
proof (cases "ci_prepared s")
  case None
  then show thesis
    using assms(1) failed by (auto simp: commit_def)
next
  case (Some p)
  show thesis
  proof (cases "pr_tick p = tick")
    case False
    then show thesis
      using assms(1) Some failed by (auto simp: commit_def)
  next
    case True
    have "bt_contains q (ci_audit s)" if "pr_sequence p = Some q" for q
    proof -
      have "prepared_ok s" "pending_ok s"
        using assms(2) by (simp_all add: command_inbox_ok_def)
      then show ?thesis
        using prepared_source(2)[OF _ Some that] pendingD(5)[of s] by (fastforce simp: bt_contains_def)
    qed
    then show thesis
      using assms(1) Some True
      by (intro finalized[of p])
        (auto simp: commit_def Let_def committed_def push_receipt_def consume_prepared_def
          commit_input_def split: option.splits)
  qed
qed

lemma saturating_add_mono:
  fixes a b c :: "'a::len word"
  shows "a \<le> b \<Longrightarrow> saturating_add a c \<le> saturating_add b c"
  by (simp add: word_le_nat_alt unat_saturating_add min_def)

lemma committed_pending_ok:
  assumes ok: "command_inbox_ok s" and p: "ci_prepared s = Some p" and t: "committed p s t"
  shows "pending_ok t"
proof -
  have parts: "audit_ok s" "pending_ok s" "prepared_ok s"
    using ok by (simp_all add: command_inbox_ok_def)
  have tick: "checked_next (ci_finalized s) = Some (pr_tick p)"
    using parts(3) p by (simp add: prepared_ok_def)
  have lookup: "map_of (ci_pending t) x = (if x = pr_tick p then None else map_of (ci_pending s) x)" for x
    using prepared_source(3)[OF parts(3) p] t by (simp add: committed_def)
  have eqs: "ci_finalized t = pr_tick p" "ci_owner t = ci_owner s" "ci_limits t = ci_limits s"
    using t by (simp_all add: committed_def)
  have "pr_tick p < x \<and> x \<le> saturating_add (pr_tick p) (ucast (cl_future_ticks (ci_limits s)))"
    if "map_of (ci_pending s) x = Some c" "x \<noteq> pr_tick p" for x c
    using pendingD(3,4)[OF parts(2) that(1)] that(2) tick checked_next_less[OF tick]
      saturating_add_mono[of "ci_finalized s" "pr_tick p"]
    by (meson checked_next_le_iff dual_order.trans less_imp_le not_less order_le_imp_less_or_eq)
  moreover have "\<exists>r. map_of (ci_audit t) (cmd_sequence c) = Some r \<and> ar_pending r"
    if c: "map_of (ci_pending s) x = Some c" and x: "x \<noteq> pr_tick p" for x c
  proof (cases "pr_sequence p")
    case None
    then show ?thesis
      using pendingD(5)[OF parts(2) c] t by (simp add: committed_def)
  next
    case (Some q)
    then obtain c' where c': "map_of (ci_pending s) (pr_tick p) = Some c'" "cmd_sequence c' = q"
      using prepared_source(2)[OF parts(3) p] by blast
    then have "cmd_sequence c \<noteq> q"
      using pendingD(6)[OF parts(2) c'(1) c] x by metis
    then show ?thesis
      using pendingD(5)[OF parts(2) c] t Some by (simp add: committed_def)
  qed
  moreover have "bt_ok (ci_pending t)"
    using parts(2) t by (simp add: committed_def pending_ok_def)
  ultimately show ?thesis
    using pendingD(1,2,6)[OF parts(2)] unfolding pending_ok_def lookup eqs
    by (simp split: if_splits) blast
qed

lemma committed_audit_ok:
  assumes ok: "command_inbox_ok s" and p: "ci_prepared s = Some p" and t: "committed p s t"
  shows "audit_ok t"
proof -
  have parts: "audit_ok s" "pending_ok s" "prepared_ok s"
    using ok by (simp_all add: command_inbox_ok_def)
  show ?thesis
  proof (cases "pr_sequence p")
    case None
    then have "ci_audit t = ci_audit s" "ci_audit_order t = ci_audit_order s"
        "ci_limits t = ci_limits s" "ci_pending t = ci_pending s"
      using t by (simp_all add: committed_def)
    then show ?thesis
      using parts(1) unfolding audit_ok_def by metis
  next
    case (Some q)
    then obtain c where c: "map_of (ci_pending s) (pr_tick p) = Some c" "cmd_sequence c = q"
      using prepared_source(2)[OF parts(3) p] by blast
    have eqs: "ci_audit t = bt_update q (\<lambda>r. r\<lparr>ar_pending := False\<rparr>) (ci_audit s)"
      "ci_pending t = bt_remove (pr_tick p) (ci_pending s)" "ci_limits t = ci_limits s"
      "ci_audit_order t = ci_audit_order s"
      using t Some by (simp_all add: committed_def)
    have keys: "fst ` set (ci_audit t) = fst ` set (ci_audit s)"
      unfolding eqs bt_update_def bt_map_def by force
    have "is_accepted (ar_admission r) \<and> (\<exists>x c. map_of (ci_pending t) x = Some c \<and> cmd_sequence c = y)"
      if "map_of (ci_audit t) y = Some r" "ar_pending r" for y r
    proof -
      have y: "y \<noteq> q" "map_of (ci_audit s) y = Some r"
        using that by (auto simp: eqs split: if_splits)
      from audit_pendingD[OF parts(1) y(2) that(2)] y(1) c show ?thesis
        unfolding eqs map_of_bt_remove by (metis fun_upd_other option.inject)
    qed
    then show ?thesis
      using parts(1) keys by (auto simp: audit_ok_def eqs)
  qed
qed

lemma tl_upt: "tl [a..<b] = [Suc a..<b]"
  by (cases "a < b") (simp_all add: upt_rec)

lemma window_push:
  fixes f :: "'x \<Rightarrow> nat"
  assumes "map f rs = [n + 1 - length rs ..< n + 1]" "length rs \<le> n" "length rs \<le> L" "0 < L" "f x = n + 1"
  defines "rs' \<equiv> (if length rs = L then tl rs else rs) @ [x]"
  shows "map f rs' = [n + 2 - length rs' ..< n + 2]" "length rs' \<le> L" "length rs' \<le> n + 1"
proof -
  show "length rs' \<le> L" "length rs' \<le> n + 1"
    using assms(2-4) by (auto simp: rs'_def)
  have snoc: "[a..<n + 2] = [a..<n + 1] @ [n + 1]" if "a \<le> n + 1" for a
    using that by simp
  have drop_first: "map f (tl rs) = [n + 2 - length rs ..< n + 1]"
    using assms(1,2) by (simp add: map_tl tl_upt Suc_diff_le del: upt_Suc)
  show "map f rs' = [n + 2 - length rs' ..< n + 2]"
    using assms(1-5) drop_first snoc[of "n + 2 - length rs'"]
    by (auto simp: rs'_def Suc_diff_le simp del: upt_Suc)
qed

lemma committed_receipts_ok:
  assumes ok: "command_inbox_ok s" and p: "ci_prepared s = Some p" and t: "committed p s t"
  shows "receipts_ok t"
proof -
  have parts: "receipts_ok s" "prepared_ok s" "limits_ok (ci_limits s)"
    using ok by (simp_all add: command_inbox_ok_def)
  have succ: "unat (pr_tick p) = unat (ci_finalized s) + 1"
    using prepared_source(1)[OF parts(2) p] by (simp add: checked_next_Some)
  have pos: "0 < cl_audit_records (ci_limits s)"
    using parts(3) by (auto simp: limits_ok_def word_less_nat_alt)
  define r where "r = \<lparr>fr_tick = pr_tick p, fr_sequence = pr_sequence p,
    fr_status = (if pr_sequence p \<noteq> None then Executed else Substituted)\<rparr>"
  have r: "fr_tick r = pr_tick p"
      "ci_receipts t = (if length (ci_receipts s) = cl_audit_records (ci_limits s)
        then tl (ci_receipts s) else ci_receipts s) @ [r]"
    using t by (simp_all add: committed_def r_def)
  have "unat (fr_tick r) = unat (ci_finalized s) + 1"
    using r succ by simp
  from window_push[where f = "\<lambda>r. unat (fr_tick r)", OF _ _ _ pos this, of "ci_receipts s"]
  show ?thesis
    using parts(1) t succ unfolding receipts_ok_def committed_def r(2)
    by (simp del: upt_Suc)
qed

lemma commit_ok:
  assumes ok: "command_inbox_ok s"
  shows "command_inbox_ok (snd (commit tick s))"
proof (cases "commit tick s")
  case (Pair res t)
  from this ok show ?thesis
  proof (cases rule: commit_cases)
    case failed
    with Pair ok show ?thesis
      by simp
  next
    case (finalized p)
    have "limits_ok (ci_limits t)" "prepared_ok t"
      using finalized ok by (auto simp: committed_def command_inbox_ok_def prepared_ok_def)
    then show ?thesis
      using finalized Pair committed_pending_ok[OF ok] committed_audit_ok[OF ok]
        committed_receipts_ok[OF ok]
      by (simp add: command_inbox_ok_def)
  qed
qed

section \<open>Call sequences\<close>

datatype ('i, 'a) CommandOp =
    Admit ConnectionId "('i, 'a) Command" "('i, 'a) CommandRules"
  | Prepare "('i, 'a) CommandRules"
  | Commit ServerTick

datatype CommandEvent =
    AcceptedEv CommandSeq
  | FinalizedEv FinalizedReceipt
  | PanicEv
  | QuietEv

fun command_step ::
  "(bytes \<Rightarrow> bytes) \<Rightarrow> (('i, 'a) Command \<Rightarrow> bytes list option) \<Rightarrow> ('i, 'a) CommandOp \<Rightarrow>
   ('i, 'a) CommandInbox \<Rightarrow> CommandEvent \<times> ('i, 'a) CommandInbox" where
  "command_step blake3 writes (Admit conn c rules) s =
    (case admit blake3 writes conn c rules s of (res, t) \<Rightarrow>
      (case res of
         Inr (Accepted _) \<Rightarrow> (AcceptedEv (cmd_sequence c), t)
       | Inl (Panic _) \<Rightarrow> (PanicEv, t)
       | _ \<Rightarrow> (QuietEv, t)))"
| "command_step blake3 writes (Prepare rules) s = (QuietEv, snd (prepare_next rules s))"
| "command_step blake3 writes (Commit tick) s =
    (case commit tick s of (res, t) \<Rightarrow>
      (case res of
         Inr receipt \<Rightarrow> (FinalizedEv receipt, t)
       | Inl (Panic _) \<Rightarrow> (PanicEv, t)
       | _ \<Rightarrow> (QuietEv, t)))"

fun command_run ::
  "(bytes \<Rightarrow> bytes) \<Rightarrow> (('i, 'a) Command \<Rightarrow> bytes list option) \<Rightarrow> ('i, 'a) CommandOp list \<Rightarrow>
   ('i, 'a) CommandInbox \<Rightarrow> CommandEvent list \<times> ('i, 'a) CommandInbox" where
  "command_run blake3 writes [] s = ([], s)"
| "command_run blake3 writes (op # ops) s =
    (case command_step blake3 writes op s of (ev, t) \<Rightarrow>
      (case command_run blake3 writes ops t of (evs, u) \<Rightarrow> (ev # evs, u)))"

fun accepted_of :: "CommandEvent list \<Rightarrow> CommandSeq list" where
  "accepted_of [] = []"
| "accepted_of (AcceptedEv q # evs) = q # accepted_of evs"
| "accepted_of (_ # evs) = accepted_of evs"

fun finalized_of :: "CommandEvent list \<Rightarrow> FinalizedReceipt list" where
  "finalized_of [] = []"
| "finalized_of (FinalizedEv r # evs) = r # finalized_of evs"
| "finalized_of (_ # evs) = finalized_of evs"

definition executed_of :: "CommandEvent list \<Rightarrow> CommandSeq list" where
  "executed_of evs = List.map_filter fr_sequence (finalized_of evs)"

definition pending_sequences :: "('i, 'a) CommandInbox \<Rightarrow> CommandSeq set" where
  "pending_sequences s = {cmd_sequence c | t c. map_of (ci_pending s) t = Some c}"

lemma command_step_snd:
  "snd (command_step blake3 writes (Admit conn c rules) s) = snd (admit blake3 writes conn c rules s)"
  "snd (command_step blake3 writes (Commit tick) s) = snd (commit tick s)"
  by (simp_all split: prod.split sum.split Admission.split failure.split)

lemma command_step_ok: "command_inbox_ok s \<Longrightarrow> command_inbox_ok (snd (command_step blake3 writes op s))"
  by (cases op) (simp_all add: command_step_snd admit_ok prepare_next_ok commit_ok del: command_step.simps(1,3))

interpretation command_machine: guarded_machine "\<lambda>op s. snd (command_step blake3 writes op s)" command_inbox_ok
  by unfold_locales (rule command_step_ok)

lemma pending_spent:
  assumes "command_inbox_ok s" "q \<in> pending_sequences s"
  shows "seq_spent q s"
proof -
  have ok: "audit_ok s" "pending_ok s"
    using assms(1) by (simp_all add: command_inbox_ok_def)
  obtain t c where "map_of (ci_pending s) t = Some c" "cmd_sequence c = q"
    using assms(2) by (auto simp: pending_sequences_def)
  then obtain r where "map_of (ci_audit s) q = Some r" "ar_pending r"
    using pendingD(5)[OF ok(2)] by blast
  then show ?thesis
    using audit_pendingD(1)[OF ok(1)] by (simp add: seq_spent_def)
qed

text \<open>What one call does to the spent and pending sequence numbers.\<close>

definition step_effect ::
  "CommandEvent \<Rightarrow> ('i, 'a) CommandInbox \<Rightarrow> ('i, 'a) CommandInbox \<Rightarrow> bool" where
  "step_effect ev s t \<longleftrightarrow>
    (\<forall>q. seq_spent q s \<longrightarrow> seq_spent q t) \<and>
    (case ev of
       AcceptedEv q \<Rightarrow> \<not> seq_spent q s \<and> seq_spent q t \<and> ci_finalized t = ci_finalized s
         \<and> pending_sequences t = insert q (pending_sequences s)
     | FinalizedEv r \<Rightarrow> unat (fr_tick r) = unat (ci_finalized s) + 1 \<and> ci_finalized t = fr_tick r
         \<and> (case fr_sequence r of
              None \<Rightarrow> pending_sequences t = pending_sequences s
            | Some q \<Rightarrow> q \<in> pending_sequences s \<and> pending_sequences t = pending_sequences s - {q})
     | PanicEv \<Rightarrow> False
     | QuietEv \<Rightarrow> ci_finalized t = ci_finalized s \<and> pending_sequences t = pending_sequences s)"

lemma reserved_spent:
  assumes res: "reserved q s t" and sp: "seq_spent x s" and x: "x \<noteq> q"
  shows "seq_spent x t"
proof (cases "map_of (ci_audit t) x = map_of (ci_audit s) x")
  case True
  then show ?thesis
    using sp res unfolding seq_spent_def reserved_def
    by (auto split: option.splits)
next
  case False
  then have "map_of (ci_audit t) x = None \<and> (\<exists>g. ci_retired_sequence t = Some g \<and> x \<le> g)"
    using res unfolding reserved_def by blast
  then show ?thesis
    by (auto simp: seq_spent_def)
qed

lemma record_admission_spent:
  assumes "bt_ok (ci_audit t)"
  shows "x \<noteq> cmd_sequence c \<Longrightarrow> seq_spent x (record_admission c fp adm t) = seq_spent x t"
    and "seq_spent (cmd_sequence c) (record_admission c fp adm t) = is_accepted adm"
  using assms by (simp_all add: seq_spent_def record_admission_def Let_def split: option.split)

lemma insert_pending_sequences:
  assumes "bt_ok (ci_pending s)" "map_of (ci_pending s) (cmd_target c) = None"
    "ci_pending t = bt_insert (cmd_target c) c (ci_pending s)"
  shows "pending_sequences t = insert (cmd_sequence c) (pending_sequences s)"
  using assms by (auto simp: pending_sequences_def) (metis option.distinct(1))+

lemma seq_spent_cong:
  assumes "ci_audit t = ci_audit s" "ci_retired_sequence t = ci_retired_sequence s"
  shows "seq_spent q t = seq_spent q s"
  unfolding seq_spent_def assms by (rule refl)

lemma step_effect_same:
  assumes "ci_audit t = ci_audit s" "ci_retired_sequence t = ci_retired_sequence s"
    "ci_pending t = ci_pending s" "ci_finalized t = ci_finalized s"
  shows "step_effect QuietEv s t"
  using assms by (simp add: step_effect_def seq_spent_cong[OF assms(1,2)] pending_sequences_def)

lemma place_command_effect:
  assumes ok: "command_inbox_ok s" and fresh: "fresh_for c s" and unspent: "\<not> seq_spent (cmd_sequence c) s"
    and place: "place_command c fp s = (res, t)"
  shows "\<not> is_panic res \<and>
    step_effect (case res of Inr (Accepted _) \<Rightarrow> AcceptedEv (cmd_sequence c) | _ \<Rightarrow> QuietEv) s t"
proof (cases "reserve_audit (cmd_sequence c) s")
  case (Pair r u)
  have parts: "audit_ok s" "pending_ok s" "prepared_ok s"
    using ok by (simp_all add: command_inbox_ok_def)
  show ?thesis
  proof (cases r)
    case (Inl e)
    then have "res = Inl e" "t = s"
      using place Pair reserve_audit_Inl[of "cmd_sequence c" s e u] by (simp_all add: place_command_def Let_def)
    moreover have "e \<noteq> Panic m" for m
      using Pair Inl evict_position_no_panic[of "ci_audit_order s" "ci_audit s" m] parts(1)
      by (auto simp: reserve_audit_def Let_def audit_ok_def split: if_splits sum.splits)
    ultimately show ?thesis
      by (cases e) (auto simp: step_effect_same)
  next
    case (Inr x)
    define adm where "adm = classify (cmd_target c) s"
    have res: "res = Inr adm" "t = record_admission c fp adm u"
      using place Pair Inr by (simp_all add: place_command_def Let_def adm_def)
    have reserved: "reserved (cmd_sequence c) s u"
      using reserve_audit_reserved[OF parts(1)] Pair Inr by simp
    note keep = reservedD[OF reserved]
    have spent: "seq_spent q t" if "seq_spent q s" for q
      using that unspent reserved_spent[OF reserved that]
        record_admission_spent(1)[OF reserved_shape(1)[OF reserved], of q c fp adm] res
      by (metis)
    show ?thesis
    proof (cases "is_accepted adm")
      case True
      then obtain k where k: "classify (cmd_target c) s = Accepted k"
        by (cases adm) (simp_all add: adm_def)
      have "ci_pending t = bt_insert (cmd_target c) c (ci_pending s)" "ci_finalized t = ci_finalized s"
        using True by (simp_all add: res record_admission_def Let_def keep)
      moreover have "map_of (ci_pending s) (cmd_target c) = None" "bt_ok (ci_pending s)"
        using classify_accepted(3)[OF parts(3) k] parts(2) by (simp_all add: pending_ok_def)
      ultimately show ?thesis
        using spent unspent insert_pending_sequences[of s c t] k True
          record_admission_spent(2)[OF reserved_shape(1)[OF reserved], of c fp adm]
        by (simp add: step_effect_def res adm_def)
    next
      case False
      then have "ci_pending t = ci_pending s" "ci_finalized t = ci_finalized s"
        by (simp_all add: res record_admission_def Let_def keep)
      then show ?thesis
        using spent False by (cases adm) (simp_all add: step_effect_def res pending_sequences_def)
    qed
  qed
qed

lemma committed_effect:
  assumes ok: "command_inbox_ok s" and p: "ci_prepared s = Some p" and t: "committed p s t"
    and r: "fr_tick r = pr_tick p" "fr_sequence r = pr_sequence p"
  shows "step_effect (FinalizedEv r) s t"
proof -
  have parts: "audit_ok s" "pending_ok s" "prepared_ok s"
    using ok by (simp_all add: command_inbox_ok_def)
  have tick: "unat (pr_tick p) = unat (ci_finalized s) + 1" "ci_finalized t = pr_tick p"
    using prepared_source(1)[OF parts(3) p] t by (simp_all add: checked_next_Some committed_def)
  have retired: "ci_retired_sequence t = ci_retired_sequence s"
    using t by (simp add: committed_def)
  show ?thesis
  proof (cases "pr_sequence p")
    case None
    then have "ci_pending t = ci_pending s" "ci_audit t = ci_audit s"
      using t by (simp_all add: committed_def)
    then show ?thesis
      using tick r None retired by (simp add: step_effect_def pending_sequences_def seq_spent_cong[of t s])
  next
    case (Some q)
    then have pend: "map_of (ci_pending t) = (map_of (ci_pending s))(pr_tick p := None)"
      and audit: "ci_audit t = bt_update q (\<lambda>r. r\<lparr>ar_pending := False\<rparr>) (ci_audit s)"
      using t by (simp_all add: committed_def)
    obtain c where c: "map_of (ci_pending s) (pr_tick p) = Some c" "cmd_sequence c = q"
      using prepared_source(2)[OF parts(3) p Some] by blast
    have "pending_sequences t = pending_sequences s - {q}"
    proof (intro set_eqI iffI)
      fix x
      assume "x \<in> pending_sequences t"
      then obtain y c' where "y \<noteq> pr_tick p" "map_of (ci_pending s) y = Some c'" "cmd_sequence c' = x"
        by (auto simp: pending_sequences_def pend split: if_splits)
      then show "x \<in> pending_sequences s - {q}"
        using pendingD(6)[OF parts(2) c(1), of y c'] c(2) by (auto simp: pending_sequences_def)
    next
      fix x
      assume "x \<in> pending_sequences s - {q}"
      then obtain y c' where y: "map_of (ci_pending s) y = Some c'" "cmd_sequence c' = x" "x \<noteq> q"
        by (auto simp: pending_sequences_def)
      then have "y \<noteq> pr_tick p"
        using c by auto
      with y show "x \<in> pending_sequences t"
        by (auto simp: pending_sequences_def pend)
    qed
    moreover have "q \<in> pending_sequences s"
      using c by (auto simp: pending_sequences_def)
    moreover have "seq_spent x t = seq_spent x s" for x
      unfolding seq_spent_def audit retired by (simp split: option.split)
    ultimately show ?thesis
      using tick r Some by (simp add: step_effect_def)
  qed
qed

lemma command_step_effect:
  assumes ok: "command_inbox_ok s" and step: "command_step blake3 writes op s = (ev, t)"
  shows "step_effect ev s t"
proof (cases op)
  case (Admit conn c rules)
  obtain res u where adm: "admit blake3 writes conn c rules s = (res, u)"
    by (cases "admit blake3 writes conn c rules s")
  then show ?thesis
  proof (cases rule: admit_cases)
    case (unchanged n)
    then have "ev = QuietEv" "t = u"
      using step adm Admit by (auto split: sum.splits Admission.splits failure.splits)
    then show ?thesis
      using unchanged by (simp add: step_effect_same)
  next
    case (placed fp n)
    have "\<not> is_panic res \<and> step_effect (case res of Inr (Accepted _) \<Rightarrow> AcceptedEv (cmd_sequence c) | _ \<Rightarrow> QuietEv)
        (s\<lparr>ci_submissions := n\<rparr>) u"
      using placed ok by (intro place_command_effect[where fp = fp]) simp_all
    moreover have "step_effect e (s\<lparr>ci_submissions := n\<rparr>) u = step_effect e s u" for e
      by (simp add: step_effect_def pending_sequences_def split: CommandEvent.split option.split)
    ultimately show ?thesis
      using step adm Admit by (auto split: sum.splits Admission.splits failure.splits)
  qed
next
  case (Prepare rules)
  obtain res u where prep: "prepare_next rules s = (res, u)"
    by (cases "prepare_next rules s")
  then have "ev = QuietEv" "t = u"
    using step Prepare by simp_all
  with prep show ?thesis
    by (cases rule: prepare_next_cases) (simp_all add: step_effect_same)
next
  case (Commit tick)
  obtain res u where com: "commit tick s = (res, u)"
    by (cases "commit tick s")
  from com ok show ?thesis
  proof (cases rule: commit_cases)
    case failed
    then show ?thesis
      using step Commit com by (simp add: step_effect_same)
  next
    case (finalized p)
    then show ?thesis
      using step Commit com committed_effect[OF ok finalized(1,3)] by auto
  qed
qed

lemma executed_of_Cons:
  "executed_of (ev # evs) =
    (case ev of FinalizedEv r \<Rightarrow> (case fr_sequence r of None \<Rightarrow> [] | Some q \<Rightarrow> [q]) | _ \<Rightarrow> []) @ executed_of evs"
  by (cases ev) (simp_all add: executed_of_def map_filter_simps split: option.split)

definition run_effect ::
  "CommandEvent list \<Rightarrow> ('i, 'a) CommandInbox \<Rightarrow> ('i, 'a) CommandInbox \<Rightarrow> bool" where
  "run_effect evs s t \<longleftrightarrow>
    (\<forall>q \<in> set (accepted_of evs). \<not> seq_spent q s) \<and> distinct (accepted_of evs) \<and>
    set (executed_of evs) \<subseteq> pending_sequences s \<union> set (accepted_of evs) \<and> distinct (executed_of evs) \<and>
    unat (ci_finalized s) \<le> unat (ci_finalized t) \<and>
    map (\<lambda>r. unat (fr_tick r)) (finalized_of evs) =
      [unat (ci_finalized s) + 1 ..< unat (ci_finalized t) + 1] \<and>
    PanicEv \<notin> set evs"

lemma run_effect_Cons:
  assumes ok: "command_inbox_ok s" and step: "step_effect ev s u" and rest: "run_effect evs u t"
  shows "run_effect (ev # evs) s t"
proof (cases ev)
  case (AcceptedEv q)
  then have "\<not> seq_spent q s" "seq_spent q u" "pending_sequences u = insert q (pending_sequences s)"
      "ci_finalized u = ci_finalized s" "\<forall>q. seq_spent q s \<longrightarrow> seq_spent q u"
    using step by (simp_all add: step_effect_def)
  with rest AcceptedEv show ?thesis
    by (auto simp: run_effect_def executed_of_Cons)
next
  case (FinalizedEv r)
  have fin: "unat (fr_tick r) = unat (ci_finalized s) + 1" "ci_finalized u = fr_tick r"
      "\<forall>q. seq_spent q s \<longrightarrow> seq_spent q u"
    using step FinalizedEv by (simp_all add: step_effect_def)
  have ticks: "map (\<lambda>r. unat (fr_tick r)) (finalized_of (ev # evs)) =
      [unat (ci_finalized s) + 1 ..< unat (ci_finalized t) + 1]"
    using rest fin FinalizedEv by (simp add: run_effect_def upt_conv_Cons del: upt_Suc)
  show ?thesis
  proof (cases "fr_sequence r")
    case None
    then have "pending_sequences u = pending_sequences s"
      using step FinalizedEv by (simp add: step_effect_def)
    with rest fin ticks FinalizedEv None show ?thesis
      by (auto simp: run_effect_def executed_of_Cons)
  next
    case (Some q)
    then have q: "q \<in> pending_sequences s" "pending_sequences u = pending_sequences s - {q}"
      using step FinalizedEv by (simp_all add: step_effect_def)
    moreover have "seq_spent q u"
      using pending_spent[OF ok q(1)] fin(3) by blast
    ultimately show ?thesis
      using rest fin ticks FinalizedEv Some by (auto simp: run_effect_def executed_of_Cons)
  qed
next
  case PanicEv
  then show ?thesis
    using step by (simp add: step_effect_def)
next
  case QuietEv
  then show ?thesis
    using step rest by (auto simp: step_effect_def run_effect_def executed_of_Cons)
qed

lemma command_run_effect:
  "command_inbox_ok s \<Longrightarrow> command_run blake3 writes ops s = (evs, t) \<Longrightarrow>
    command_inbox_ok t \<and> run_effect evs s t"
proof (induction ops arbitrary: s evs)
  case Nil
  then show ?case
    by (simp add: run_effect_def executed_of_def map_filter_simps)
next
  case (Cons op ops)
  obtain ev u where step: "command_step blake3 writes op s = (ev, u)"
    by (cases "command_step blake3 writes op s")
  moreover obtain rest where rest: "command_run blake3 writes ops u = (rest, t)" "evs = ev # rest"
    using Cons.prems(2) step by (auto split: prod.splits)
  moreover have "command_inbox_ok u"
    using command_step_ok[OF Cons.prems(1), of blake3 writes op] step by simp
  ultimately show ?case
    using Cons.IH[of u rest] run_effect_Cons[OF Cons.prems(1) command_step_effect[OF Cons.prems(1) step]]
    by blast
qed

lemma command_run_fold:
  "snd (command_run blake3 writes ops s) = fold (\<lambda>op s. snd (command_step blake3 writes op s)) ops s"
  by (induction ops arbitrary: s) (simp_all add: case_prod_beta)

lemma command_run_ok: "command_inbox_ok s \<Longrightarrow> command_inbox_ok (snd (command_run blake3 writes ops s))"
  unfolding command_run_fold by (rule command_machine.run_inv)

lemma new_inbox_empty:
  assumes "command_inbox_new owner tick limits = Inr s"
  shows "pending_sequences s = {}" "ci_finalized s = tick"
  using assms by (auto simp: command_inbox_new_def pending_sequences_def split: if_splits)

end
