(* ===== verification/Net_Command_Props.thy ===== *)
theory Net_Command_Props
  imports Net_Command_Runs
begin

text \<open>
  The properties of the command inbox, with a small concrete session as their witness.
\<close>

section \<open>Audit capacity\<close>

lemma window_card:
  fixes f :: "'w::len word"
  shows "finite {t. f < t \<and> t \<le> saturating_add f n} \<and> card {t. f < t \<and> t \<le> saturating_add f n} \<le> unat n"
proof -
  let ?S = "{t. f < t \<and> t \<le> saturating_add f n}"
  have sub: "unat ` ?S \<subseteq> {unat f <.. unat f + unat n}"
    by (auto simp: word_less_nat_alt word_le_nat_alt unat_saturating_add)
  have inj: "inj_on unat ?S"
    by (meson inj_onI word_unat_eq_iff)
  have "card ?S = card (unat ` ?S)"
    using card_image[OF inj] by simp
  also have "\<dots> \<le> card {unat f <.. unat f + unat n}"
    using sub by (intro card_mono) simp_all
  finally show ?thesis
    by simp
qed

lemma pending_below_window:
  assumes ok: "command_inbox_ok s" and free: "classify target s = Accepted k"
  shows "length (ci_pending s) < unat (cl_future_ticks (ci_limits s))"
proof -
  have parts: "pending_ok s" "prepared_ok s" "limits_ok (ci_limits s)"
    using ok by (simp_all add: command_inbox_ok_def)
  let ?n = "ucast (cl_future_ticks (ci_limits s)) :: u64"
  let ?S = "{t. ci_finalized s < t \<and> t \<le> saturating_add (ci_finalized s) ?n}"
  let ?K = "fst ` set (ci_pending s)"
  note acc = classify_accepted[OF parts(2) free]
  have bt: "bt_ok (ci_pending s)"
    using parts(1) by (simp add: pending_ok_def)
  have "?K \<subseteq> ?S"
    using pendingD(3,4)[OF parts(1)] bt_keys_unique[OF bt] by fastforce
  moreover have "target \<in> ?S" "target \<notin> ?K"
    using acc(1-3) by (simp_all add: map_of_eq_None_iff)
  ultimately have "insert target ?K \<subseteq> ?S" "card (insert target ?K) = Suc (card ?K)"
    by auto
  then have "Suc (card ?K) \<le> card ?S"
    using card_mono[of ?S "insert target ?K"] window_card[of "ci_finalized s" ?n] by simp
  moreover have "card ?K = length (ci_pending s)"
    using bt_ok_distinct[OF bt] by (metis distinct_card length_map set_map)
  moreover have "unat ?n = unat (cl_future_ticks (ci_limits s))"
    by (simp add: unat_ucast_widen)
  ultimately show ?thesis
    using window_card[of "ci_finalized s" ?n] by linarith
qed

lemma audit_all_pending_bound:
  assumes ok: "command_inbox_ok s"
    and all: "\<forall>q \<in> set (ci_audit_order s). \<exists>r. map_of (ci_audit s) q = Some r \<and> ar_pending r"
  shows "length (ci_audit s) \<le> length (ci_pending s)"
proof -
  have parts: "audit_ok s" "pending_ok s"
    using ok by (simp_all add: command_inbox_ok_def)
  have "fst ` set (ci_audit s) \<subseteq> (\<lambda>e. cmd_sequence (snd e)) ` set (ci_pending s)"
  proof
    fix q
    assume "q \<in> fst ` set (ci_audit s)"
    then obtain r where "map_of (ci_audit s) q = Some r" "ar_pending r"
      using all parts(1) by (auto simp: audit_ok_def)
    then obtain t c where "map_of (ci_pending s) t = Some c" "cmd_sequence c = q"
      using audit_pendingD(2)[OF parts(1)] by blast
    then show "q \<in> (\<lambda>e. cmd_sequence (snd e)) ` set (ci_pending s)"
      by (force dest: map_of_SomeD)
  qed
  then have "card (fst ` set (ci_audit s)) \<le> length (ci_pending s)"
    using card_mono card_image_le[of "set (ci_pending s)"] card_length
    by (metis (no_types, lifting) List.finite_set finite_imageI le_trans)
  moreover have "card (fst ` set (ci_audit s)) = length (ci_audit s)"
    using bt_ok_distinct[of "ci_audit s"] parts(1)
    by (metis audit_ok_def distinct_card length_map set_map)
  ultimately show ?thesis
    by simp
qed

lemma reserve_for_accepted:
  assumes ok: "command_inbox_ok s" and free: "classify target s = Accepted k"
  shows "\<exists>t. reserve_audit q s = (Inr (), t)"
proof (rule ccontr)
  assume neg: "\<nexists>t. reserve_audit q s = (Inr (), t)"
  have parts: "audit_ok s" "limits_ok (ci_limits s)"
    using ok by (simp_all add: command_inbox_ok_def)
  obtain e where full: "length (ci_audit s) = cl_audit_records (ci_limits s)"
      and e: "evict_position (ci_audit s) (ci_audit_order s) = Inl e"
    using neg by (auto simp: reserve_audit_def Let_def split: if_splits sum.splits)
  have "e \<noteq> Panic m" for m
    using e evict_position_no_panic[of "ci_audit_order s" "ci_audit s" m] parts(1)
    by (simp add: audit_ok_def)
  then obtain err where "evict_position (ci_audit s) (ci_audit_order s) = Inl (Err err)"
    using e by (cases e) blast+
  then have "\<forall>q \<in> set (ci_audit_order s). \<exists>r. map_of (ci_audit s) q = Some r \<and> ar_pending r"
    using evict_position_Inl by blast
  then have "length (ci_audit s) \<le> length (ci_pending s)"
    by (rule audit_all_pending_bound[OF ok])
  then show False
    using pending_below_window[OF ok free] full parts(2) by (simp add: limits_ok_def)
qed

lemma classify_submissions [simp]: "classify target (s\<lparr>ci_submissions := n\<rparr>) = classify target s"
  by (simp add: classify_def Let_def split: option.split)

lemma check_actions_error: "check_actions valid edges slots \<noteq> Inl AuditFull"
  by (induction valid edges slots rule: check_actions.induct) auto

lemma fingerprint_error: "fingerprint blake3 writes c n \<noteq> Inl AuditFull"
  by (simp add: fingerprint_def split: option.split)

lemma admit_AuditFull:
  assumes "admit blake3 writes conn c rules s = (Inl (Err AuditFull), t)"
  shows "\<exists>fp n. place_command c fp (s\<lparr>ci_submissions := n\<rparr>) = (Inl (Err AuditFull), t)"
  using assms
  by (auto simp: admit_def Let_def check_actions_error fingerprint_error split: if_splits sum.splits option.splits prod.splits Admission.splits)

section \<open>The prepared selection\<close>





section \<open>Fingerprints, bundles and substitution\<close>

lemma fw_write_all_eq:
  "fw_length w \<le> fw_limit w \<Longrightarrow> fw_write_all chunks w =
    (if fw_length w + length (concat chunks) \<le> fw_limit w
     then Some (w\<lparr>fw_hashed := fw_hashed w @ concat chunks, fw_length := fw_length w + length (concat chunks)\<rparr>)
     else None)"
proof (induction chunks arbitrary: w)
  case (Cons b chunks)
  show ?case
  proof (cases "length b \<le> fw_limit w - fw_length w")
    case True
    define w' where "w' = w\<lparr>fw_hashed := fw_hashed w @ b, fw_length := fw_length w + length b\<rparr>"
    have "fw_write b w = Some w'" "fw_length w' \<le> fw_limit w'"
      using True Cons.prems by (simp_all add: fw_write_def w'_def)
    then show ?thesis
      using Cons.IH[of w'] by (simp add: w'_def)
  next
    case False
    then show ?thesis
      using Cons.prems by (simp add: fw_write_def)
  qed
qed simp

lemma fingerprint_eq:
  "fingerprint blake3 writes c limit =
    (case writes c of None \<Rightarrow> Inl OversizedOrInvalidEncoding
     | Some chunks \<Rightarrow> if length (concat chunks) \<le> limit
         then Inr (blake3 (concat chunks), length (concat chunks)) else Inl OversizedOrInvalidEncoding)"
  by (simp add: fingerprint_def fw_write_all_eq split: option.split)

definition encoded_size :: "('c \<Rightarrow> bytes list option) \<Rightarrow> 'c \<Rightarrow> nat" where
  "encoded_size writes c = (case writes c of None \<Rightarrow> 0 | Some chunks \<Rightarrow> length (concat chunks))"

lemma fingerprint_size:
  "fingerprint blake3 writes c limit = Inr (h, n) \<Longrightarrow> n = encoded_size writes c \<and> n \<le> limit"
  by (auto simp: fingerprint_eq encoded_size_def split: option.splits if_splits)

definition bundle_ok :: "(('i, 'a) Command \<Rightarrow> bytes list option) \<Rightarrow> ('i, 'a) Command \<Rightarrow> nat \<Rightarrow> usize \<Rightarrow>
    (CommandStream \<times> CommandSeq) list \<Rightarrow> ('i, 'a) Command list \<Rightarrow> bool" where
  "bundle_ok writes newest m used seen out \<longleftrightarrow>
    (\<exists>rest. out = newest # rest) \<and> length out \<le> m \<and> (\<forall>c \<in> set out. cmd_owner c = cmd_owner newest)
    \<and> distinct (map cmd_sequence out)
    \<and> (\<forall>c \<in> set out. (os_stream (cmd_owner c), cmd_sequence c) \<in> set seen)
    \<and> sum_list (map (encoded_size writes) out) \<le> used"

lemma bundle_ok_push:
  assumes "bundle_ok writes newest m used seen out" "length out \<noteq> m" "cmd_owner c = cmd_owner newest"
    "(os_stream (cmd_owner c), cmd_sequence c) \<notin> set seen" "encoded_size writes c \<le> remaining"
  shows "bundle_ok writes newest m (used + encoded_size writes c)
    (bs_insert (os_stream (cmd_owner c), cmd_sequence c) seen) (out @ [c])"
proof -
  obtain rest where out: "out = newest # rest"
    using assms(1) by (auto simp: bundle_ok_def)
  have key: "os_stream (cmd_owner d) = os_stream (cmd_owner c)"
      "(os_stream (cmd_owner d), cmd_sequence d) \<in> set seen" if "d \<in> set out" for d
    using assms(1,3) that unfolding bundle_ok_def by metis+
  have "cmd_sequence d \<noteq> cmd_sequence c" if "d \<in> set out" for d
    using key[OF that] assms(4) by auto
  then have new: "cmd_sequence c \<notin> set (map cmd_sequence out)"
    by force
  have old: "length out \<le> m" "distinct (map cmd_sequence out)"
      "sum_list (map (encoded_size writes) out) \<le> used" "\<forall>c \<in> set out. cmd_owner c = cmd_owner newest"
    using assms(1) unfolding bundle_ok_def by blast+
  show ?thesis
    unfolding bundle_ok_def
  proof (intro conjI)
    show "\<exists>rest. out @ [c] = newest # rest"
      by (simp add: out)
    show "length (out @ [c]) \<le> m" "distinct (map cmd_sequence (out @ [c]))"
      using old(1,2) assms(2) new by simp_all
    show "\<forall>d \<in> set (out @ [c]). cmd_owner d = cmd_owner newest"
      using old(4) assms(3) by simp
    show "\<forall>d \<in> set (out @ [c]). (os_stream (cmd_owner d), cmd_sequence d)
        \<in> set (bs_insert (os_stream (cmd_owner c), cmd_sequence c) seen)"
      using key(2) by simp
    show "sum_list (map (encoded_size writes) (out @ [c])) \<le> used + encoded_size writes c"
      using old(3) by simp
  qed
qed

lemma bundle_ok_weaken:
  assumes "bundle_ok writes newest m used seen out" "set seen \<subseteq> set seen'" "used \<le> used'"
  shows "bundle_ok writes newest m used' seen' out"
proof -
  have "sum_list (map (encoded_size writes) out) \<le> used'"
    using assms(1,3) unfolding bundle_ok_def by linarith
  with assms(1,2) show ?thesis
    unfolding bundle_ok_def by blast
qed

lemma pack_older_ok:
  assumes "bundle_ok writes newest m (budget - remaining) seen out" "remaining \<le> budget"
  shows "\<exists>seen'. bundle_ok writes newest m budget seen'
      (pack_older (fingerprint blake3 writes) newest older m remaining seen out)
    \<and> set (pack_older (fingerprint blake3 writes) newest older m remaining seen out) \<subseteq> set out \<union> set older"
  using assms
proof (induction older arbitrary: remaining seen out)
  case Nil
  then show ?case
    using bundle_ok_weaken[of writes newest m "budget - remaining" seen out seen budget] by auto
next
  case (Cons c older)
  let ?key = "(os_stream (cmd_owner c), cmd_sequence c)"
  consider (full) "length out = m" | (skip) "length out \<noteq> m" "cmd_owner c \<noteq> cmd_owner newest \<or> ?key \<in> set seen"
    | (large) e where "length out \<noteq> m" "cmd_owner c = cmd_owner newest" "?key \<notin> set seen"
        "fingerprint blake3 writes c remaining = Inl e"
    | (fits) h n where "length out \<noteq> m" "cmd_owner c = cmd_owner newest" "?key \<notin> set seen"
        "fingerprint blake3 writes c remaining = Inr (h, n)"
    by (metis old.sum.exhaust surj_pair)
  then show ?case
  proof cases
    case full
    then show ?thesis
      using bundle_ok_weaken[OF Cons.prems(1), of seen budget] by auto
  next
    case skip
    then show ?thesis
      using Cons.IH[OF Cons.prems] by auto
  next
    case large
    have "bundle_ok writes newest m (budget - remaining) (bs_insert ?key seen) out"
      using Cons.prems(1) by (rule bundle_ok_weaken) auto
    from Cons.IH[OF this Cons.prems(2)] large show ?thesis
      by auto
  next
    case fits
    have n: "n = encoded_size writes c" "n \<le> remaining"
      using fingerprint_size[OF fits(4)] by simp_all
    have "bundle_ok writes newest m (budget - (remaining - n)) (bs_insert ?key seen) (out @ [c])"
      using bundle_ok_push[OF Cons.prems(1) fits(1-3), of remaining] n Cons.prems(2) by simp
    from Cons.IH[OF this] fits n Cons.prems(2) show ?thesis
      by (auto simp: Let_def)
  qed
qed

fun substitutes :: "nat \<Rightarrow> u8 \<Rightarrow> ('i \<Rightarrow> 'i) \<Rightarrow> 'i \<Rightarrow> 'i InputContinuity \<Rightarrow> 'i list" where
  "substitutes 0 grace held neutral c = []"
| "substitutes (Suc n) grace held neutral c =
    (case substitute grace held neutral c of (i, streak) \<Rightarrow>
       i # substitutes n grace held neutral (c\<lparr>ic_missing_streak := streak\<rparr>))"

lemma substitutes_from:
  "substitutes n grace held neutral \<lparr>ic_last_input = Some l, ic_missing_streak = k\<rparr> =
    map (\<lambda>j. if unat k + j < unat grace then held l else neutral) [0..<n]"
proof (induction n arbitrary: k)
  case (Suc n)
  define k' where "k' = saturating_add k 1"
  have grace: "unat grace < 256" "unat (ucast grace :: u32) = unat grace"
    using unat_less_2p[of grace] by (simp_all add: unat_ucast_widen)
  have k': "unat k' = min (unat k + 1) (2 ^ 32 - 1)"
    by (simp add: k'_def unat_saturating_add)
  have "(k' \<le> ucast grace) = (unat k < unat grace)"
    using grace k' by (auto simp: word_le_nat_alt)
  moreover have "(unat k' + j < unat grace) = (unat k + Suc j < unat grace)" for j
    using grace(1) k' by (auto simp: min_def split: if_splits)
  ultimately show ?case
    using Suc[of k'] by (simp add: substitute_def Let_def k'_def[symmetric] upt_conv_Cons map_Suc_upt[symmetric]
        comp_def del: upt_Suc)
qed simp

section \<open>Witness scenario\<close>

definition ex_owner :: OwnerStream where
  "ex_owner = \<lparr>os_connection = 1, os_epoch = 1, os_stream = 1, os_owner = EntityId 5 1, os_ownership = 1\<rparr>"

definition ex_rules :: "(nat, nat) CommandRules" where
  "ex_rules = \<lparr>cr_owns_at = (\<lambda>_ _. True), cr_valid_input = (\<lambda>i. i < 100), cr_valid_action = (\<lambda>_. True),
     cr_held_input = (\<lambda>i. i), cr_neutral_input = 0\<rparr>"

definition ex_command :: "u64 \<Rightarrow> u64 \<Rightarrow> nat \<Rightarrow> (nat, nat) Command" where
  "ex_command seq target i = \<lparr>cmd_owner = ex_owner, cmd_sequence = seq, cmd_target = target,
     cmd_input = i, cmd_actions = []\<rparr>"

definition ex_writes :: "(nat, nat) Command \<Rightarrow> bytes list option" where
  "ex_writes c = Some [[ucast (cmd_sequence c)], [ucast (cmd_target c)], [of_nat (cmd_input c)]]"

definition ex_inbox :: "(nat, nat) CommandInbox" where
  "ex_inbox = \<lparr>ci_owner = ex_owner, ci_limits = default_command_limits, ci_finalized = 0,
     ci_pending = [], ci_audit = [], ci_audit_order = [], ci_retired_sequence = None,
     ci_highest_received = None, ci_sequence_window_floor = 0, ci_receipts = [],
     ci_prepared = None, ci_continuity = continuity_default, ci_submissions = 0\<rparr>"

definition ex_ops :: "(nat, nat) CommandOp list" where
  "ex_ops = [Admit 1 (ex_command 1 1 7) ex_rules, Admit 1 (ex_command 1 1 7) ex_rules,
     Admit 1 (ex_command 2 1 8) ex_rules, Prepare ex_rules, Commit 1, Prepare ex_rules, Commit 2,
     Admit 1 (ex_command 1 1 7) ex_rules]"

lemma ex_inbox_new: "command_inbox_new ex_owner 0 default_command_limits = Inr ex_inbox"
  by (simp add: command_inbox_new_def ex_owner_def default_command_limits_def ex_inbox_def)

lemmas ex_defs = ex_owner_def ex_rules_def ex_command_def ex_writes_def ex_inbox_def
  default_command_limits_def continuity_default_def

lemmas admit_eval = admit_def place_command_def classify_def reserve_audit_def record_admission_def
  fingerprint_def fw_write_def bt_contains_def option_max_def saturating_add_def checked_add_def

lemmas commit_eval = prepare_next_def commit_def consume_prepared_def push_receipt_def substitute_def
  commit_input_def checked_next_def checked_add_def saturating_add_def bt_update_def bt_map_def
  bt_remove_def bt_contains_def

lemma ex_run:
  "fst (command_run (\<lambda>b. b) ex_writes ex_ops ex_inbox) =
    [AcceptedEv 1, QuietEv, QuietEv, QuietEv,
     FinalizedEv \<lparr>fr_tick = 1, fr_sequence = Some 1, fr_status = Executed\<rparr>, QuietEv,
     FinalizedEv \<lparr>fr_tick = 2, fr_sequence = None, fr_status = Substituted\<rparr>, QuietEv]"
  by (simp add: ex_ops_def ex_defs admit_eval commit_eval Let_def)

section \<open>Properties\<close>

text \<open>
  C6: Commands take effect at most once.  From a fresh inbox, over any sequence of admissions,
  preparations and commits under any game rules and any fingerprint function, no sequence number is
  accepted twice, no sequence number is executed twice, and only accepted ones are executed, even
  after their audit records have been evicted.
\<close>

theorem commands_at_most_once:
  assumes "command_inbox_new owner t0 limits = Inr s" "command_run blake3 writes ops s = (evs, t)"
  shows "distinct (accepted_of evs) \<and> distinct (executed_of evs)
    \<and> set (executed_of evs) \<subseteq> set (accepted_of evs)"
  using command_run_effect[OF command_inbox_new_ok[OF assms(1)] assms(2)] new_inbox_empty[OF assms(1)]
  by (simp add: run_effect_def)

theorem commands_at_most_once_witness:
  "distinct (accepted_of (fst (command_run (\<lambda>b. b) ex_writes ex_ops ex_inbox)))
    \<and> executed_of (fst (command_run (\<lambda>b. b) ex_writes ex_ops ex_inbox)) = [1]"
  using commands_at_most_once[OF ex_inbox_new, of "\<lambda>b. b" ex_writes ex_ops
      "fst (command_run (\<lambda>b. b) ex_writes ex_ops ex_inbox)"
      "snd (command_run (\<lambda>b. b) ex_writes ex_ops ex_inbox)"]
  by (simp add: ex_run executed_of_def map_filter_simps)

text \<open>
  C7: Finalisation is contiguous and only commits move it.  Over any call sequence from a fresh
  inbox, the receipts handed out carry exactly the consecutive ticks from the initial tick to the
  final watermark, and no call ever panics (the audit index and both \<open>expect\<close> calls are safe).
\<close>

theorem finalization_contiguous:
  assumes "command_inbox_new owner t0 limits = Inr s" "command_run blake3 writes ops s = (evs, t)"
  shows "map (\<lambda>r. unat (fr_tick r)) (finalized_of evs) = [unat t0 + 1 ..< unat (ci_finalized t) + 1]
    \<and> PanicEv \<notin> set evs"
  using command_run_effect[OF command_inbox_new_ok[OF assms(1)] assms(2)] new_inbox_empty[OF assms(1)]
  by (simp add: run_effect_def del: upt_Suc)

theorem finalization_contiguous_witness:
  "unat (ci_finalized (snd (command_run (\<lambda>b. b) ex_writes ex_ops ex_inbox))) = 2
    \<and> PanicEv \<notin> set (fst (command_run (\<lambda>b. b) ex_writes ex_ops ex_inbox))"
proof -
  let ?run = "command_run (\<lambda>b. b) ex_writes ex_ops ex_inbox"
  have "map (\<lambda>r. unat (fr_tick r)) (finalized_of (fst ?run)) = [1, 2]"
    by (simp add: ex_run)
  then have "[1..<unat (ci_finalized (snd ?run)) + 1] = [1, 2]" "PanicEv \<notin> set (fst ?run)"
    using finalization_contiguous[OF ex_inbox_new, of "\<lambda>b. b" ex_writes ex_ops "fst ?run" "snd ?run"]
    by (simp_all del: upt_Suc)
  from this(1) have "length [1..<unat (ci_finalized (snd ?run)) + 1] = length [1, 2 :: nat]"
    by (rule arg_cong)
  then have "unat (ci_finalized (snd ?run)) = 2"
    by (simp del: upt_Suc)
  with \<open>PanicEv \<notin> set (fst ?run)\<close> show ?thesis
    by blast
qed

text \<open>
  Every inbox reachable from a fresh one satisfies the inbox invariant: pending commands lie
  strictly after the watermark and within the future window, one per target and one per sequence
  number, each backed by a pending accepted audit record and conversely; the audit and receipt
  histories stay within their limit; the prepared tick is the next one and selects exactly the
  pending command of that tick; the retained receipts are the last consecutive ticks.
\<close>

theorem command_inbox_reachable_ok:
  assumes "command_inbox_new owner t0 limits = Inr s"
  shows "command_inbox_ok (snd (command_run blake3 writes ops s))"
  by (rule command_run_ok[OF command_inbox_new_ok[OF assms]])

theorem command_inbox_reachable_ok_witness:
  "command_inbox_ok (snd (command_run (\<lambda>b. b) ex_writes ex_ops ex_inbox))"
  by (rule command_inbox_reachable_ok[OF ex_inbox_new])



text \<open>
  C9: A command for a free tick inside the window is never turned away for lack of audit space:
  \<open>AuditFull\<close> is only ever reported for commands that could not have been accepted anyway.
\<close>

theorem acceptable_never_audit_full:
  assumes "command_inbox_ok s" "admit blake3 writes conn c rules s = (Inl (Err AuditFull), t)"
  shows "\<not> is_accepted (classify (cmd_target c) s)"
proof
  assume "is_accepted (classify (cmd_target c) s)"
  then obtain k where k: "classify (cmd_target c) s = Accepted k"
    by (cases "classify (cmd_target c) s") simp_all
  obtain fp n where place: "place_command c fp (s\<lparr>ci_submissions := n\<rparr>) = (Inl (Err AuditFull), t)"
    using admit_AuditFull[OF assms(2)] by blast
  have "classify (cmd_target c) (s\<lparr>ci_submissions := n\<rparr>) = Accepted k"
    using k by simp
  then obtain u where "reserve_audit (cmd_sequence c) (s\<lparr>ci_submissions := n\<rparr>) = (Inr (), u)"
    using reserve_for_accepted[of "s\<lparr>ci_submissions := n\<rparr>"] assms(1) by fastforce
  then show False
    using place by (simp add: place_command_def Let_def)
qed

theorem acceptable_never_audit_full_witness:
  "\<exists>s t. admit (\<lambda>b. b) ex_writes 1 (ex_command 2 1 8) ex_rules s = (Inl (Err AuditFull), t)
    \<and> \<not> is_accepted (classify 1 s)"
proof -
  define s0 where "s0 = ex_inbox\<lparr>ci_limits := default_command_limits\<lparr>cl_future_ticks := 1, cl_audit_records := 1\<rparr>\<rparr>"
  define s where "s = snd (admit (\<lambda>b. b) ex_writes 1 (ex_command 1 1 7) ex_rules s0)"
  have "command_inbox_ok s0"
    by (simp add: s0_def ex_inbox_def default_command_limits_def command_inbox_ok_def limits_ok_def
        audit_ok_def pending_ok_def prepared_ok_def receipts_ok_def)
  then have ok: "command_inbox_ok s"
    unfolding s_def by (rule admit_ok)
  obtain t where t: "admit (\<lambda>b. b) ex_writes 1 (ex_command 2 1 8) ex_rules s = (Inl (Err AuditFull), t)"
    by (simp add: s_def s0_def ex_defs admit_eval Let_def)
  have "cmd_target (ex_command 2 1 8) = 1"
    by (simp add: ex_command_def)
  with acceptable_never_audit_full[OF ok t] t show ?thesis
    by auto
qed

text \<open>
  Equivocation is always refused.  While a sequence number is retained, submitting a command
  with that number whose fingerprint differs from the recorded one returns an error under every rule
  set and changes at most the submission count.
\<close>

theorem equivocation_refused:
  assumes "map_of (ci_audit s) (cmd_sequence c) = Some r"
    and "fingerprint blake3 writes c (cl_max_command_bytes (ci_limits s)) = Inr (fp, n)"
    and "ar_fingerprint r \<noteq> fp"
  shows "(\<exists>e. fst (admit blake3 writes conn c rules s) = Inl (Err e))
    \<and> (\<exists>k. snd (admit blake3 writes conn c rules s) = s\<lparr>ci_submissions := k\<rparr>)"
proof -
  have "(\<exists>e. fst (admit blake3 writes conn c rules s) = Inl (Err e))
    \<and> snd (admit blake3 writes conn c rules s) \<in> {s, s\<lparr>ci_submissions := ci_submissions s + 1\<rparr>}"
    using assms by (auto simp: admit_def Let_def split: sum.split)
  moreover have "s = s\<lparr>ci_submissions := ci_submissions s\<rparr>"
    by simp
  ultimately show ?thesis
    by (metis insertE singletonD)
qed

theorem equivocation_refused_witness:
  "\<exists>e. fst (admit (\<lambda>b. b) ex_writes 1 (ex_command 1 2 9) ex_rules
      (snd (command_run (\<lambda>b. b) ex_writes [Admit 1 (ex_command 1 1 7) ex_rules] ex_inbox))) = Inl (Err e)"
proof -
  let ?s = "snd (command_run (\<lambda>b. b) ex_writes [Admit 1 (ex_command 1 1 7) ex_rules] ex_inbox)"
  have "map_of (ci_audit ?s) (cmd_sequence (ex_command 1 2 9)) =
      Some \<lparr>ar_fingerprint = [1, 1, 7], ar_admission = Accepted 1, ar_pending = True\<rparr>"
    by (simp add: ex_defs admit_eval Let_def)
  moreover have "fingerprint (\<lambda>b. b) ex_writes (ex_command 1 2 9) (cl_max_command_bytes (ci_limits ?s)) =
      Inr ([1, 2, 9], 3)"
    by (simp add: ex_defs admit_eval Let_def)
  ultimately show ?thesis
    using equivocation_refused[of ?s "ex_command 1 2 9" _ "\<lambda>b. b" ex_writes] by fastforce
qed

text \<open>
  C25: Missing input degrades exactly as configured.  After a committed input, consecutive
  substituted ticks use the game's held form of that input for precisely the first \<open>grace\<close> of them
  and the neutral input for every later one, however long the gap.
\<close>

theorem missing_input_substitution:
  "substitutes n grace held neutral (commit_input i c) =
    map (\<lambda>j. if j < unat grace then held i else neutral) [0..<n]"
proof -
  have "commit_input i c = \<lparr>ic_last_input = Some i, ic_missing_streak = 0\<rparr>"
    by (simp add: commit_input_def)
  then show ?thesis
    by (simp add: substitutes_from)
qed

text \<open>
  C26: A redundant bundle always leads with the newest command, whole, and only adds commands of the
  same owner stream with distinct sequence numbers taken from the offered history, within the record
  limit and, together with the eight-byte count, within the payload budget.
\<close>

theorem redundant_bundle_sound:
  assumes "pack_redundant blake3 writes newest older max_records budget = Inr out"
  shows "(\<exists>rest. out = newest # rest) \<and> length out \<le> max_records \<and> set out \<subseteq> insert newest (set older)
    \<and> (\<forall>c \<in> set out. cmd_owner c = cmd_owner newest) \<and> distinct (map cmd_sequence out)
    \<and> 8 + sum_list (map (encoded_size writes) out) \<le> budget"
proof -
  obtain h n where fp: "fingerprint blake3 writes newest budget = Inr (h, n)"
      and "1 \<le> max_records" "8 \<le> budget" "n \<le> budget - 8"
      and out: "out = pack_older (fingerprint blake3 writes) newest older max_records (budget - 8 - n)
        [(os_stream (cmd_owner newest), cmd_sequence newest)] [newest]"
    using assms
    by (auto simp: pack_redundant_def usize_checked_sub_def split: if_splits sum.splits option.splits)
  moreover have "n = encoded_size writes newest"
    using fingerprint_size[OF fp] by simp
  ultimately have "bundle_ok writes newest max_records (budget - 8 - (budget - 8 - n))
      [(os_stream (cmd_owner newest), cmd_sequence newest)] [newest]"
    by (simp add: bundle_ok_def)
  from pack_older_ok[OF this diff_le_self, of blake3 older] obtain seen where
      ok: "bundle_ok writes newest max_records (budget - 8) seen out" "set out \<subseteq> insert newest (set older)"
    unfolding out by auto
  then have "sum_list (map (encoded_size writes) out) \<le> budget - 8"
    unfolding bundle_ok_def by blast
  then have "8 + sum_list (map (encoded_size writes) out) \<le> budget"
    using \<open>8 \<le> budget\<close> by linarith
  then show ?thesis
    using ok unfolding bundle_ok_def by blast
qed

theorem redundant_bundle_sound_witness:
  "\<exists>out. pack_redundant (\<lambda>b. b) ex_writes (ex_command 3 3 1) [ex_command 2 2 1, ex_command 2 2 1, ex_command 1 1 1] 8 15 = Inr out
    \<and> length out = 2 \<and> 8 + sum_list (map (encoded_size ex_writes) out) \<le> 15"
proof -
  have "pack_redundant (\<lambda>b. b) ex_writes (ex_command 3 3 1) [ex_command 2 2 1, ex_command 2 2 1, ex_command 1 1 1] 8 15
      = Inr [ex_command 3 3 1, ex_command 2 2 1]"
    by (simp add: pack_redundant_def usize_checked_sub_def ex_defs fingerprint_def fw_write_def Let_def)
  from redundant_bundle_sound[OF this] this show ?thesis
    by auto
qed

end
