(* ===== verification/Net_Ownership.thy ===== *)
theory Net_Ownership
  imports Net_Command_Props
begin

text \<open>
  Ownership handoff fences: \<open>engine/net/src/ownership.rs\<close>.

  The locale \<open>exclusive_control\<close> is what the command inboxes of two streams rely on of the game's
  \<open>owns_at\<close>: no tick has two owners.  It is interpreted on \<open>handoff_owns_at\<close>.
\<close>

section \<open>Handoffs\<close>

datatype HandoffError = InvalidHandoffIdentity | ChangedEntity | StaleEpoch | EffectiveTickCommitted

record OwnershipHandoff =
  oh_previous :: OwnerStream
  oh_next :: OwnerStream
  oh_effective_tick :: ServerTick

definition stream_identity_invalid :: "OwnerStream \<Rightarrow> bool" where
  "stream_identity_invalid stream \<longleftrightarrow> os_connection stream = 0 \<or> os_epoch stream = 0
    \<or> os_stream stream = 0 \<or> eid_generation (os_owner stream) = 0 \<or> os_ownership stream = 0"

definition handoff_new ::
  "OwnerStream \<Rightarrow> OwnerStream \<Rightarrow> ServerTick \<Rightarrow> ServerTick \<Rightarrow> HandoffError + OwnershipHandoff" where
  "handoff_new previous nxt effective_tick committed_tick =
    (if stream_identity_invalid previous \<or> stream_identity_invalid nxt then Inl InvalidHandoffIdentity
     else if os_owner previous \<noteq> os_owner nxt then Inl ChangedEntity
     else if os_epoch nxt \<le> os_epoch previous \<or> os_ownership nxt \<le> os_ownership previous then Inl StaleEpoch
     else if effective_tick \<le> committed_tick then Inl EffectiveTickCommitted
     else Inr \<lparr>oh_previous = previous, oh_next = nxt, oh_effective_tick = effective_tick\<rparr>)"

definition handoff_owns_at :: "OwnershipHandoff \<Rightarrow> OwnerStream \<Rightarrow> TargetTick \<Rightarrow> bool" where
  "handoff_owns_at h stream target \<longleftrightarrow>
    stream = (if target < oh_effective_tick h then oh_previous h else oh_next h)"

section \<open>Exclusive control\<close>

locale exclusive_control =
  fixes owns :: "OwnerStream \<Rightarrow> TargetTick \<Rightarrow> bool"
  assumes exclusive: "owns a t \<Longrightarrow> owns b t \<Longrightarrow> a = b"
begin

lemma prepare_exclusive:
  assumes "cr_owns_at rules = owns" "cr_owns_at rules' = owns"
    and p: "prepare_next rules s = (Inr p, t)" and p': "prepare_next rules' s' = (Inr p', t')"
    and tick: "pr_tick p = pr_tick p'"
  shows "ci_owner s = ci_owner s'"
proof -
  have "owns (ci_owner s) (pr_tick p)" "owns (ci_owner s') (pr_tick p')"
    using p p' assms(1,2) by (auto elim!: prepare_next_cases simp: selected_def)
  then show ?thesis
    using exclusive tick by simp
qed

lemma admit_exclusive:
  assumes "cr_owns_at rules = owns" "cr_owns_at rules' = owns"
    and c: "admit blake3 writes conn c rules s = (Inr (Accepted k), t)"
    and c': "admit blake3 writes conn' c' rules' s' = (Inr (Accepted k'), t')"
    and target: "cmd_target c = cmd_target c'"
  shows "ci_owner s = ci_owner s'"
proof -
  have "owns (cmd_owner c) (cmd_target c) \<and> cmd_owner c = ci_owner s"
    using c assms(1) by (auto elim!: admit_cases simp: fresh_for_def)
  moreover have "owns (cmd_owner c') (cmd_target c') \<and> cmd_owner c' = ci_owner s'"
    using c' assms(2) by (auto elim!: admit_cases simp: fresh_for_def)
  ultimately show ?thesis
    using exclusive target by metis
qed

end

interpretation handoff_control: exclusive_control "handoff_owns_at h" for h
  by unfold_locales (simp add: handoff_owns_at_def)

section \<open>Properties\<close>

text \<open>
  C27: A handoff gives every tick exactly one owner.  A handoff that is accepted keeps the entity,
  strictly raises the connection and ownership epochs, lies strictly after the committed tick so that
  no already committed tick changes owner, and assigns each tick to the previous stream before the
  effective tick and to the next stream from it on, never to both and never to a third stream.
\<close>

theorem handoff_single_owner:
  assumes "handoff_new previous nxt effective committed_tick = Inr h"
  shows "previous \<noteq> nxt \<and> os_owner previous = os_owner nxt \<and> os_epoch previous < os_epoch nxt
    \<and> os_ownership previous < os_ownership nxt
    \<and> (\<forall>t \<le> committed_tick. handoff_owns_at h previous t)
    \<and> (\<forall>t. \<exists>!owner. handoff_owns_at h owner t)
    \<and> (\<forall>t. handoff_owns_at h previous t = (t < effective) \<and> handoff_owns_at h nxt t = (effective \<le> t))"
proof -
  have h: "h = \<lparr>oh_previous = previous, oh_next = nxt, oh_effective_tick = effective\<rparr>"
      "os_owner previous = os_owner nxt" "os_epoch previous < os_epoch nxt"
      "os_ownership previous < os_ownership nxt" "committed_tick < effective"
    using assms by (auto simp: handoff_new_def split: if_splits)
  then have "previous \<noteq> nxt"
    by auto
  with h show ?thesis
    by (auto simp: handoff_owns_at_def not_less)
qed

theorem handoff_single_owner_witness:
  "\<exists>h. handoff_new ex_owner (ex_owner\<lparr>os_connection := 2, os_epoch := 2, os_ownership := 2\<rparr>) 10 4 = Inr h
    \<and> handoff_owns_at h ex_owner 9 \<and> \<not> handoff_owns_at h ex_owner 10"
proof -
  let ?next = "ex_owner\<lparr>os_connection := 2, os_epoch := 2, os_ownership := 2\<rparr>"
  have "\<exists>h. handoff_new ex_owner ?next 10 4 = Inr h"
    by (simp add: handoff_new_def ex_owner_def stream_identity_invalid_def word_le_nat_alt)
  then obtain h where h: "handoff_new ex_owner ?next 10 4 = Inr h"
    by blast
  from handoff_single_owner[OF h] have "handoff_owns_at h ex_owner 9 = (9 < (10 :: u64))"
    "handoff_owns_at h ex_owner 10 = (10 < (10 :: u64))"
    by blast+
  with h show ?thesis
    by auto
qed

text \<open>
  C28: Across a handoff no tick is driven twice.  If two command inboxes consult the same handoff and
  both prepare, or both accept a command for, the same tick, then they belong to the same stream.
\<close>

theorem handoff_no_double_control:
  assumes "cr_owns_at rules = handoff_owns_at h" "cr_owns_at rules' = handoff_owns_at h"
  shows "(prepare_next rules s = (Inr p, t) \<and> prepare_next rules' s' = (Inr p', t')
        \<and> pr_tick p = pr_tick p' \<longrightarrow> ci_owner s = ci_owner s')
    \<and> (admit blake3 writes conn c rules s = (Inr (Accepted k), u)
        \<and> admit blake3 writes conn' c' rules' s' = (Inr (Accepted k'), u')
        \<and> cmd_target c = cmd_target c' \<longrightarrow> ci_owner s = ci_owner s')"
  using handoff_control.prepare_exclusive[OF assms] handoff_control.admit_exclusive[OF assms] by blast

theorem handoff_no_double_control_witness:
  "let h = \<lparr>oh_previous = ex_owner, oh_next = ex_owner\<lparr>os_epoch := 2\<rparr>, oh_effective_tick = 5\<rparr>;
       rules = ex_rules\<lparr>cr_owns_at := handoff_owns_at h\<rparr> in
   (\<exists>p t. prepare_next rules ex_inbox = (Inr p, t) \<and> pr_tick p = 1)
   \<and> (\<nexists>p t. prepare_next rules (ex_inbox\<lparr>ci_owner := ex_owner\<lparr>os_epoch := 2\<rparr>\<rparr>) = (Inr p, t) \<and> pr_tick p = 1)"
proof -
  let ?h = "\<lparr>oh_previous = ex_owner, oh_next = ex_owner\<lparr>os_epoch := 2\<rparr>, oh_effective_tick = 5\<rparr>"
  let ?rules = "ex_rules\<lparr>cr_owns_at := handoff_owns_at ?h\<rparr>"
  let ?other = "ex_inbox\<lparr>ci_owner := ex_owner\<lparr>os_epoch := 2\<rparr>\<rparr>"
  have rules: "cr_owns_at ?rules = handoff_owns_at ?h"
    by simp
  obtain p t where p: "prepare_next ?rules ex_inbox = (Inr p, t)" "pr_tick p = 1"
    by (simp add: ex_defs commit_eval Let_def handoff_owns_at_def)
  have "ci_owner ex_inbox \<noteq> ci_owner ?other"
    by (simp add: ex_inbox_def ex_owner_def)
  then have "\<nexists>p t. prepare_next ?rules ?other = (Inr p, t) \<and> pr_tick p = 1"
    using handoff_no_double_control[OF rules rules] p by metis
  with p show ?thesis
    by (auto simp: Let_def)
qed

end
