(* ===== verification/Net_Delivery.thy ===== *)
theory Net_Delivery
  imports Net_Prelude
begin

text \<open>
  Bounded application delivery feedback: \<open>ReceiptWindow\<close> of \<open>engine/net/src/delivery.rs\<close>.
  The \<open>while\<close> loop that pops acknowledged endpoints from the front is \<open>dropWhile\<close>.
\<close>

section \<open>State and operations\<close>

datatype ReceiptWindowError = InvalidReceipt | FullWindow | Unissued

record 't ReceiptWindow =
  rw_acknowledged :: 't
  rw_issued :: "'t list"
  rw_limit :: usize

definition receipt_window_new :: "'t \<Rightarrow> usize \<Rightarrow> ReceiptWindowError + 't ReceiptWindow" where
  "receipt_window_new initial limit =
    (if limit = 0 then Inl InvalidReceipt
     else Inr \<lparr>rw_acknowledged = initial, rw_issued = [], rw_limit = limit\<rparr>)"

definition receipt_is_full :: "'t ReceiptWindow \<Rightarrow> bool" where
  "receipt_is_full w \<longleftrightarrow> length (rw_issued w) = rw_limit w"

definition receipt_issue ::
  "'t::linorder \<Rightarrow> 't ReceiptWindow \<Rightarrow> (ReceiptWindowError + unit) \<times> 't ReceiptWindow" where
  "receipt_issue endpoint w =
    (if endpoint \<le> (if rw_issued w = [] then rw_acknowledged w else last (rw_issued w))
     then (Inl InvalidReceipt, w)
     else if receipt_is_full w then (Inl FullWindow, w)
     else (Inr (), w\<lparr>rw_issued := rw_issued w @ [endpoint]\<rparr>))"

definition receipt_acknowledge ::
  "'t::linorder \<Rightarrow> 't ReceiptWindow \<Rightarrow> (ReceiptWindowError + unit) \<times> 't ReceiptWindow" where
  "receipt_acknowledge endpoint w =
    (if endpoint \<le> rw_acknowledged w then (Inr (), w)
     else if endpoint \<notin> set (rw_issued w) then (Inl Unissued, w)
     else (Inr (), w\<lparr>rw_issued := dropWhile (\<lambda>v. v \<le> endpoint) (rw_issued w),
                     rw_acknowledged := endpoint\<rparr>))"

datatype 't ReceiptOp = Issue 't | Acknowledge 't

fun receipt_step :: "'t::linorder ReceiptOp \<Rightarrow> 't ReceiptWindow \<Rightarrow> 't ReceiptWindow" where
  "receipt_step (Issue e) w = snd (receipt_issue e w)"
| "receipt_step (Acknowledge e) w = snd (receipt_acknowledge e w)"

definition receipt_ok :: "'t::linorder ReceiptWindow \<Rightarrow> bool" where
  "receipt_ok w \<longleftrightarrow> bs_ok (rw_issued w) \<and> (\<forall>e \<in> set (rw_issued w). rw_acknowledged w < e)
    \<and> length (rw_issued w) \<le> rw_limit w"

section \<open>Lemmas\<close>

lemma bs_ok_snoc: "bs_ok (xs @ [x]) \<longleftrightarrow> bs_ok xs \<and> (\<forall>y \<in> set xs. y < x)"
  by (auto simp: bs_ok_def sorted_wrt_append)

lemma bs_ok_last: "bs_ok xs \<Longrightarrow> y \<in> set xs \<Longrightarrow> y \<le> last xs"
  by (induction xs) (auto simp: bs_ok_Cons less_imp_le)

lemma dropWhile_bs_ok:
  "bs_ok xs \<Longrightarrow> dropWhile (\<lambda>v. v \<le> e) xs = filter (\<lambda>v. e < v) xs"
  by (induction xs) (auto simp: bs_ok_Cons not_le intro!: filter_True[symmetric])

lemma receipt_issue_ok:
  assumes "receipt_ok w"
  shows "receipt_ok (snd (receipt_issue e w))"
proof (cases "rw_issued w = []")
  case True
  with assms show ?thesis
    by (auto simp: receipt_issue_def receipt_ok_def receipt_is_full_def bs_ok_Cons)
next
  case False
  then have "last (rw_issued w) \<in> set (rw_issued w)"
    by simp
  then have before: "rw_acknowledged w < last (rw_issued w)" "\<forall>y \<in> set (rw_issued w). y \<le> last (rw_issued w)"
    using assms bs_ok_last[of "rw_issued w"] by (auto simp: receipt_ok_def)
  with assms False show ?thesis
    by (auto simp: receipt_issue_def receipt_ok_def receipt_is_full_def bs_ok_snoc not_le
        intro: less_trans[OF before(1)])
qed

lemma receipt_acknowledge_ok: "receipt_ok w \<Longrightarrow> receipt_ok (snd (receipt_acknowledge e w))"
  by (auto simp: receipt_acknowledge_def receipt_ok_def dropWhile_bs_ok bs_ok_filter
      intro: le_trans[OF length_filter_le])

lemma receipt_step_ok: "receipt_ok w \<Longrightarrow> receipt_ok (receipt_step op w)"
  by (cases op) (simp_all add: receipt_issue_ok receipt_acknowledge_ok)

definition receipt_below :: "'t::linorder ReceiptWindow \<Rightarrow> 't ReceiptWindow \<Rightarrow> bool" where
  "receipt_below w v \<longleftrightarrow> rw_acknowledged w \<le> rw_acknowledged v \<and> rw_limit w = rw_limit v"

interpretation receipt_machine: monotone_machine receipt_step receipt_ok receipt_below
proof
  fix w v u :: "'t::linorder ReceiptWindow" and op :: "'t ReceiptOp"
  show "receipt_ok w \<Longrightarrow> receipt_ok (receipt_step op w)"
    by (rule receipt_step_ok)
  show "receipt_below w w" "receipt_below w v \<Longrightarrow> receipt_below v u \<Longrightarrow> receipt_below w u"
    by (auto simp: receipt_below_def)
  show "receipt_ok w \<Longrightarrow> receipt_below w (receipt_step op w)"
    by (cases op) (auto simp: receipt_below_def receipt_issue_def receipt_acknowledge_def)
qed

fun issue_of :: "'t ReceiptOp \<Rightarrow> 't list" where
  "issue_of (Issue e) = [e]"
| "issue_of (Acknowledge e) = []"

lemma receipt_step_issued:
  "set (rw_issued (receipt_step op w)) \<subseteq> set (rw_issued w) \<union> set (issue_of op)
   \<and> rw_acknowledged (receipt_step op w) \<in> insert (rw_acknowledged w) (set (rw_issued w))"
  by (cases op) (auto simp: receipt_issue_def receipt_acknowledge_def dest: set_dropWhileD)

lemma receipt_run_issued:
  "set (rw_issued (fold receipt_step ops w)) \<subseteq> set (rw_issued w) \<union> set (concat (map issue_of ops))
   \<and> rw_acknowledged (fold receipt_step ops w)
      \<in> insert (rw_acknowledged w) (set (rw_issued w) \<union> set (concat (map issue_of ops)))"
proof (induction ops arbitrary: w)
  case (Cons op ops)
  show ?case
    using Cons.IH[of "receipt_step op w"] receipt_step_issued[of op w] by auto
qed simp

section \<open>Properties\<close>

text \<open>
  Delivery feedback is monotone, bounded and truthful.  Over any sequence of issue and
  acknowledge calls on a new window, the acknowledged endpoint never moves backwards and is the
  initial value or an endpoint that was issued, and the outstanding endpoints are strictly increasing,
  later than the acknowledged one and no more than the limit.
\<close>

theorem receipt_window_sound:
  assumes "receipt_window_new initial limit = Inr w"
  shows "let v = fold receipt_step ops w in
    initial \<le> rw_acknowledged v
    \<and> rw_acknowledged v \<in> insert initial (set (concat (map issue_of ops)))
    \<and> sorted_wrt (<) (rw_issued v) \<and> (\<forall>e \<in> set (rw_issued v). rw_acknowledged v < e)
    \<and> length (rw_issued v) \<le> limit"
proof -
  have w: "w = \<lparr>rw_acknowledged = initial, rw_issued = [], rw_limit = limit\<rparr>"
    using assms by (auto simp: receipt_window_new_def split: if_splits)
  then have ok: "receipt_ok w"
    by (simp add: receipt_ok_def)
  show ?thesis
    using receipt_machine.run_inv[OF ok, of ops] receipt_machine.run_below[OF ok, of ops]
      receipt_run_issued[of ops w]
    by (auto simp: Let_def receipt_ok_def receipt_below_def bs_ok_def w)
qed

theorem receipt_window_sound_witness:
  "rw_acknowledged (fold receipt_step [Issue 3, Issue 5, Acknowledge 4, Acknowledge 3, Acknowledge 1]
     \<lparr>rw_acknowledged = (0 :: nat), rw_issued = [], rw_limit = 2\<rparr>) \<in> {0, 3, 5}"
  using receipt_window_sound[of "0 :: nat" 2 "\<lparr>rw_acknowledged = 0, rw_issued = [], rw_limit = 2\<rparr>"
      "[Issue 3, Issue 5, Acknowledge 4, Acknowledge 3, Acknowledge 1]"]
  by (simp add: receipt_window_new_def Let_def)

end
