(* ===== verification/Net_Clock.thy ===== *)
theory Net_Clock
  imports Net_Types
begin

text \<open>
  Rational fixed-tick dispatch with bounded catch-up: \<open>TickClock\<close> of \<open>engine/net/src/clock.rs\<close>.

  The game's \<open>step\<close> callback is represented by the list of contexts it is called with, in order.
  The two assertions of the constructors are the \<open>None\<close> results.
\<close>

section \<open>State and operations\<close>

record TickClock =
  tc_rate :: TickRate
  tc_snapshot_interval :: u32
  tc_committed :: ServerTick
  tc_last_observed :: Duration
  tc_catchup_limit :: u32
  tc_last_flush_wall_tick :: ServerTick
  tc_pending_publication :: bool

record TickContext =
  ctx_tick :: ServerTick
  ctx_deadline :: Duration
  ctx_observed_now :: Duration

record TickHealth =
  th_committed :: ServerTick
  th_debt_ticks :: u64
  th_overloaded :: bool

record TickDecision =
  td_send_due :: bool
  td_snapshot_due :: bool
  td_executed_ticks :: u32
  td_health :: TickHealth

definition tick_clock_new :: "u32 \<Rightarrow> u32 \<Rightarrow> TickClock option" where
  "tick_clock_new tick_hz snapshot_interval =
    (if \<not> snapshot_interval > 0 then None
     else case tick_rate_new tick_hz of None \<Rightarrow> None
     | Some rate \<Rightarrow> Some \<lparr>tc_rate = rate, tc_snapshot_interval = snapshot_interval, tc_committed = 0,
         tc_last_observed = 0, tc_catchup_limit = 4, tc_last_flush_wall_tick = 0,
         tc_pending_publication = False\<rparr>)"

definition with_catchup_limit :: "u32 \<Rightarrow> TickClock \<Rightarrow> TickClock option" where
  "with_catchup_limit ticks c =
    (if \<not> (1 \<le> ticks \<and> ticks \<le> 1024) then None else Some (c\<lparr>tc_catchup_limit := ticks\<rparr>))"

definition wall_tick :: "TickRate \<Rightarrow> Duration \<Rightarrow> ServerTick" where
  "wall_tick rate now = (case elapsed_ticks rate now of None \<Rightarrow> - 1 | Some t \<Rightarrow> t)"

definition clock_health :: "Duration \<Rightarrow> TickClock \<Rightarrow> TickHealth" where
  "clock_health now c =
    (let due = wall_tick (tc_rate c) (max now (tc_last_observed c));
         debt_ticks = saturating_sub due (tc_committed c) in
     \<lparr>th_committed = tc_committed c, th_debt_ticks = debt_ticks,
      th_overloaded = (debt_ticks > ucast (tc_catchup_limit c))\<rparr>)"

fun clock_loop ::
  "nat \<Rightarrow> Duration \<Rightarrow> TickClock \<Rightarrow> u32 \<Rightarrow> TickContext list \<Rightarrow> TickClock \<times> u32 \<times> TickContext list" where
  "clock_loop 0 now c executed calls = (c, executed, calls)"
| "clock_loop (Suc n) now c executed calls =
    (case checked_next (tc_committed c) of
       None \<Rightarrow> (c, executed, calls)
     | Some tick \<Rightarrow>
       (case deadline (tc_rate c) tick of
          None \<Rightarrow> (c, executed, calls)
        | Some d \<Rightarrow>
            clock_loop n now
              (c\<lparr>tc_committed := tick,
                 tc_pending_publication :=
                   tc_pending_publication c \<or> tick mod ucast (tc_snapshot_interval c) = 0\<rparr>)
              (executed + 1)
              (calls @ [\<lparr>ctx_tick = tick, ctx_deadline = d, ctx_observed_now = now\<rparr>])))"

definition advance_ticked :: "Duration \<Rightarrow> TickClock \<Rightarrow> TickDecision \<times> TickContext list \<times> TickClock" where
  "advance_ticked now0 c0 =
    (let now = max now0 (tc_last_observed c0);
         c1 = c0\<lparr>tc_last_observed := now\<rparr>;
         before = clock_health now c1;
         n = unat (min (th_debt_ticks before) (ucast (tc_catchup_limit c1))) in
     case clock_loop n now c1 0 [] of
       (c2, executed, calls) \<Rightarrow>
         (let wall = wall_tick (tc_rate c2) now;
              flush = wall > tc_last_flush_wall_tick c2;
              c3 = (if flush then c2\<lparr>tc_last_flush_wall_tick := wall, tc_pending_publication := False\<rparr>
                    else c2) in
          (\<lparr>td_send_due = flush, td_snapshot_due = (flush \<and> tc_pending_publication c2),
            td_executed_ticks = executed, td_health = clock_health now c3\<rparr>, calls, c3)))"


definition clock_ok :: "TickClock \<Rightarrow> bool" where
  "clock_ok c \<longleftrightarrow> 0 < unat (tr_hz (tc_rate c)) \<and> unat (tr_hz (tc_rate c)) \<le> nanos_per_second
    \<and> tc_last_observed c \<le> duration_max \<and> 0 < tc_catchup_limit c
    \<and> tc_committed c \<le> wall_tick (tc_rate c) (tc_last_observed c)"

section \<open>Lemmas\<close>

lemma unat_wall_tick:
  assumes "unat (tr_hz r) \<le> nanos_per_second" "now \<le> duration_max"
  shows "unat (wall_tick r now) = min (now * unat (tr_hz r) div nanos_per_second) (2 ^ 64 - 1)"
  using elapsed_ticks_value[OF assms] unat_max_word[where 'a = 64]
  by (auto simp: wall_tick_def u64_try_from_def unat_of_nat take_bit_nat_eq_self)

lemma wall_tick_mono:
  assumes "unat (tr_hz r) \<le> nanos_per_second" "a \<le> b" "b \<le> duration_max"
  shows "wall_tick r a \<le> wall_tick r b"
proof -
  have "a * unat (tr_hz r) div nanos_per_second \<le> b * unat (tr_hz r) div nanos_per_second"
    using assms(2) by (intro div_le_mono mult_le_mono1)
  then show ?thesis
    using assms by (simp add: word_le_nat_alt unat_wall_tick min_le_iff_disj)
qed

lemma deadline_reached:
  assumes rate: "0 < unat (tr_hz r)" "unat (tr_hz r) \<le> nanos_per_second"
    and now: "now \<le> duration_max" and k: "k \<le> wall_tick r now" and d: "deadline r k = Some d"
  shows "d \<le> now"
  using k d rate by (simp add: word_le_nat_alt unat_wall_tick[OF rate(2) now] deadline_total le_elapsed_iff)

lemma clock_loop_spec:
  assumes "clock_loop n now c executed calls = (c', executed', calls')"
    and "0 < unat (tr_hz (tc_rate c))"
  shows "\<exists>new. calls' = calls @ new \<and> c' = c\<lparr>tc_committed := tc_committed c',
        tc_pending_publication := tc_pending_publication c'\<rparr>
    \<and> length new \<le> n \<and> (length new < n \<longrightarrow> tc_committed c' = - 1)
    \<and> executed' = executed + of_nat (length new)
    \<and> unat (tc_committed c') = unat (tc_committed c) + length new
    \<and> map (\<lambda>x. unat (ctx_tick x)) new = [unat (tc_committed c) + 1 ..< unat (tc_committed c') + 1]
    \<and> (\<forall>x \<in> set new. deadline (tc_rate c) (ctx_tick x) = Some (ctx_deadline x) \<and> ctx_observed_now x = now)"
  using assms
proof (induction n arbitrary: c executed calls)
  case (Suc n)
  show ?case
  proof (cases "checked_next (tc_committed c)")
    case None
    then have "c' = c" "executed' = executed" "calls' = calls" "tc_committed c = - 1"
      using Suc.prems(1) checked_next_None[of "tc_committed c"] by simp_all
    then show ?thesis
      by (intro exI[of _ "[]"]) simp
  next
    case (Some tick)
    obtain d where d: "deadline (tc_rate c) tick = Some d"
      using deadline_total[OF Suc.prems(2)] by blast
    define c1 where "c1 = c\<lparr>tc_committed := tick, tc_pending_publication :=
        tc_pending_publication c \<or> tick mod ucast (tc_snapshot_interval c) = 0\<rparr>"
    define x where "x = \<lparr>ctx_tick = tick, ctx_deadline = d, ctx_observed_now = now\<rparr>"
    have "clock_loop n now c1 (executed + 1) (calls @ [x]) = (c', executed', calls')"
      using Suc.prems(1) Some d by (simp add: c1_def x_def)
    from Suc.IH[OF this] obtain new where new: "calls' = (calls @ [x]) @ new"
        "c' = c1\<lparr>tc_committed := tc_committed c', tc_pending_publication := tc_pending_publication c'\<rparr>"
        "length new \<le> n" "length new < n \<longrightarrow> tc_committed c' = - 1"
        "executed' = executed + 1 + of_nat (length new)"
        "unat (tc_committed c') = unat tick + length new"
        "map (\<lambda>x. unat (ctx_tick x)) new = [unat tick + 1 ..< unat (tc_committed c') + 1]"
        "\<forall>x \<in> set new. deadline (tc_rate c) (ctx_tick x) = Some (ctx_deadline x) \<and> ctx_observed_now x = now"
      using Suc.prems(2) by (auto simp: c1_def)
    have tick: "unat tick = unat (tc_committed c) + 1"
      using Some by (simp add: checked_next_Some)
    have "map (\<lambda>x. unat (ctx_tick x)) (x # new) = [unat (tc_committed c) + 1 ..< unat (tc_committed c') + 1]"
      using new(6,7) tick by (simp add: x_def upt_conv_Cons del: upt_Suc)
    then show ?thesis
      using new tick d by (intro exI[of _ "x # new"]) (simp add: c1_def x_def del: upt_Suc)
  qed
qed auto

definition advanced :: "Duration \<Rightarrow> TickClock \<Rightarrow> TickContext list \<Rightarrow> TickClock \<Rightarrow> bool" where
  "advanced now c calls c' \<longleftrightarrow>
    tc_rate c' = tc_rate c \<and> tc_catchup_limit c' = tc_catchup_limit c
    \<and> tc_last_observed c' = max now (tc_last_observed c)
    \<and> length calls = min (unat (wall_tick (tc_rate c) (tc_last_observed c')) - unat (tc_committed c))
        (unat (tc_catchup_limit c))
    \<and> unat (tc_committed c') = unat (tc_committed c) + length calls
    \<and> map (\<lambda>x. unat (ctx_tick x)) calls = [unat (tc_committed c) + 1 ..< unat (tc_committed c') + 1]
    \<and> (\<forall>x \<in> set calls. deadline (tc_rate c) (ctx_tick x) = Some (ctx_deadline x)
        \<and> ctx_deadline x \<le> ctx_observed_now x)"

lemma advance_ticked_spec:
  assumes ok: "clock_ok c" and now: "now \<le> duration_max" and adv: "advance_ticked now c = (dec, calls, c')"
  shows "advanced now c calls c' \<and> clock_ok c' \<and> td_executed_ticks dec = of_nat (length calls)"
proof -
  define m where "m = max now (tc_last_observed c)"
  define c1 where "c1 = c\<lparr>tc_last_observed := m\<rparr>"
  define due where "due = wall_tick (tc_rate c) m"
  have rate: "0 < unat (tr_hz (tc_rate c))" "unat (tr_hz (tc_rate c)) \<le> nanos_per_second"
    and m: "m \<le> duration_max" "tc_last_observed c \<le> m" and limit: "0 < tc_catchup_limit c"
    using ok now by (auto simp: clock_ok_def m_def)
  have due: "tc_committed c \<le> due"
    using ok wall_tick_mono[OF rate(2) m(2,1)] unfolding clock_ok_def due_def by (metis order_trans)
  define n where "n = unat (min (th_debt_ticks (clock_health m c1)) (ucast (tc_catchup_limit c1)))"
  have n: "n = min (unat due - unat (tc_committed c)) (unat (tc_catchup_limit c))"
    by (auto simp: n_def clock_health_def c1_def due_def Let_def unat_saturating_sub unat_ucast_widen
        min_def word_le_nat_alt)
  obtain c2 executed where loop: "clock_loop n m c1 0 [] = (c2, executed, calls)"
      and dec: "td_executed_ticks dec = executed"
      and c': "tc_rate c' = tc_rate c2" "tc_catchup_limit c' = tc_catchup_limit c2"
        "tc_committed c' = tc_committed c2" "tc_last_observed c' = tc_last_observed c2"
    using adv by (auto simp: advance_ticked_def Let_def m_def c1_def n_def split: prod.splits if_splits)
  from clock_loop_spec[OF loop] rate(1) have spec:
      "c2 = c1\<lparr>tc_committed := tc_committed c2, tc_pending_publication := tc_pending_publication c2\<rparr>"
      "length calls \<le> n" "length calls < n \<longrightarrow> tc_committed c2 = - 1" "executed = of_nat (length calls)"
      "unat (tc_committed c2) = unat (tc_committed c) + length calls"
      "map (\<lambda>x. unat (ctx_tick x)) calls = [unat (tc_committed c) + 1 ..< unat (tc_committed c2) + 1]"
      "\<forall>x \<in> set calls. deadline (tc_rate c) (ctx_tick x) = Some (ctx_deadline x) \<and> ctx_observed_now x = m"
    by (auto simp: c1_def)
  have same: "tc_rate c2 = tc_rate c" "tc_catchup_limit c2 = tc_catchup_limit c" "tc_last_observed c2 = m"
    using arg_cong[OF spec(1), of tc_rate] arg_cong[OF spec(1), of tc_catchup_limit]
      arg_cong[OF spec(1), of tc_last_observed]
    by (simp_all add: c1_def)
  have len: "length calls = n"
  proof (rule ccontr)
    assume "length calls \<noteq> n"
    with spec(2,3) have "unat (tc_committed c2) = 2 ^ 64 - 1" "length calls < n"
      by (simp_all add: unat_max_word)
    moreover have "unat due < 2 ^ 64" "n \<le> unat due - unat (tc_committed c)"
      using unat_less_2p[of due] n by simp_all
    ultimately show False
      using spec(5) by linarith
  qed
  have committed: "tc_committed c2 \<le> due"
    using spec(5) len n due by (simp add: word_le_nat_alt)
  have "ctx_deadline x \<le> m" if x: "x \<in> set calls" for x
  proof -
    have "unat (ctx_tick x) \<in> set (map (\<lambda>x. unat (ctx_tick x)) calls)"
      using x by simp
    then have "unat (ctx_tick x) \<le> unat (tc_committed c2)"
      unfolding spec(6) by (simp del: upt_Suc)
    then have "ctx_tick x \<le> due"
      using committed by (simp add: word_le_nat_alt)
    then show ?thesis
      using deadline_reached[OF rate m(1)] spec(7) x unfolding due_def by blast
  qed
  then have "advanced now c calls c'"
    using spec(5-7) len n unfolding advanced_def c' same due_def m_def by simp
  moreover have "clock_ok c'"
    using rate m limit committed unfolding clock_ok_def c' same due_def by simp
  ultimately show ?thesis
    using dec spec(4) by simp
qed


lemma clock_new_ok:
  assumes "tick_clock_new hz interval = Some c"
  shows "clock_ok c" "tc_committed c = 0"
  using assms tick_rate_new_Some[of hz]
  by (auto simp: tick_clock_new_def clock_ok_def split: if_splits option.splits)

section \<open>Properties\<close>



text \<open>
  Catch-up is bounded and never stalls.  One advance of a reachable clock executes exactly the
  smaller of the owed ticks and the configured burst limit, the decision reports that number, and the
  clock is left with exactly the remaining debt.
\<close>

theorem clock_burst_exact:
  assumes "clock_ok c" "now \<le> duration_max" "advance_ticked now c = (dec, calls, c')"
  shows "let due = unat (wall_tick (tc_rate c) (max now (tc_last_observed c))) in
    length calls = min (due - unat (tc_committed c)) (unat (tc_catchup_limit c))
    \<and> td_executed_ticks dec = of_nat (length calls)
    \<and> due - unat (tc_committed c') = (due - unat (tc_committed c)) - unat (tc_catchup_limit c)"
  using advance_ticked_spec[OF assms] by (auto simp: advanced_def Let_def)

theorem clock_burst_exact_witness:
  "\<exists>c dec calls c'. tick_clock_new 60 2 = Some c \<and> advance_ticked 500000000 c = (dec, calls, c')
    \<and> length calls = 4 \<and> td_executed_ticks dec = 4"
proof -
  obtain c where c: "tick_clock_new 60 2 = Some c"
    by (simp add: tick_clock_new_def tick_rate_new_def)
  have shape: "tc_rate c = TickRate 60" "tc_last_observed c = 0" "tc_catchup_limit c = 4" "tc_committed c = 0"
    using c by (auto simp: tick_clock_new_def tick_rate_new_def)
  have wall: "wall_tick (TickRate 60) 500000000 = 30"
    by (simp add: wall_tick_def elapsed_ticks_def u64_try_from_def nanos_per_second_def)
  obtain dec calls c' where adv: "advance_ticked 500000000 c = (dec, calls, c')"
    by (cases "advance_ticked 500000000 c")
  have "500000000 \<le> duration_max"
    by (simp add: duration_max_def nanos_per_second_def)
  from clock_burst_exact[OF clock_new_ok(1)[OF c] this adv] c adv show ?thesis
    by (simp add: shape wall Let_def)
qed

end
