(* ===== verification/Net_Timing.thy ===== *)
theory Net_Timing
  imports Net_Types
begin

text \<open>
  Validation of untrusted historical view requests: \<open>engine/net/src/combat_timing.rs\<close>.

  Times are in units of \<open>1/65536\<close> tick.  The source computes them in \<open>u128\<close>; every intermediate value
  is below \<open>2 ^ 82\<close>, so they are naturals here.  The authority's ledger of sent snapshots is the
  argument \<open>sent_reference\<close>.
\<close>

section \<open>Data\<close>

record TimingPolicy =
  tp_maximum_sample_age :: u64
  tp_maximum_future_sample :: u64
  tp_minimum_execution_lead :: u64
  tp_maximum_execution_lead :: u64
  tp_minimum_presentation_age :: u64
  tp_maximum_presentation_age :: u64
  tp_maximum_rewind :: u64
  tp_maximum_reference_advance :: u64

record ViewRequest =
  vr_sampled_at :: ServerTick
  vr_sampled_fraction :: u16
  vr_viewed_at :: ServerTick
  vr_viewed_fraction :: u16
  vr_reference :: SnapshotId

record TimingContext =
  tx_connection :: ConnectionEpoch
  tx_scene :: SceneRevision
  tx_arrival :: ServerTick
  tx_execution :: ServerTick
  tx_oldest_history :: ServerTick
  tx_newest_history :: ServerTick

record SentReference =
  sr_connection :: ConnectionEpoch
  sr_scene :: SceneRevision
  sr_state_at :: ServerTick
  sr_sent_at :: ServerTick

record ValidatedView =
  vv_execution :: ServerTick
  vv_query :: ServerTick
  vv_fraction :: u16
  vv_clamped :: bool

datatype TimingError =
    InvalidPolicy | InvalidContext | InvalidSample | InvalidExecutionLead | UnknownReference
  | WrongReference | OutsidePolicy | MissingHistory | TimingOverflow

definition units :: "ServerTick \<Rightarrow> u16 \<Rightarrow> nat" where
  "units tick fraction = unat tick * 65536 + unat fraction"

definition duration_units :: "u64 \<Rightarrow> nat" where
  "duration_units ticks = unat ticks * 65536"

definition clamp :: "nat \<Rightarrow> nat \<Rightarrow> nat \<Rightarrow> nat" where
  "clamp x lower upper = (if x < lower then lower else if x > upper then upper else x)"

section \<open>Validation\<close>

definition view_window ::
  "TimingPolicy \<Rightarrow> TimingContext \<Rightarrow> nat \<Rightarrow> nat \<Rightarrow> SentReference \<Rightarrow> TimingError + (nat \<times> nat)" where
  "view_window policy context sample execution reference =
    (let lower0 = max (max (sample - duration_units (tp_maximum_presentation_age policy))
           (execution - duration_units (tp_maximum_rewind policy)))
           (units (sr_state_at reference) 0) in
     if sample < duration_units (tp_minimum_presentation_age policy) then Inl OutsidePolicy
     else
       let upper0 = min (min (sample - duration_units (tp_minimum_presentation_age policy)) execution)
             (units (sr_state_at reference) 0 + duration_units (tp_maximum_reference_advance policy)) in
       if lower0 > upper0 then Inl OutsidePolicy
       else
         let lower = max lower0 (units (tx_oldest_history context) 0);
             upper = min upper0 (units (tx_newest_history context) 0) in
         if lower > upper then Inl MissingHistory else Inr (lower, upper))"

definition clamp_view :: "TimingContext \<Rightarrow> ViewRequest \<Rightarrow> nat \<Rightarrow> nat \<Rightarrow> TimingError + ValidatedView" where
  "clamp_view context request lower upper =
    (let requested = units (vr_viewed_at request) (vr_viewed_fraction request);
         query = clamp requested lower upper in
     case u64_try_from (query div 65536) of
       None \<Rightarrow> Inl TimingOverflow
     | Some tick \<Rightarrow> Inr \<lparr>vv_execution = tx_execution context, vv_query = tick,
         vv_fraction = of_nat (query mod 65536), vv_clamped = (query \<noteq> requested)\<rparr>)"

definition validate_view ::
  "TimingPolicy \<Rightarrow> TimingContext \<Rightarrow> ViewRequest \<Rightarrow> (SnapshotId \<Rightarrow> SentReference option) \<Rightarrow>
   TimingError + ValidatedView" where
  "validate_view policy context request sent_reference =
    (if tp_minimum_execution_lead policy > tp_maximum_execution_lead policy
        \<or> tp_minimum_presentation_age policy > tp_maximum_presentation_age policy
     then Inl InvalidPolicy
     else if tx_connection context = 0 \<or> tx_scene context = 0
        \<or> tx_arrival context > tx_execution context
        \<or> tx_oldest_history context > tx_newest_history context
        \<or> tx_newest_history context > tx_execution context
     then Inl InvalidContext
     else
       let sample = units (vr_sampled_at request) (vr_sampled_fraction request);
           arrival = units (tx_arrival context) 0;
           execution = units (tx_execution context) 0;
           latest_sample = arrival + duration_units (tp_maximum_future_sample policy) in
       if sample < arrival - duration_units (tp_maximum_sample_age policy) \<or> sample > latest_sample
       then Inl InvalidSample
       else if execution < sample then Inl InvalidExecutionLead
       else let lead = execution - sample in
       if \<not> (duration_units (tp_minimum_execution_lead policy) \<le> lead
             \<and> lead \<le> duration_units (tp_maximum_execution_lead policy))
       then Inl InvalidExecutionLead
       else if vr_reference request = 0 then Inl UnknownReference
       else case sent_reference (vr_reference request) of
         None \<Rightarrow> Inl UnknownReference
       | Some reference \<Rightarrow>
         (if sr_connection reference \<noteq> tx_connection context \<or> sr_scene reference \<noteq> tx_scene context
             \<or> sr_state_at reference > sr_sent_at reference \<or> sr_sent_at reference > tx_arrival context
          then Inl WrongReference
          else case view_window policy context sample execution reference of
            Inl e \<Rightarrow> Inl e
          | Inr (lower, upper) \<Rightarrow> clamp_view context request lower upper))"

section \<open>Lemmas\<close>

definition query_units :: "ValidatedView \<Rightarrow> nat" where
  "query_units v = units (vv_query v) (vv_fraction v)"

lemma units_split: "u64_try_from (q div 65536) = Some tick \<Longrightarrow> units tick (of_nat (q mod 65536)) = q"
  by (simp add: units_def u64_try_from_Some unat_of_nat take_bit_nat_eq_self)

lemma clamp_bounds: "lower \<le> upper \<Longrightarrow> lower \<le> clamp x lower upper \<and> clamp x lower upper \<le> upper"
  by (auto simp: clamp_def)

lemma units_less: "units tick fraction < 2 ^ 80"
proof -
  have "unat tick < 2 ^ 64" "unat fraction < 65536"
    using unat_less_2p[of tick] unat_less_2p[of fraction] by simp_all
  then show ?thesis
    by (simp add: units_def)
qed

lemma view_window_Inr:
  assumes "view_window policy context sample execution ref = Inr (lower, upper)"
  shows "lower \<le> upper" "upper \<le> execution"
    "execution - duration_units (tp_maximum_rewind policy) \<le> lower"
    "units (tx_oldest_history context) 0 \<le> lower" "upper \<le> units (tx_newest_history context) 0"
    "upper + duration_units (tp_minimum_presentation_age policy) \<le> sample"
    "sample \<le> lower + duration_units (tp_maximum_presentation_age policy)"
    "units (sr_state_at ref) 0 \<le> lower"
    "upper \<le> units (sr_state_at ref) 0 + duration_units (tp_maximum_reference_advance policy)"
proof -
  define a b c d x y z where "a = sample - duration_units (tp_maximum_presentation_age policy)"
    and "b = execution - duration_units (tp_maximum_rewind policy)"
    and "c = units (sr_state_at ref) 0" and "d = units (tx_oldest_history context) 0"
    and "x = sample - duration_units (tp_minimum_presentation_age policy)"
    and "y = c + duration_units (tp_maximum_reference_advance policy)"
    and "z = units (tx_newest_history context) 0"
  note window = a_def b_def c_def d_def x_def y_def z_def
  define l0 u0 l u where "l0 = max (max a b) c" and "u0 = min (min x execution) y"
    and "l = max l0 d" and "u = min u0 z"
  have "view_window policy context sample execution ref =
      (if sample < duration_units (tp_minimum_presentation_age policy) then Inl OutsidePolicy
       else if l0 > u0 then Inl OutsidePolicy else if l > u then Inl MissingHistory else Inr (l, u))"
    unfolding view_window_def Let_def window l0_def u0_def l_def u_def by (rule refl)
  then have eqs: "lower = l" "upper = u"
      and le: "lower \<le> upper" and age: "duration_units (tp_minimum_presentation_age policy) \<le> sample"
    using assms by (simp_all split: if_splits)
  note lower = eqs(1)[unfolded l_def l0_def] and upper = eqs(2)[unfolded u_def u0_def]
  show "lower \<le> upper"
    by (rule le)
  have "a \<le> lower" "b \<le> lower" "c \<le> lower" "d \<le> lower"
    unfolding lower by simp_all
  then show "execution - duration_units (tp_maximum_rewind policy) \<le> lower"
    "units (tx_oldest_history context) 0 \<le> lower" "units (sr_state_at ref) 0 \<le> lower"
    "sample \<le> lower + duration_units (tp_maximum_presentation_age policy)"
    unfolding window by linarith+
  have "upper \<le> x" "upper \<le> execution" "upper \<le> y" "upper \<le> z"
    unfolding upper by simp_all
  then show "upper \<le> execution" "upper \<le> units (tx_newest_history context) 0"
    "upper + duration_units (tp_minimum_presentation_age policy) \<le> sample"
    "upper \<le> units (sr_state_at ref) 0 + duration_units (tp_maximum_reference_advance policy)"
    using age unfolding window by linarith+
qed

lemma view_window_error: "view_window policy context sample execution ref \<noteq> Inl TimingOverflow"
  unfolding view_window_def Let_def
  by (simp only: sum.inject sum.distinct TimingError.distinct not_False_eq_True simp_thms split: if_split)

lemma clamp_view_Inr:
  assumes "clamp_view context request lower upper = Inr v" "lower \<le> upper"
  shows "lower \<le> query_units v" "query_units v \<le> upper" "vv_execution v = tx_execution context"
    "vv_clamped v \<longleftrightarrow> query_units v \<noteq> units (vr_viewed_at request) (vr_viewed_fraction request)"
  using assms clamp_bounds[OF assms(2)]
  by (auto simp: clamp_view_def query_units_def Let_def units_split split: option.splits)

lemma validate_view_Inr:
  assumes "validate_view policy context request sent_reference = Inr v"
  defines "sample \<equiv> units (vr_sampled_at request) (vr_sampled_fraction request)"
    and "execution \<equiv> units (tx_execution context) 0" and "arrival \<equiv> units (tx_arrival context) 0"
  obtains ref lower upper where "sent_reference (vr_reference request) = Some ref"
    "sr_connection ref = tx_connection context" "sr_scene ref = tx_scene context"
    "arrival - duration_units (tp_maximum_sample_age policy) \<le> sample"
    "sample \<le> arrival + duration_units (tp_maximum_future_sample policy)"
    "view_window policy context sample execution ref = Inr (lower, upper)"
    "clamp_view context request lower upper = Inr v"
  using assms(1) unfolding validate_view_def Let_def
  by (auto simp: sample_def execution_def arrival_def not_less split: if_splits option.splits sum.splits)

lemma clamp_view_fits: "upper < 2 ^ 80 \<Longrightarrow> lower \<le> upper \<Longrightarrow> clamp_view context request lower upper \<noteq> Inl e"
proof -
  assume "upper < 2 ^ 80" "lower \<le> upper"
  then have "clamp q lower upper < 2 ^ 64 * 65536" for q
    using clamp_bounds[of lower upper q] by simp
  then have "clamp q lower upper div 65536 < 2 ^ 64" for q
    by (simp add: div_less_iff_less_mult)
  then show ?thesis
    by (simp add: clamp_view_def Let_def u64_try_from_def)
qed

section \<open>Properties\<close>

text \<open>
  C33: A validated view is always inside what the authority can vouch for.  Whatever the client asks,
  an accepted query time is no later than execution, no further back than the rewind limit, inside
  the retained history, at least the minimum and at most the maximum presentation age before the
  sample, not before the state the client was really sent and not further past it than the policy
  allows; the sample itself is within the age and future bounds, and the query is the requested time
  exactly when it was not clamped.
\<close>

theorem validated_view_bounded:
  assumes "validate_view policy context request sent_reference = Inr v"
  shows "\<exists>ref. sent_reference (vr_reference request) = Some ref
    \<and> sr_connection ref = tx_connection context \<and> sr_scene ref = tx_scene context
    \<and> vv_execution v = tx_execution context
    \<and> (let q = query_units v;
           sample = units (vr_sampled_at request) (vr_sampled_fraction request);
           execution = units (tx_execution context) 0;
           arrival = units (tx_arrival context) 0 in
       q \<le> execution \<and> execution - duration_units (tp_maximum_rewind policy) \<le> q
       \<and> units (tx_oldest_history context) 0 \<le> q \<and> q \<le> units (tx_newest_history context) 0
       \<and> q + duration_units (tp_minimum_presentation_age policy) \<le> sample
       \<and> sample \<le> q + duration_units (tp_maximum_presentation_age policy)
       \<and> units (sr_state_at ref) 0 \<le> q
       \<and> q \<le> units (sr_state_at ref) 0 + duration_units (tp_maximum_reference_advance policy)
       \<and> arrival \<le> sample + duration_units (tp_maximum_sample_age policy)
       \<and> sample \<le> arrival + duration_units (tp_maximum_future_sample policy)
       \<and> (\<not> vv_clamped v \<longleftrightarrow> q = units (vr_viewed_at request) (vr_viewed_fraction request)))"
  using assms
proof (cases rule: validate_view_Inr)
  case (1 ref lower upper)
  note window = view_window_Inr[OF 1(6)]
  note view = clamp_view_Inr[OF 1(7) window(1)]
  show ?thesis
    using 1(1-5) window view by (intro exI[of _ ref]) (simp add: Let_def)
qed

theorem validated_view_bounded_witness:
  "\<exists>v. validate_view
      \<lparr>tp_maximum_sample_age = 10, tp_maximum_future_sample = 2, tp_minimum_execution_lead = 0,
       tp_maximum_execution_lead = 8, tp_minimum_presentation_age = 1, tp_maximum_presentation_age = 6,
       tp_maximum_rewind = 10, tp_maximum_reference_advance = 4\<rparr>
      \<lparr>tx_connection = 1, tx_scene = 1, tx_arrival = 100, tx_execution = 103, tx_oldest_history = 90,
       tx_newest_history = 102\<rparr>
      \<lparr>vr_sampled_at = 100, vr_sampled_fraction = 0, vr_viewed_at = 97, vr_viewed_fraction = 32768,
       vr_reference = 7\<rparr>
      (\<lambda>_. Some \<lparr>sr_connection = 1, sr_scene = 1, sr_state_at = 96, sr_sent_at = 97\<rparr>) = Inr v
    \<and> query_units v \<le> units 102 0"
proof -
  let ?policy = "\<lparr>tp_maximum_sample_age = 10, tp_maximum_future_sample = 2, tp_minimum_execution_lead = 0,
       tp_maximum_execution_lead = 8, tp_minimum_presentation_age = 1, tp_maximum_presentation_age = 6,
       tp_maximum_rewind = 10, tp_maximum_reference_advance = 4\<rparr>"
  let ?ctx = "\<lparr>tx_connection = 1, tx_scene = 1, tx_arrival = 100, tx_execution = 103,
       tx_oldest_history = 90, tx_newest_history = 102\<rparr>"
  let ?request = "\<lparr>vr_sampled_at = 100, vr_sampled_fraction = 0, vr_viewed_at = 97,
       vr_viewed_fraction = 32768, vr_reference = 7\<rparr>"
  let ?sent = "\<lambda>_. Some \<lparr>sr_connection = 1, sr_scene = 1, sr_state_at = 96, sr_sent_at = 97\<rparr>"
  obtain v where v: "validate_view ?policy ?ctx ?request ?sent = Inr v"
    by (simp add: validate_view_def view_window_def clamp_view_def clamp_def Let_def units_def
        duration_units_def u64_try_from_def)
  then show ?thesis
    using validated_view_bounded[OF v] by (simp add: Let_def)
qed

text \<open>
  Validation never reports an overflow: whatever the policy, context and request, the clamped
  query fits the tick counter, so that error is unreachable.
\<close>

lemma validate_view_no_overflow:
  "validate_view policy context request sent_reference \<noteq> Inl TimingOverflow"
proof
  assume overflow: "validate_view policy context request sent_reference = Inl TimingOverflow"
  then obtain sample execution ref lower upper where
      window: "view_window policy context sample execution ref = Inr (lower, upper)"
      and clamped: "clamp_view context request lower upper = Inl TimingOverflow"
      and execution: "execution = units (tx_execution context) 0"
    unfolding validate_view_def Let_def
    by (auto simp: view_window_error split: if_splits option.splits sum.splits)
  then show False
    using view_window_Inr(1,2)[OF window] units_less[of "tx_execution context" 0]
      clamp_view_fits[of upper lower "context" request TimingOverflow]
    by simp
qed

end
