(* ===== verification/Net_Outcomes.thy ===== *)
theory Net_Outcomes
  imports Net_Types
begin

text \<open>
  The terminal action-outcome ledger: \<open>engine/net/src/outcomes.rs\<close>.

  \<open>Payload::retained_bytes\<close> is the argument \<open>payload_bytes_of\<close> and the size of a record in memory the
  argument \<open>record_size\<close>.  The sequencer is an atomic counter that several ledgers may share, so its
  value is passed in and returned by \<open>finish\<close> rather than kept in the ledger.  The \<open>unwrap\<close> and
  the decrement in \<open>remove\<close> make it partial: \<open>None\<close> is a panic.
\<close>

section \<open>Data\<close>

record OutcomeLimits =
  lim_records :: usize
  lim_records_per_owner :: usize
  lim_retained_bytes :: usize
  lim_maximum_payload_bytes :: usize
  lim_retention_ticks :: u64

datatype OutcomeError = OutInvalid | OutCapacity | OutUnknown | OutConflict | SequenceExhausted

record 'p TerminalOutcome =
  to_sequence :: u64
  to_key :: ActionKey
  to_at :: ServerTick
  to_payload :: 'p

record 'p OutcomeRecord =
  or_owner :: u64
  or_terminal :: "'p TerminalOutcome option"
  or_reported :: bool
  or_delivery_closed :: bool

type_synonym delivery_map = "(u64 \<times> ConnectionEpoch, (u64 \<times> ActionKey) list) bt"

record 'p OutcomeLedger =
  ol_limits :: OutcomeLimits
  ol_records :: "(ActionKey, 'p OutcomeRecord) bt"
  ol_owners :: "(u64, usize) bt"
  ol_delivery :: delivery_map
  ol_charge :: usize

section \<open>Operations\<close>

definition outcome_ledger_new :: "usize \<Rightarrow> OutcomeLimits \<Rightarrow> OutcomeError + 'p OutcomeLedger" where
  "outcome_ledger_new record_size limits =
    (case usize_checked_add record_size 256 of
       None \<Rightarrow> Inl OutInvalid
     | Some n \<Rightarrow>
       (case usize_checked_add n (lim_maximum_payload_bytes limits) of
          None \<Rightarrow> Inl OutInvalid
        | Some charge \<Rightarrow>
          (if lim_records limits = 0 \<or> lim_records_per_owner limits = 0 \<or> lim_retention_ticks limits = 0
              \<or> lim_maximum_payload_bytes limits = 0 \<or> lim_retained_bytes limits < charge
           then Inl OutInvalid
           else Inr \<lparr>ol_limits = limits, ol_records = [], ol_owners = [], ol_delivery = [],
                     ol_charge = charge\<rparr>)))"

definition ledger_retained_bytes :: "'p OutcomeLedger \<Rightarrow> usize" where
  "ledger_retained_bytes s = length (ol_records s) * ol_charge s"

definition owned_count :: "u64 \<Rightarrow> 'p OutcomeLedger \<Rightarrow> usize" where
  "owned_count owner s = (case map_of (ol_owners s) owner of None \<Rightarrow> 0 | Some n \<Rightarrow> n)"

definition available_for :: "u64 \<Rightarrow> 'p OutcomeLedger \<Rightarrow> usize" where
  "available_for owner s =
    min (min (lim_records (ol_limits s) - length (ol_records s))
      (lim_records_per_owner (ol_limits s) - owned_count owner s))
      ((lim_retained_bytes (ol_limits s) - ledger_retained_bytes s) div ol_charge s)"

definition pending_outcomes :: "u64 \<Rightarrow> ConnectionEpoch \<Rightarrow> 'p OutcomeLedger \<Rightarrow> ActionKey list" where
  "pending_outcomes owner connection s =
    map fst (filter (\<lambda>(key, r). or_owner r = owner \<and> ak_connection key = connection
      \<and> or_terminal r = None) (ol_records s))"

definition close_delivery :: "u64 \<Rightarrow> ConnectionEpoch \<Rightarrow> 'p OutcomeLedger \<Rightarrow> 'p OutcomeLedger" where
  "close_delivery owner connection s =
    s\<lparr>ol_delivery := bt_remove (owner, connection) (ol_delivery s),
      ol_records := bt_map (\<lambda>key r. if or_owner r = owner \<and> ak_connection key = connection
        then r\<lparr>or_delivery_closed := True\<rparr> else r) (ol_records s)\<rparr>"

definition new_record :: "u64 \<Rightarrow> 'p OutcomeRecord" where
  "new_record owner =
    \<lparr>or_owner = owner, or_terminal = None, or_reported = False, or_delivery_closed = False\<rparr>"

definition key_invalid :: "ActionKey \<Rightarrow> bool" where
  "key_invalid key \<longleftrightarrow> ak_connection key = 0 \<or> ak_stream key = 0 \<or> ak_command key = 0 \<or> ak_slot key \<ge> 8"

definition outcome_reserve ::
  "u64 \<Rightarrow> ActionKey list \<Rightarrow> 'p OutcomeLedger \<Rightarrow> (OutcomeError + ActionKey list) \<times> 'p OutcomeLedger" where
  "outcome_reserve owner keys s =
    (if owner = 0 \<or> keys = [] \<or> length keys > 8 then (Inl OutInvalid, s)
     else if \<not> distinct keys \<or> (\<exists>key \<in> set keys. key_invalid key) then (Inl OutInvalid, s)
     else if \<exists>key \<in> set keys. (case map_of (ol_records s) key of
         None \<Rightarrow> False | Some r \<Rightarrow> or_owner r \<noteq> owner) then (Inl OutConflict, s)
     else let new = filter (\<lambda>key. \<not> bt_contains key (ol_records s)) keys in
       case usize_checked_add (length (ol_records s)) (length new) of
         None \<Rightarrow> (Inl OutCapacity, s)
       | Some tally \<Rightarrow>
         (let owned = owned_count owner s + length new in
          if tally > lim_records (ol_limits s)
             \<or> owned > lim_records_per_owner (ol_limits s)
             \<or> (case usize_checked_mul tally (ol_charge s) of
                  None \<Rightarrow> True | Some n \<Rightarrow> n > lim_retained_bytes (ol_limits s))
          then (Inl OutCapacity, s)
          else (Inr new,
            s\<lparr>ol_records := fold (\<lambda>key. bt_insert key (new_record owner)) new (ol_records s),
              ol_owners := (if owned \<noteq> 0 then bt_insert owner owned (ol_owners s) else ol_owners s)\<rparr>)))"

definition delivery_remove :: "u64 \<times> ConnectionEpoch \<Rightarrow> u64 \<times> ActionKey \<Rightarrow> delivery_map \<Rightarrow> delivery_map" where
  "delivery_remove oc e m =
    (case map_of m oc of
       None \<Rightarrow> m
     | Some l \<Rightarrow> (let l' = bs_remove e l in if l' = [] then bt_remove oc m else bt_insert oc l' m))"

definition delivery_insert :: "u64 \<times> ConnectionEpoch \<Rightarrow> u64 \<times> ActionKey \<Rightarrow> delivery_map \<Rightarrow> delivery_map" where
  "delivery_insert oc e m =
    bt_insert oc (bs_insert e (case map_of m oc of None \<Rightarrow> [] | Some l \<Rightarrow> l)) m"

definition outcome_remove :: "ActionKey \<Rightarrow> 'p OutcomeLedger \<Rightarrow> 'p OutcomeLedger option" where
  "outcome_remove key s =
    (case map_of (ol_records s) key of
       None \<Rightarrow> Some s
     | Some r \<Rightarrow>
       (let delivery = (case or_terminal r of
              None \<Rightarrow> ol_delivery s
            | Some t \<Rightarrow> delivery_remove (or_owner r, ak_connection key) (to_sequence t, key) (ol_delivery s)) in
        case map_of (ol_owners s) (or_owner r) of
          None \<Rightarrow> None
        | Some count \<Rightarrow>
          (if count = 0 then None
           else Some (s\<lparr>ol_records := bt_remove key (ol_records s), ol_delivery := delivery,
             ol_owners := (if count - 1 = 0 then bt_remove (or_owner r) (ol_owners s)
               else bt_insert (or_owner r) (count - 1) (ol_owners s))\<rparr>))))"

fun cancel_reservations :: "ActionKey list \<Rightarrow> 'p OutcomeLedger \<Rightarrow> 'p OutcomeLedger option" where
  "cancel_reservations [] s = Some s"
| "cancel_reservations (key # keys) s =
    (if (case map_of (ol_records s) key of None \<Rightarrow> False | Some r \<Rightarrow> or_terminal r = None)
     then (case outcome_remove key s of None \<Rightarrow> None | Some t \<Rightarrow> cancel_reservations keys t)
     else cancel_reservations keys s)"

definition outcome_finish ::
  "('p \<Rightarrow> nat) \<Rightarrow> u64 \<Rightarrow> ActionKey \<Rightarrow> ServerTick \<Rightarrow> 'p \<Rightarrow> u64 \<Rightarrow> 'p OutcomeLedger \<Rightarrow>
   (OutcomeError + u64) \<times> u64 \<times> 'p OutcomeLedger" where
  "outcome_finish payload_bytes_of owner key at payload counter s =
    (if payload_bytes_of payload > lim_maximum_payload_bytes (ol_limits s) then (Inl OutCapacity, counter, s)
     else case map_of (ol_records s) key of
       None \<Rightarrow> (Inl OutUnknown, counter, s)
     | Some r \<Rightarrow>
       (if or_owner r \<noteq> owner then (Inl OutUnknown, counter, s)
        else case or_terminal r of
          Some old \<Rightarrow>
            (if to_at old = at \<and> to_payload old = payload then (Inr (to_sequence old), counter, s)
             else (Inl OutConflict, counter, s))
        | None \<Rightarrow>
          (case checked_add counter 1 of
             None \<Rightarrow> (Inl SequenceExhausted, counter, s)
           | Some counter' \<Rightarrow>
             (let t = \<lparr>to_sequence = counter, to_key = key, to_at = at, to_payload = payload\<rparr> in
              (Inr counter, counter',
               s\<lparr>ol_records := bt_update key (\<lambda>r. r\<lparr>or_terminal := Some t\<rparr>) (ol_records s),
                 ol_delivery := (if \<not> or_delivery_closed r
                   then delivery_insert (owner, ak_connection key) (counter, key) (ol_delivery s)
                   else ol_delivery s)\<rparr>)))))"

definition outcome_lookup :: "u64 \<Rightarrow> ActionKey \<Rightarrow> 'p OutcomeLedger \<Rightarrow> 'p TerminalOutcome option" where
  "outcome_lookup owner key s =
    (case map_of (ol_records s) key of
       None \<Rightarrow> None | Some r \<Rightarrow> if or_owner r = owner then or_terminal r else None)"

definition unreported :: "u64 \<Rightarrow> ConnectionEpoch \<Rightarrow> 'p OutcomeLedger \<Rightarrow> 'p TerminalOutcome list" where
  "unreported owner connection s =
    (case map_of (ol_delivery s) (owner, connection) of
       None \<Rightarrow> []
     | Some l \<Rightarrow> List.map_filter (\<lambda>(_, key). case map_of (ol_records s) key of
         None \<Rightarrow> None | Some r \<Rightarrow> or_terminal r) l)"

definition report_one :: "u64 \<Rightarrow> ActionKey \<Rightarrow> 'p OutcomeLedger \<Rightarrow> 'p OutcomeLedger" where
  "report_one owner key s =
    (case map_of (ol_records s) key of
       None \<Rightarrow> s
     | Some r \<Rightarrow>
       (case or_terminal r of
          None \<Rightarrow> s
        | Some t \<Rightarrow>
          s\<lparr>ol_records := bt_update key (\<lambda>r. r\<lparr>or_reported := True\<rparr>) (ol_records s),
            ol_delivery := delivery_remove (owner, ak_connection key) (to_sequence t, key) (ol_delivery s)\<rparr>))"

definition outcome_reported ::
  "u64 \<Rightarrow> ActionKey list \<Rightarrow> 'p OutcomeLedger \<Rightarrow> (OutcomeError + unit) \<times> 'p OutcomeLedger" where
  "outcome_reported owner keys s =
    (if \<exists>key \<in> set keys. (case map_of (ol_records s) key of
         None \<Rightarrow> True | Some r \<Rightarrow> or_owner r \<noteq> owner \<or> or_terminal r = None)
     then (Inl OutUnknown, s)
     else (Inr (), fold (report_one owner) keys s))"

definition outcome_expired :: "ServerTick \<Rightarrow> u64 \<Rightarrow> 'p OutcomeRecord \<Rightarrow> bool" where
  "outcome_expired now retention r \<longleftrightarrow> (or_reported r \<or> or_delivery_closed r) \<and>
    (case or_terminal r of None \<Rightarrow> False | Some t \<Rightarrow> saturating_sub now (to_at t) \<ge> retention)"

fun remove_all :: "ActionKey list \<Rightarrow> 'p OutcomeLedger \<Rightarrow> 'p OutcomeLedger option" where
  "remove_all [] s = Some s"
| "remove_all (key # keys) s = (case outcome_remove key s of None \<Rightarrow> None | Some t \<Rightarrow> remove_all keys t)"

definition outcome_expire :: "ServerTick \<Rightarrow> 'p OutcomeLedger \<Rightarrow> 'p OutcomeLedger option" where
  "outcome_expire now s =
    remove_all (map fst (filter (\<lambda>(key, r). outcome_expired now (lim_retention_ticks (ol_limits s)) r)
      (ol_records s))) s"

end
