(* ===== verification/Net_Outcome_Facts.thy ===== *)
theory Net_Outcome_Facts
  imports Net_Outcomes
begin

text \<open>
  Correctness of the outcome ledger: exact accounting per owner and in bytes, the delivery index as
  exactly the terminal, unreported, still deliverable outcomes, immutability of terminal results, and
  absence of panics.
\<close>

section \<open>Invariant\<close>

definition owner_count :: "u64 \<Rightarrow> (ActionKey, 'p OutcomeRecord) bt \<Rightarrow> nat" where
  "owner_count owner m = bt_sum (\<lambda>_ r. if or_owner r = owner then 1 else 0) m"

definition due_entry :: "u64 \<times> ConnectionEpoch \<Rightarrow> ActionKey \<Rightarrow> 'p OutcomeRecord \<Rightarrow> u64 option" where
  "due_entry oc k r =
    (if oc = (or_owner r, ak_connection k) \<and> \<not> or_reported r \<and> \<not> or_delivery_closed r
     then map_option to_sequence (or_terminal r) else None)"

definition due_set :: "u64 \<times> ConnectionEpoch \<Rightarrow> (ActionKey, 'p OutcomeRecord) bt \<Rightarrow> (u64 \<times> ActionKey) set" where
  "due_set oc m = {e. case map_of m (snd e) of None \<Rightarrow> False | Some r \<Rightarrow> due_entry oc (snd e) r = Some (fst e)}"

definition delivery_set :: "delivery_map \<Rightarrow> u64 \<times> ConnectionEpoch \<Rightarrow> (u64 \<times> ActionKey) set" where
  "delivery_set m oc = (case map_of m oc of None \<Rightarrow> {} | Some l \<Rightarrow> set l)"

definition delivery_wf :: "delivery_map \<Rightarrow> bool" where
  "delivery_wf m \<longleftrightarrow> bt_ok m \<and> (\<forall>oc l. map_of m oc = Some l \<longrightarrow> bs_ok l \<and> l \<noteq> [])"

definition counts_ok :: "'p OutcomeLedger \<Rightarrow> bool" where
  "counts_ok s \<longleftrightarrow> bt_ok (ol_owners s) \<and> (\<forall>owner. map_of (ol_owners s) owner =
    (if owner_count owner (ol_records s) = 0 then None else Some (owner_count owner (ol_records s))))"

definition caps_ok :: "'p OutcomeLedger \<Rightarrow> bool" where
  "caps_ok s \<longleftrightarrow> 0 < ol_charge s \<and> length (ol_records s) \<le> lim_records (ol_limits s)
    \<and> (\<forall>owner. owner_count owner (ol_records s) \<le> lim_records_per_owner (ol_limits s))
    \<and> ledger_retained_bytes s \<le> lim_retained_bytes (ol_limits s)"

definition terminal_of :: "(ActionKey, 'p OutcomeRecord) bt \<Rightarrow> ActionKey \<Rightarrow> 'p TerminalOutcome option" where
  "terminal_of m k = Option.bind (map_of m k) or_terminal"

definition terminals_ok :: "u64 \<Rightarrow> (ActionKey, 'p OutcomeRecord) bt \<Rightarrow> bool" where
  "terminals_ok counter m \<longleftrightarrow>
    (\<forall>k r. map_of m k = Some r \<and> or_terminal r = None \<longrightarrow> \<not> or_reported r)
    \<and> (\<forall>k t. terminal_of m k = Some t \<longrightarrow> to_key t = k \<and> to_sequence t < counter)
    \<and> (\<forall>k k' t t'. terminal_of m k = Some t \<and> terminal_of m k' = Some t'
        \<and> to_sequence t = to_sequence t' \<longrightarrow> k = k')"

definition ledger_ok :: "u64 \<Rightarrow> 'p OutcomeLedger \<Rightarrow> bool" where
  "ledger_ok counter s \<longleftrightarrow> bt_ok (ol_records s) \<and> counts_ok s \<and> caps_ok s
    \<and> terminals_ok counter (ol_records s)
    \<and> delivery_wf (ol_delivery s) \<and> (\<forall>oc. delivery_set (ol_delivery s) oc = due_set oc (ol_records s))"

section \<open>Delivery index\<close>

text \<open>How the due outcomes change when exactly one record changes.\<close>

lemma due_set_change:
  assumes others: "\<And>k'. k' \<noteq> k \<Longrightarrow> map_of m' k' = map_of m k'"
    and self: "map_of m k = r" "map_of m' k = r'"
    and old: "Option.bind r (due_entry oc k) = q" and new: "Option.bind r' (due_entry oc k) = q'"
  shows "due_set oc m' = due_set oc m - (\<lambda>x. (x, k)) ` set_option q \<union> (\<lambda>x. (x, k)) ` set_option q'"
proof (rule set_eqI)
  fix e :: "u64 \<times> ActionKey"
  obtain x k' where e: "e = (x, k')"
    by (cases e)
  show "e \<in> due_set oc m' \<longleftrightarrow>
      e \<in> due_set oc m - (\<lambda>x. (x, k)) ` set_option q \<union> (\<lambda>x. (x, k)) ` set_option q'"
    using self old new others[of k'] unfolding e due_set_def
    by (cases "k' = k"; cases r; cases r') auto
qed

lemma delivery_wf_remove_entry: "delivery_wf m \<Longrightarrow> delivery_wf (bt_remove oc m)"
  by (auto simp: delivery_wf_def)

lemma delivery_set_remove_entry: "delivery_set (bt_remove oc m) x = (if x = oc then {} else delivery_set m x)"
  by (simp add: delivery_set_def)

lemma delivery_remove_ok:
  assumes "delivery_wf m"
  shows "delivery_wf (delivery_remove oc e m)"
    and "delivery_set (delivery_remove oc e m) x = (if x = oc then delivery_set m x - {e} else delivery_set m x)"
proof -
  have bt: "bt_ok m"
    using assms by (simp add: delivery_wf_def)
  show "delivery_wf (delivery_remove oc e m)"
    using assms bt by (auto simp: delivery_remove_def delivery_wf_def Let_def split: option.split)
  show "delivery_set (delivery_remove oc e m) x = (if x = oc then delivery_set m x - {e} else delivery_set m x)"
    using bt
    by (auto simp: delivery_remove_def delivery_set_def Let_def bs_remove_def filter_empty_conv
        split: option.splits)
qed

lemma bs_insert_not_Nil [simp]: "bs_insert e l \<noteq> []"
  by (cases l) simp_all

lemma delivery_insert_ok:
  assumes "delivery_wf m"
  shows "delivery_wf (delivery_insert oc e m)"
    and "delivery_set (delivery_insert oc e m) x =
      (if x = oc then insert e (delivery_set m x) else delivery_set m x)"
proof -
  have bt: "bt_ok m"
    using assms by (simp add: delivery_wf_def)
  show "delivery_wf (delivery_insert oc e m)"
    using assms bt by (auto simp: delivery_insert_def delivery_wf_def bs_ok_Cons split: option.splits)
  show "delivery_set (delivery_insert oc e m) x =
      (if x = oc then insert e (delivery_set m x) else delivery_set m x)"
    using bt by (auto simp: delivery_insert_def delivery_set_def split: option.splits)
qed

text \<open>A record's entry can only be listed under its own owner and connection.\<close>

lemma due_absent:
  assumes "terminals_ok counter m" "\<And>oc. delivery_set d oc = due_set oc m" "map_of m k = Some r"
    and "oc = (or_owner r, ak_connection k)" "or_terminal r = Some t" "or_reported r \<or> or_delivery_closed r"
  shows "(to_sequence t, k) \<notin> delivery_set d oc"
  using assms by (simp add: due_set_def due_entry_def)

section \<open>Owner counts\<close>

lemma owner_count_insert:
  assumes "bt_ok m" "map_of m k = None"
  shows "owner_count owner (bt_insert k r m) = owner_count owner m + (if or_owner r = owner then 1 else 0)"
  using assms by (simp add: owner_count_def btm.fresh_total)

lemma owner_count_remove:
  assumes "bt_ok m" "map_of m k = Some r"
  shows "owner_count owner (bt_remove k m) + (if or_owner r = owner then 1 else 0) = owner_count owner m"
  using bt_sum_remove[OF assms(1), of "\<lambda>_ r. if or_owner r = owner then 1 else 0" k] assms(2)
  by (simp add: owner_count_def)

lemma owner_count_bt_map:
  "(\<And>k r. or_owner (f k r) = or_owner r) \<Longrightarrow> owner_count owner (bt_map f m) = owner_count owner m"
  by (induction m) (auto simp: owner_count_def bt_map_def)

lemma owner_count_update:
  "(\<And>r. or_owner (f r) = or_owner r) \<Longrightarrow> owner_count owner (bt_update k f m) = owner_count owner m"
  unfolding bt_update_def by (rule owner_count_bt_map) simp

lemma owner_count_le_length: "owner_count owner m \<le> length m"
  by (induction m) (auto simp: owner_count_def)

section \<open>Single-record changes\<close>

lemma terminals_ok_shrink:
  assumes "terminals_ok counter m"
    and "\<And>k r. map_of m' k = Some r \<Longrightarrow> \<exists>r0. map_of m k = Some r0 \<and> or_terminal r0 = or_terminal r
      \<and> (or_terminal r = None \<longrightarrow> or_reported r = or_reported r0)"
  shows "terminals_ok counter m'"
proof -
  have kept: "terminal_of m k = Some t" if "terminal_of m' k = Some t" for k t
    using that assms(2) by (fastforce simp: terminal_of_def bind_eq_Some_conv)
  have rep: "\<not> or_reported r" if "map_of m' k = Some r" "or_terminal r = None" for k r
    using assms(2)[OF that(1)] assms(1) that(2) unfolding terminals_ok_def by metis
  show ?thesis
    using assms(1) kept rep unfolding terminals_ok_def by blast
qed

lemma terminals_ok_finish:
  assumes "terminals_ok counter m" "map_of m key = Some r" "or_terminal r = None" "counter < counter'"
    "to_key out = key" "to_sequence out = counter"
  shows "terminals_ok counter' (bt_update key (\<lambda>r. r\<lparr>or_terminal := Some out\<rparr>) m)"
proof -
  let ?m = "bt_update key (\<lambda>r. r\<lparr>or_terminal := Some out\<rparr>) m"
  have upd: "terminal_of ?m k = (if k = key then Some out else terminal_of m k)" for k
    using assms(2) by (simp add: terminal_of_def)
  have old: "to_key t = k" "to_sequence t < counter" if "terminal_of m k = Some t" for k t
    using assms(1) that unfolding terminals_ok_def by blast+
  have uniq: "k = k'" if "terminal_of m k = Some t" "terminal_of m k' = Some t'"
      "to_sequence t = to_sequence t'" for k k' t t'
    using assms(1) that unfolding terminals_ok_def by blast
  have rep: "\<not> or_reported x" if "map_of ?m k = Some x" "or_terminal x = None" for k x
    using assms(1-3) that unfolding terminals_ok_def by (auto split: if_splits)
  have "to_key t = k \<and> to_sequence t < counter'" if "terminal_of ?m k = Some t" for k t
    using that assms(4-6) old[of k t] unfolding upd by (auto split: if_splits dest: less_trans)
  moreover have "k = k'" if "terminal_of ?m k = Some t" "terminal_of ?m k' = Some t'"
      "to_sequence t = to_sequence t'" for k k' t t'
    using that assms(6) old(2)[of k t] old(2)[of k' t'] uniq[of k t k' t'] unfolding upd
    by (auto split: if_splits)
  ultimately show ?thesis
    using rep unfolding terminals_ok_def by blast
qed

lemma caps_ok_shrink:
  assumes caps: "caps_ok s" and len: "length (ol_records t) \<le> length (ol_records s)"
    and counts: "\<And>x. owner_count x (ol_records t) \<le> owner_count x (ol_records s)"
    and same: "ol_limits t = ol_limits s" "ol_charge t = ol_charge s"
  shows "caps_ok t"
proof -
  have "ledger_retained_bytes t \<le> ledger_retained_bytes s"
    unfolding ledger_retained_bytes_def same using len by (rule mult_le_mono1)
  then show ?thesis
    using caps len counts unfolding caps_ok_def same by (meson le_trans)
qed

lemma outcome_remove_ok:
  assumes ok: "ledger_ok counter s"
  shows "\<exists>t. outcome_remove key s = Some t \<and> ledger_ok counter t
    \<and> map_of (ol_records t) = (map_of (ol_records s))(key := None) \<and> ol_limits t = ol_limits s"
proof (cases "map_of (ol_records s) key")
  case None
  then show ?thesis
    using ok by (auto simp: outcome_remove_def fun_upd_idem)
next
  case (Some r)
  have parts: "bt_ok (ol_records s)" "counts_ok s" "caps_ok s" "terminals_ok counter (ol_records s)"
      "delivery_wf (ol_delivery s)" "\<And>oc. delivery_set (ol_delivery s) oc = due_set oc (ol_records s)"
    using ok unfolding ledger_ok_def by blast+
  define n where "n = owner_count (or_owner r) (ol_records s)"
  have n: "n = owner_count (or_owner r) (bt_remove key (ol_records s)) + 1"
    using owner_count_remove[OF parts(1) Some, of "or_owner r"] by (simp add: n_def)
  define delivery where "delivery = (case or_terminal r of None \<Rightarrow> ol_delivery s
      | Some t \<Rightarrow> delivery_remove (or_owner r, ak_connection key) (to_sequence t, key) (ol_delivery s))"
  define t where "t = s\<lparr>ol_records := bt_remove key (ol_records s), ol_delivery := delivery,
      ol_owners := (if n - 1 = 0 then bt_remove (or_owner r) (ol_owners s)
        else bt_insert (or_owner r) (n - 1) (ol_owners s))\<rparr>"
  have lookup: "map_of (ol_owners s) (or_owner r) = Some n"
    using parts(2) n by (simp add: counts_ok_def n_def)
  then have step: "outcome_remove key s = Some t"
    using Some n by (simp add: outcome_remove_def t_def delivery_def)
  have "counts_ok t"
    unfolding counts_ok_def
  proof (intro conjI allI)
    show "bt_ok (ol_owners t)"
      using parts(2) by (simp add: t_def counts_ok_def)
    fix x
    show "map_of (ol_owners t) x =
        (if owner_count x (ol_records t) = 0 then None else Some (owner_count x (ol_records t)))"
      using parts(2) owner_count_remove[OF parts(1) Some, of x] n
      by (cases "x = or_owner r") (auto simp: counts_ok_def t_def)
  qed
  moreover have "caps_ok t"
  proof (rule caps_ok_shrink[OF parts(3)])
    show "owner_count x (ol_records t) \<le> owner_count x (ol_records s)" for x
      using owner_count_remove[OF parts(1) Some, of x] by (simp add: t_def)
  qed (simp_all add: t_def)
  moreover have "terminals_ok counter (ol_records t)"
    by (rule terminals_ok_shrink[OF parts(4)]) (auto simp: t_def split: if_splits)
  moreover have "delivery_wf (ol_delivery t)"
    using parts(5) delivery_remove_ok(1) by (simp add: t_def delivery_def split: option.split)
  moreover have "delivery_set (ol_delivery t) oc = due_set oc (ol_records t)" for oc
  proof -
    have "due_set oc (ol_records t) = due_set oc (ol_records s) - (\<lambda>x. (x, key)) ` set_option (due_entry oc key r)"
      using due_set_change[where k = key and m = "ol_records s" and m' = "ol_records t" and r = "Some r"
          and r' = None and oc = oc] Some
      by (simp add: t_def)
    then show ?thesis
      unfolding parts(6)[symmetric] using delivery_remove_ok(2)[OF parts(5)] due_absent[OF parts(4,6) Some]
      by (auto simp: t_def delivery_def due_entry_def split: option.splits)
  qed
  ultimately have "ledger_ok counter t"
    using parts(1) by (simp add: ledger_ok_def t_def)
  then show ?thesis
    using step by (simp add: t_def)
qed

lemma ledger_ok_records_update:
  assumes ok: "ledger_ok counter s"
    and keys: "map fst (ol_records t) = map fst (ol_records s)"
    and counts: "\<And>x. owner_count x (ol_records t) = owner_count x (ol_records s)"
    and same: "ol_limits t = ol_limits s" "ol_charge t = ol_charge s" "ol_owners t = ol_owners s"
    and terminals: "terminals_ok counter' (ol_records t)"
    and delivery: "delivery_wf (ol_delivery t)" "\<And>oc. delivery_set (ol_delivery t) oc = due_set oc (ol_records t)"
  shows "ledger_ok counter' t"
proof -
  have "length (ol_records t) = length (ol_records s)"
    using keys by (metis length_map)
  moreover have "bt_ok (ol_records t)" "counts_ok t"
    using ok keys counts same by (simp_all add: ledger_ok_def bt_ok_def counts_ok_def)
  moreover have "caps_ok t"
    using caps_ok_shrink[of s t] ok calculation(1) counts same by (simp add: ledger_ok_def)
  ultimately show ?thesis
    using terminals delivery unfolding ledger_ok_def by blast
qed

lemma close_delivery_ok:
  assumes ok: "ledger_ok counter s"
  shows "ledger_ok counter (close_delivery owner connection s)"
proof (rule ledger_ok_records_update[OF ok])
  let ?t = "close_delivery owner connection s"
  have parts: "terminals_ok counter (ol_records s)" "delivery_wf (ol_delivery s)"
      "\<And>oc. delivery_set (ol_delivery s) oc = due_set oc (ol_records s)"
    using ok unfolding ledger_ok_def by blast+
  show "owner_count x (ol_records ?t) = owner_count x (ol_records s)" for x
    by (simp add: close_delivery_def owner_count_bt_map)
  show "terminals_ok counter (ol_records ?t)"
    by (rule terminals_ok_shrink[OF parts(1)]) (auto simp: close_delivery_def)
  show "delivery_wf (ol_delivery ?t)"
    using parts(2) by (simp add: close_delivery_def delivery_wf_remove_entry)
  show "delivery_set (ol_delivery ?t) oc = due_set oc (ol_records ?t)" for oc
  proof (rule set_eqI)
    fix e :: "u64 \<times> ActionKey"
    have "e \<in> delivery_set (ol_delivery ?t) oc \<longleftrightarrow>
        oc \<noteq> (owner, connection) \<and> e \<in> due_set oc (ol_records s)"
      by (simp add: close_delivery_def delivery_set_remove_entry parts(3))
    also have "\<dots> \<longleftrightarrow> e \<in> due_set oc (ol_records ?t)"
      by (cases "map_of (ol_records s) (snd e)") (auto simp: close_delivery_def due_set_def due_entry_def)
    finally show "e \<in> delivery_set (ol_delivery ?t) oc \<longleftrightarrow> e \<in> due_set oc (ol_records ?t)" .
  qed
qed (simp_all add: close_delivery_def)

lemma report_one_ok:
  assumes ok: "ledger_ok counter s" and owner: "map_of (ol_records s) key = Some r" "or_owner r = owner"
  shows "ledger_ok counter (report_one owner key s)"
proof (cases "or_terminal r")
  case None
  then show ?thesis
    using ok owner by (simp add: report_one_def)
next
  case (Some t)
  have parts: "terminals_ok counter (ol_records s)" "delivery_wf (ol_delivery s)"
      "\<And>oc. delivery_set (ol_delivery s) oc = due_set oc (ol_records s)"
    using ok unfolding ledger_ok_def by blast+
  define u where "u = report_one owner key s"
  have u: "ol_records u = bt_update key (\<lambda>r. r\<lparr>or_reported := True\<rparr>) (ol_records s)"
      "ol_delivery u = delivery_remove (owner, ak_connection key) (to_sequence t, key) (ol_delivery s)"
      "ol_limits u = ol_limits s" "ol_charge u = ol_charge s" "ol_owners u = ol_owners s"
    using Some owner by (simp_all add: u_def report_one_def)
  have "ledger_ok counter u"
  proof (rule ledger_ok_records_update[OF ok])
    show "map fst (ol_records u) = map fst (ol_records s)"
      by (simp add: u bt_update_def)
    show "owner_count x (ol_records u) = owner_count x (ol_records s)" for x
      by (simp add: u owner_count_update)
    show "terminals_ok counter (ol_records u)"
      using owner(1) Some
      by (intro terminals_ok_shrink[OF parts(1)]) (auto simp: u split: if_splits)
    show "delivery_wf (ol_delivery u)"
      using parts(2) by (simp add: u delivery_remove_ok)
    show "delivery_set (ol_delivery u) oc = due_set oc (ol_records u)" for oc
    proof -
      have "due_set oc (ol_records u) = due_set oc (ol_records s) - (\<lambda>x. (x, key)) ` set_option (due_entry oc key r)"
        using due_set_change[where k = key and m = "ol_records s" and m' = "ol_records u" and r = "Some r"
            and r' = "Some (r\<lparr>or_reported := True\<rparr>)" and oc = oc] owner
        by (simp add: u due_entry_def)
      then show ?thesis
        unfolding parts(3)[symmetric] using due_absent[OF parts(1,3) owner(1)] owner(2) Some
        by (auto simp: u delivery_remove_ok[OF parts(2)] due_entry_def)
    qed
  qed (simp_all add: u)
  then show ?thesis
    by (simp add: u_def)
qed

lemma outcome_finish_ok:
  assumes ok: "ledger_ok counter s" and fin: "outcome_finish sz owner key at p counter s = (res, counter', t)"
  shows "ledger_ok counter' t \<and> counter \<le> counter'"
proof (cases "t = s \<and> counter' = counter")
  case True
  then show ?thesis
    using ok by simp
next
  case False
  then obtain r where r: "map_of (ol_records s) key = Some r" "or_owner r = owner" "or_terminal r = None"
      and c: "checked_add counter 1 = Some counter'"
    using fin by (auto simp: outcome_finish_def Let_def split: if_splits option.splits)
  define out where "out = \<lparr>to_sequence = counter, to_key = key, to_at = at, to_payload = p\<rparr>"
  have t: "ol_records t = bt_update key (\<lambda>r. r\<lparr>or_terminal := Some out\<rparr>) (ol_records s)"
      "ol_delivery t = (if \<not> or_delivery_closed r then delivery_insert (owner, ak_connection key) (counter, key)
         (ol_delivery s) else ol_delivery s)"
      "ol_limits t = ol_limits s" "ol_charge t = ol_charge s" "ol_owners t = ol_owners s"
    using fin False r by (auto simp: outcome_finish_def Let_def out_def split: if_splits option.splits)
  have parts: "terminals_ok counter (ol_records s)" "delivery_wf (ol_delivery s)"
      "\<And>oc. delivery_set (ol_delivery s) oc = due_set oc (ol_records s)"
    using ok unfolding ledger_ok_def by blast+
  have less: "counter < counter'"
    using c checked_next_less[of counter counter'] by (simp add: checked_next_def)
  have "ledger_ok counter' t"
  proof (rule ledger_ok_records_update[OF ok])
    show "map fst (ol_records t) = map fst (ol_records s)"
      by (simp add: t bt_update_def)
    show "owner_count x (ol_records t) = owner_count x (ol_records s)" for x
      by (simp add: t owner_count_update)
    show "terminals_ok counter' (ol_records t)"
      unfolding t by (rule terminals_ok_finish[OF parts(1) r(1,3) less]) (simp_all add: out_def)
    show "delivery_wf (ol_delivery t)"
      using parts(2) by (simp add: t delivery_insert_ok)
    show "delivery_set (ol_delivery t) oc = due_set oc (ol_records t)" for oc
    proof -
      have unreported: "\<not> or_reported r"
        using parts(1) r unfolding terminals_ok_def by blast
      have "due_set oc (ol_records t) = due_set oc (ol_records s)
          \<union> (\<lambda>x. (x, key)) ` set_option (due_entry oc key (r\<lparr>or_terminal := Some out\<rparr>))"
        using due_set_change[where k = key and m = "ol_records s" and m' = "ol_records t" and r = "Some r"
            and r' = "Some (r\<lparr>or_terminal := Some out\<rparr>)" and oc = oc] r
        by (simp add: t due_entry_def)
      then show ?thesis
        unfolding parts(3)[symmetric] using r unreported
        by (auto simp: t delivery_insert_ok[OF parts(2)] due_entry_def out_def)
    qed
  qed (simp_all add: t)
  then show ?thesis
    using less by simp
qed

section \<open>Reservation\<close>

lemma reserve_fold:
  fixes owner :: u64 and m :: "(ActionKey, 'p OutcomeRecord) bt"
  assumes "bt_ok m" "distinct new" "\<forall>k \<in> set new. map_of m k = None"
    and "m' = fold (\<lambda>key. bt_insert key (new_record owner)) new m"
  shows "bt_ok m' \<and> (\<forall>k. map_of m' k = (if k \<in> set new then Some (new_record owner) else map_of m k))
    \<and> length m' = length m + length new
    \<and> (\<forall>x. owner_count x m' = owner_count x m + (if x = owner then length new else 0))"
  using assms
proof (induction new arbitrary: m)
  case (Cons key new)
  let ?m = "bt_insert key (new_record owner) m"
  have "\<forall>k \<in> set new. map_of ?m k = None"
    using Cons.prems by auto
  with Cons.IH[of ?m] Cons.prems show ?case
    by (auto simp: length_bt_insert owner_count_insert new_record_def)
qed simp

lemma reserve_cases:
  assumes "outcome_reserve owner keys s = (res, t)"
  obtains (refused) e where "res = Inl e" "t = s"
  | (granted) new where "res = Inr new" "new = filter (\<lambda>key. \<not> bt_contains key (ol_records s)) keys"
      "distinct keys" "length (ol_records s) + length new \<le> lim_records (ol_limits s)"
      "owned_count owner s + length new \<le> lim_records_per_owner (ol_limits s)"
      "(length (ol_records s) + length new) * ol_charge s \<le> lim_retained_bytes (ol_limits s)"
      "t = s\<lparr>ol_records := fold (\<lambda>key. bt_insert key (new_record owner)) new (ol_records s),
         ol_owners := (if owned_count owner s + length new \<noteq> 0
           then bt_insert owner (owned_count owner s + length new) (ol_owners s) else ol_owners s)\<rparr>"
proof (cases res)
  case (Inl e)
  then have "t = s"
    using assms by (auto simp: outcome_reserve_def Let_def split: if_splits option.splits)
  with Inl show thesis
    by (rule refused)
next
  case (Inr new)
  show thesis
    by (rule granted[of new])
      (use assms Inr in \<open>auto simp: outcome_reserve_def Let_def usize_checked_add_def usize_checked_mul_def
        split: if_splits option.splits\<close>)
qed

lemma outcome_reserve_ok:
  assumes ok: "ledger_ok counter s" and res: "outcome_reserve owner keys s = (res, t)"
  shows "ledger_ok counter t"
  using res
proof (cases rule: reserve_cases)
  case refused
  with ok show ?thesis
    by simp
next
  case (granted new)
  have parts: "bt_ok (ol_records s)" "counts_ok s" "caps_ok s" "terminals_ok counter (ol_records s)"
      "delivery_wf (ol_delivery s)" "\<And>oc. delivery_set (ol_delivery s) oc = due_set oc (ol_records s)"
    using ok unfolding ledger_ok_def by blast+
  have new: "distinct new" "\<forall>k \<in> set new. map_of (ol_records s) k = None"
    using granted(2,3) by (simp_all add: bt_contains_def)
  define m where "m = fold (\<lambda>key. bt_insert key (new_record owner)) new (ol_records s)"
  have t: "ol_records t = m" "ol_owners t = (if owned_count owner s + length new \<noteq> 0
      then bt_insert owner (owned_count owner s + length new) (ol_owners s) else ol_owners s)"
      "ol_limits t = ol_limits s" "ol_charge t = ol_charge s" "ol_delivery t = ol_delivery s"
    using granted(7) by (simp_all add: m_def)
  have m: "bt_ok m" "\<And>k. map_of m k = (if k \<in> set new then Some (new_record owner) else map_of (ol_records s) k)"
      "length m = length (ol_records s) + length new"
      "\<And>x. owner_count x m = owner_count x (ol_records s) + (if x = owner then length new else 0)"
    using reserve_fold[OF parts(1) new m_def] by blast+
  have owned: "owned_count x s = owner_count x (ol_records s)" for x
    using parts(2) by (simp add: owned_count_def counts_ok_def)
  have "counts_ok t"
    using parts(2) m(4) unfolding counts_ok_def t owned by auto
  moreover have "owner_count x m \<le> lim_records_per_owner (ol_limits s)" for x
    using granted(5) parts(3) unfolding m(4) owned caps_ok_def by auto
  then have "caps_ok t"
    using granted(4,6) parts(3) m(3) unfolding caps_ok_def t ledger_retained_bytes_def by simp
  moreover have "terminals_ok counter m"
  proof -
    have same: "terminal_of m = terminal_of (ol_records s)"
      using new(2) by (auto simp: terminal_of_def m(2) new_record_def fun_eq_iff)
    have "\<not> or_reported r" if "map_of m k = Some r" "or_terminal r = None" for k r
      using parts(4) that unfolding m(2) terminals_ok_def by (auto simp: new_record_def split: if_splits)
    then show ?thesis
      using parts(4) unfolding terminals_ok_def same by blast
  qed
  moreover have "due_set oc m = due_set oc (ol_records s)" for oc
    using new(2) by (auto simp: due_set_def m(2) new_record_def due_entry_def split: if_splits option.splits)
  ultimately show ?thesis
    using m(1) parts(5,6) unfolding ledger_ok_def t by simp
qed

section \<open>Removal loops and reporting\<close>

lemma remove_all_ok:
  assumes "ledger_ok counter s"
  shows "\<exists>t. remove_all keys s = Some t \<and> ledger_ok counter t \<and> ol_limits t = ol_limits s
    \<and> (\<forall>k. map_of (ol_records t) k = (if k \<in> set keys then None else map_of (ol_records s) k))"
  using assms
proof (induction keys arbitrary: s)
  case (Cons key keys)
  obtain u where u: "outcome_remove key s = Some u" "ledger_ok counter u" "ol_limits u = ol_limits s"
      "map_of (ol_records u) = (map_of (ol_records s))(key := None)"
    using outcome_remove_ok[OF Cons.prems] by blast
  from Cons.IH[OF u(2)] u(1,3,4) show ?case
    by auto
qed simp

lemma cancel_ok:
  assumes "ledger_ok counter s"
  shows "\<exists>t. cancel_reservations keys s = Some t \<and> ledger_ok counter t \<and> ol_limits t = ol_limits s
    \<and> (\<forall>k. terminal_of (ol_records s) k \<noteq> None \<longrightarrow> map_of (ol_records t) k = map_of (ol_records s) k)
    \<and> (\<forall>k. map_of (ol_records t) k \<in> {None, map_of (ol_records s) k})"
  using assms
proof (induction keys arbitrary: s)
  case (Cons key keys)
  show ?case
  proof (cases "case map_of (ol_records s) key of None \<Rightarrow> False | Some r \<Rightarrow> or_terminal r = None")
    case True
    then have none: "terminal_of (ol_records s) key = None"
      by (auto simp: terminal_of_def split: option.splits)
    obtain u where u: "outcome_remove key s = Some u" "ledger_ok counter u" "ol_limits u = ol_limits s"
        "map_of (ol_records u) = (map_of (ol_records s))(key := None)"
      using outcome_remove_ok[OF Cons.prems] by blast
    from Cons.IH[OF u(2)] obtain t where t: "cancel_reservations keys u = Some t" "ledger_ok counter t"
        "ol_limits t = ol_limits u"
        "\<And>k. terminal_of (ol_records u) k \<noteq> None \<Longrightarrow> map_of (ol_records t) k = map_of (ol_records u) k"
        "\<And>k. map_of (ol_records t) k \<in> {None, map_of (ol_records u) k}"
      by blast
    have "map_of (ol_records t) k = map_of (ol_records s) k" if "terminal_of (ol_records s) k \<noteq> None" for k
      using that none t(4)[of k] u(4) by (cases "k = key") (auto simp: terminal_of_def)
    moreover have "map_of (ol_records t) k \<in> {None, map_of (ol_records s) k}" for k
      using t(5)[of k] u(4) by (auto split: if_splits)
    ultimately show ?thesis
      using True u(1,3) t(1-3) by auto
  next
    case False
    then show ?thesis
      using Cons.IH[OF Cons.prems] by simp
  qed
qed simp

lemma report_one_lookup:
  "map_of (ol_records (report_one owner key s)) k =
    (if k = key \<and> terminal_of (ol_records s) key \<noteq> None
     then map_option (\<lambda>r. r\<lparr>or_reported := True\<rparr>) (map_of (ol_records s) k) else map_of (ol_records s) k)"
  by (auto simp: report_one_def terminal_of_def split: option.splits)

lemma report_one_same:
  "terminal_of (ol_records (report_one owner key s)) k = terminal_of (ol_records s) k"
  "map_option or_owner (map_of (ol_records (report_one owner key s)) k) =
    map_option or_owner (map_of (ol_records s) k)"
proof -
  show "map_option or_owner (map_of (ol_records (report_one owner key s)) k) =
      map_option or_owner (map_of (ol_records s) k)"
    by (simp add: report_one_lookup option.map_comp comp_def)
  show "terminal_of (ol_records (report_one owner key s)) k = terminal_of (ol_records s) k"
    unfolding terminal_of_def[of _ k] by (cases "map_of (ol_records s) k") (auto simp: report_one_lookup)
qed

lemma report_fold_ok:
  assumes "ledger_ok counter s"
    "\<forall>k \<in> set keys. \<exists>r. map_of (ol_records s) k = Some r \<and> or_owner r = owner"
  shows "ledger_ok counter (fold (report_one owner) keys s)
    \<and> (\<forall>k. terminal_of (ol_records (fold (report_one owner) keys s)) k = terminal_of (ol_records s) k
      \<and> map_option or_owner (map_of (ol_records (fold (report_one owner) keys s)) k)
        = map_option or_owner (map_of (ol_records s) k))"
  using assms
proof (induction keys arbitrary: s)
  case (Cons key keys)
  let ?u = "report_one owner key s"
  obtain r where r: "map_of (ol_records s) key = Some r" "or_owner r = owner"
    using Cons.prems(2) by auto
  have u: "ledger_ok counter ?u"
    using report_one_ok[OF Cons.prems(1) r] .
  have same: "terminal_of (ol_records ?u) k = terminal_of (ol_records s) k"
      "map_option or_owner (map_of (ol_records ?u) k) = map_option or_owner (map_of (ol_records s) k)" for k
    by (rule report_one_same)+
  have "\<forall>k \<in> set keys. \<exists>r. map_of (ol_records ?u) k = Some r \<and> or_owner r = owner"
  proof
    fix k
    assume "k \<in> set keys"
    then obtain r' where "map_of (ol_records s) k = Some r'" "or_owner r' = owner"
      using Cons.prems(2) by auto
    then show "\<exists>r. map_of (ol_records ?u) k = Some r \<and> or_owner r = owner"
      using same(2)[of k] by auto
  qed
  from Cons.IH[OF u this] show ?case
    unfolding fold.simps comp_apply same .
qed simp

section \<open>Call sequences\<close>

datatype 'p OutcomeOp =
    Reserve u64 "ActionKey list"
  | Cancel "ActionKey list"
  | Finish u64 ActionKey ServerTick 'p
  | Reported u64 "ActionKey list"
  | CloseDelivery u64 ConnectionEpoch
  | Expire ServerTick
  | OtherSequence u64

text \<open>
  One call, on the shared counter and the ledger; \<open>None\<close> is a panic.  \<open>OtherSequence\<close> is another
  ledger drawing numbers from the shared sequencer.
\<close>

fun outcome_step ::
  "('p \<Rightarrow> nat) \<Rightarrow> 'p OutcomeOp \<Rightarrow> u64 \<times> 'p OutcomeLedger \<Rightarrow> (u64 \<times> 'p OutcomeLedger) option" where
  "outcome_step sz (Reserve owner keys) (n, s) = Some (n, snd (outcome_reserve owner keys s))"
| "outcome_step sz (Cancel keys) (n, s) = map_option (Pair n) (cancel_reservations keys s)"
| "outcome_step sz (Finish owner key at p) (n, s) =
    Some (fst (snd (outcome_finish sz owner key at p n s)), snd (snd (outcome_finish sz owner key at p n s)))"
| "outcome_step sz (Reported owner keys) (n, s) = Some (n, snd (outcome_reported owner keys s))"
| "outcome_step sz (CloseDelivery owner c) (n, s) = Some (n, close_delivery owner c s)"
| "outcome_step sz (Expire now) (n, s) = map_option (Pair n) (outcome_expire now s)"
| "outcome_step sz (OtherSequence m) (n, s) = Some (max n m, s)"

fun outcome_run ::
  "('p \<Rightarrow> nat) \<Rightarrow> 'p OutcomeOp list \<Rightarrow> u64 \<times> 'p OutcomeLedger \<Rightarrow> (u64 \<times> 'p OutcomeLedger) option" where
  "outcome_run sz [] st = Some st"
| "outcome_run sz (op # ops) st =
    (case outcome_step sz op st of None \<Rightarrow> None | Some st' \<Rightarrow> outcome_run sz ops st')"

lemma ledger_ok_mono:
  assumes "ledger_ok n s" "n \<le> m"
  shows "ledger_ok m s"
proof -
  have "terminals_ok m (ol_records s)"
    using assms unfolding ledger_ok_def terminals_ok_def by (meson less_le_trans)
  then show ?thesis
    using assms(1) unfolding ledger_ok_def by blast
qed

lemma outcome_reported_cases:
  assumes "outcome_reported owner keys s = (res, t)"
  obtains (refused) "t = s" "res = Inl OutUnknown"
  | (marked) "t = fold (report_one owner) keys s" "res = Inr ()"
      "\<forall>k \<in> set keys. \<exists>r. map_of (ol_records s) k = Some r \<and> or_owner r = owner"
proof (cases "\<exists>key \<in> set keys. (case map_of (ol_records s) key of
    None \<Rightarrow> True | Some r \<Rightarrow> or_owner r \<noteq> owner \<or> or_terminal r = None)")
  case True
  then show thesis
    using assms refused by (simp add: outcome_reported_def)
next
  case False
  then have "\<forall>k \<in> set keys. \<exists>r. map_of (ol_records s) k = Some r \<and> or_owner r = owner"
    by (auto split: option.splits)
  then show thesis
    using assms marked False by (simp add: outcome_reported_def)
qed

lemma outcome_step_ok:
  assumes ok: "ledger_ok n s"
  shows "\<exists>m t. outcome_step sz op (n, s) = Some (m, t) \<and> ledger_ok m t \<and> n \<le> m"
proof (cases op)
  case (Reserve owner keys)
  then show ?thesis
    using outcome_reserve_ok[OF ok] by (cases "outcome_reserve owner keys s") auto
next
  case (Cancel keys)
  then show ?thesis
    using cancel_ok[OF ok, of keys] by auto
next
  case (Finish owner key at p)
  then show ?thesis
    using outcome_finish_ok[OF ok] by (cases "outcome_finish sz owner key at p n s") auto
next
  case (Reported owner keys)
  obtain res t where rep: "outcome_reported owner keys s = (res, t)"
    by (cases "outcome_reported owner keys s")
  then have "ledger_ok n t"
    using ok by (cases rule: outcome_reported_cases) (simp_all add: report_fold_ok)
  with Reported rep show ?thesis
    by simp
next
  case (CloseDelivery owner c)
  then show ?thesis
    using close_delivery_ok[OF ok] by simp
next
  case (Expire now)
  then show ?thesis
    using remove_all_ok[OF ok] by (fastforce simp: outcome_expire_def)
next
  case (OtherSequence m)
  then show ?thesis
    using ledger_ok_mono[OF ok, of "max n m"] by simp
qed

end
