(* ===== verification/Net_Outcome_Props.thy ===== *)
theory Net_Outcome_Props
  imports Net_Outcome_Facts
begin

text \<open>The properties of the outcome ledger.\<close>

section \<open>Lemmas\<close>

lemma outcome_run_ok:
  "ledger_ok n s \<Longrightarrow> \<exists>m t. outcome_run sz ops (n, s) = Some (m, t) \<and> ledger_ok m t \<and> n \<le> m"
proof (induction ops arbitrary: n s)
  case (Cons op ops)
  obtain m t where "outcome_step sz op (n, s) = Some (m, t)" "ledger_ok m t" "n \<le> m"
    using outcome_step_ok[OF Cons.prems] by blast
  with Cons.IH[of m t] show ?case
    by (auto intro: order_trans)
qed simp

lemma outcome_new_ok: "outcome_ledger_new record_size limits = Inr s \<Longrightarrow> ledger_ok n s"
  by (auto simp: outcome_ledger_new_def ledger_ok_def counts_ok_def caps_ok_def terminals_ok_def
      delivery_wf_def delivery_set_def due_set_def owner_count_def terminal_of_def
      ledger_retained_bytes_def usize_checked_add_def split: option.splits if_splits)

lemma lookup_terminal_of:
  "outcome_lookup owner key s = Some out \<longleftrightarrow>
    terminal_of (ol_records s) key = Some out \<and> map_option or_owner (map_of (ol_records s) key) = Some owner"
  by (auto simp: outcome_lookup_def terminal_of_def split: option.splits if_splits)

definition keeps_terminal :: "'p OutcomeLedger \<Rightarrow> 'p OutcomeLedger \<Rightarrow> ActionKey \<Rightarrow> bool" where
  "keeps_terminal s t key \<longleftrightarrow> terminal_of (ol_records t) key = terminal_of (ol_records s) key
    \<and> map_option or_owner (map_of (ol_records t) key) = map_option or_owner (map_of (ol_records s) key)"

lemma reserve_keeps_terminal:
  assumes ok: "ledger_ok n s" and res: "outcome_reserve owner keys s = (res, t)"
    and present: "map_of (ol_records s) key = Some r"
  shows "keeps_terminal s t key"
  using res
proof (cases rule: reserve_cases)
  case (granted new)
  have "bt_ok (ol_records s)" "distinct new" "\<forall>k \<in> set new. map_of (ol_records s) k = None"
    using granted(2,3) ok by (simp_all add: bt_contains_def ledger_ok_def)
  from reserve_fold[OF this, of "ol_records t" owner] granted(2,7) present show ?thesis
    by (simp add: keeps_terminal_def terminal_of_def bt_contains_def)
qed (simp add: keeps_terminal_def)

lemma finish_keeps_terminal:
  assumes "outcome_finish sz owner key' at p n s = (res, m, t)" "terminal_of (ol_records s) key = Some out"
  shows "keeps_terminal s t key"
  using assms
  by (auto simp: outcome_finish_def keeps_terminal_def terminal_of_def Let_def bind_eq_Some_conv
      split: if_splits option.splits)

lemma close_keeps_terminal: "keeps_terminal s (close_delivery owner c s) key"
  by (cases "map_of (ol_records s) key") (simp_all add: keeps_terminal_def terminal_of_def close_delivery_def)

lemma step_keeps_terminal:
  assumes ok: "ledger_ok n s" and out: "terminal_of (ol_records s) key = Some out"
    and step: "outcome_step sz op (n, s) = Some (m, t)"
  shows "keeps_terminal s t key \<or> (\<exists>now r. op = Expire now \<and> map_of (ol_records s) key = Some r
    \<and> outcome_expired now (lim_retention_ticks (ol_limits s)) r)"
proof (cases op)
  case (Reserve owner keys)
  then show ?thesis
    using step reserve_keeps_terminal[OF ok] out
    by (cases "outcome_reserve owner keys s") (auto simp: terminal_of_def bind_eq_Some_conv)
next
  case (Cancel keys)
  then have "cancel_reservations keys s = Some t"
    using step by auto
  then have "map_of (ol_records t) key = map_of (ol_records s) key"
    using cancel_ok[OF ok, of keys] out by auto
  then show ?thesis
    by (simp add: keeps_terminal_def terminal_of_def)
next
  case (Finish owner key' at p)
  then show ?thesis
    using step finish_keeps_terminal[OF _ out] by (cases "outcome_finish sz owner key' at p n s") auto
next
  case (Reported owner keys)
  obtain res u where rep: "outcome_reported owner keys s = (res, u)"
    by (cases "outcome_reported owner keys s")
  then have "keeps_terminal s u key"
    using report_fold_ok[OF ok] by (cases rule: outcome_reported_cases) (simp_all add: keeps_terminal_def)
  then show ?thesis
    using step Reported rep by simp
next
  case (CloseDelivery owner c)
  then show ?thesis
    using step close_keeps_terminal by auto
next
  case (Expire now)
  define gone where "gone = map fst (filter (\<lambda>(key, r).
    outcome_expired now (lim_retention_ticks (ol_limits s)) r) (ol_records s))"
  have bt: "bt_ok (ol_records s)"
    using ok by (simp add: ledger_ok_def)
  have "remove_all gone s = Some t"
    using step Expire by (auto simp: outcome_expire_def gone_def)
  then have look: "map_of (ol_records t) key = (if key \<in> set gone then None else map_of (ol_records s) key)"
    using remove_all_ok[OF ok, of gone] by auto
  show ?thesis
  proof (cases "key \<in> set gone")
    case True
    then show ?thesis
      using Expire bt_keys_unique[OF bt] by (auto simp: gone_def)
  next
    case False
    then show ?thesis
      using look by (simp add: keeps_terminal_def terminal_of_def)
  qed
next
  case (OtherSequence k)
  then show ?thesis
    using step by (simp add: keeps_terminal_def)
qed

lemma map_filter_terminals:
  assumes "\<And>q k. (q, k) \<in> set l \<Longrightarrow> \<exists>t. terminal_of m k = Some t \<and> to_sequence t = q"
  shows "map to_sequence (List.map_filter (\<lambda>(_, key). case map_of m key of
      None \<Rightarrow> None | Some r \<Rightarrow> or_terminal r) l) = map fst l"
  using assms
proof (induction l)
  case (Cons e l)
  obtain q k where e: "e = (q, k)"
    by (cases e)
  obtain t where "terminal_of m k = Some t" "to_sequence t = q"
    using Cons.prems[of q k] e by auto
  with Cons e show ?case
    by (auto simp: map_filter_simps terminal_of_def bind_eq_Some_conv)
qed (simp add: map_filter_simps)

lemma unreported_sorted:
  assumes ok: "ledger_ok n s"
  shows "sorted_wrt (<) (map to_sequence (unreported owner c s))"
proof (cases "map_of (ol_delivery s) (owner, c)")
  case None
  then show ?thesis
    by (simp add: unreported_def)
next
  case (Some l)
  have parts: "bs_ok l" "set l = due_set (owner, c) (ol_records s)" "terminals_ok n (ol_records s)"
    using ok Some unfolding ledger_ok_def delivery_wf_def delivery_set_def by force+
  have terminal: "\<exists>t. terminal_of (ol_records s) k = Some t \<and> to_sequence t = q" if "(q, k) \<in> set l" for q k
    using that parts(2) by (auto simp: due_set_def due_entry_def terminal_of_def split: option.splits if_splits)
  have "sorted_wrt (\<lambda>a b. fst a < fst b) l"
  proof (rule sorted_wrt_mono_rel[of l "(<)"])
    show "sorted_wrt (<) l"
      using parts(1) by (simp add: bs_ok_def)
    fix a b
    assume ab: "a \<in> set l" "b \<in> set l" "a < b"
    obtain q k q' k' where e: "a = (q, k)" "b = (q', k')"
      by (cases a; cases b)
    obtain t t' where "terminal_of (ol_records s) k = Some t" "to_sequence t = q"
        "terminal_of (ol_records s) k' = Some t'" "to_sequence t' = q'"
      using terminal ab(1,2) e by metis
    then have "q = q' \<Longrightarrow> k = k'"
      using parts(3) unfolding terminals_ok_def by metis
    then show "fst a < fst b"
      using ab(3) e by (auto simp: less_le)
  qed
  then have "sorted_wrt (<) (map fst l)"
    by (simp add: sorted_wrt_map)
  moreover have "map to_sequence (unreported owner c s) = map fst l"
    using Some map_filter_terminals[OF terminal] by (simp add: unreported_def)
  ultimately show ?thesis
    by simp
qed

lemma due_set_iff:
  "(q, k) \<in> due_set oc m \<longleftrightarrow> (\<exists>r t. map_of m k = Some r \<and> oc = (or_owner r, ak_connection k)
    \<and> \<not> or_reported r \<and> \<not> or_delivery_closed r \<and> or_terminal r = Some t \<and> to_sequence t = q)"
  by (auto simp: due_set_def due_entry_def split: option.splits if_splits)

lemma unreported_set:
  assumes ok: "ledger_ok n s"
  shows "set (unreported owner c s) = {t. \<exists>k r. map_of (ol_records s) k = Some r \<and> or_owner r = owner
    \<and> ak_connection k = c \<and> or_terminal r = Some t \<and> \<not> or_reported r \<and> \<not> or_delivery_closed r}"
proof -
  have "set (unreported owner c s) = {t. \<exists>q k. (q, k) \<in> delivery_set (ol_delivery s) (owner, c)
      \<and> terminal_of (ol_records s) k = Some t}"
    by (auto simp: unreported_def delivery_set_def map_filter_def terminal_of_def image_iff bind_eq_Some_conv
        split: option.splits) force+
  also have "\<dots> = {t. \<exists>q k. (q, k) \<in> due_set (owner, c) (ol_records s) \<and> terminal_of (ol_records s) k = Some t}"
    using ok by (simp add: ledger_ok_def)
  also have "\<dots> = {t. \<exists>k r. map_of (ol_records s) k = Some r \<and> or_owner r = owner
    \<and> ak_connection k = c \<and> or_terminal r = Some t \<and> \<not> or_reported r \<and> \<not> or_delivery_closed r}"
    unfolding due_set_iff terminal_of_def bind_eq_Some_conv by auto blast
  finally show ?thesis .
qed

lemma remove_limits: "outcome_remove key s = Some t \<Longrightarrow> ol_limits t = ol_limits s"
  by (auto simp: outcome_remove_def Let_def split: option.splits if_splits)

lemma remove_all_limits: "remove_all keys s = Some t \<Longrightarrow> ol_limits t = ol_limits s"
  by (induction keys arbitrary: s) (auto dest: remove_limits split: option.splits)

lemma cancel_limits: "cancel_reservations keys s = Some t \<Longrightarrow> ol_limits t = ol_limits s"
  by (induction keys arbitrary: s) (auto dest: remove_limits split: option.splits if_splits)

lemma report_fold_limits: "ol_limits (fold (report_one owner) keys s) = ol_limits s"
  by (induction keys arbitrary: s) (auto simp: report_one_def split: option.splits)

lemma reserve_limits: "ol_limits (snd (outcome_reserve owner keys s)) = ol_limits s"
proof -
  obtain res t where res: "outcome_reserve owner keys s = (res, t)"
    by (cases "outcome_reserve owner keys s")
  then have "ol_limits t = ol_limits s"
    by (cases rule: reserve_cases) simp_all
  with res show ?thesis
    by simp
qed

lemma finish_limits: "ol_limits (snd (snd (outcome_finish sz owner key at p n s))) = ol_limits s"
  by (simp add: outcome_finish_def Let_def split: option.split)

lemma outcome_step_limits: "outcome_step sz op (n, s) = Some (m, t) \<Longrightarrow> ol_limits t = ol_limits s"
proof (induction op)
  case (Cancel keys)
  then have "cancel_reservations keys s = Some t"
    by auto
  then show ?case
    by (rule cancel_limits)
next
  case (Expire now)
  then have "outcome_expire now s = Some t"
    by auto
  then show ?case
    unfolding outcome_expire_def by (rule remove_all_limits)
next
  case (Reserve owner keys)
  then show ?case
    using reserve_limits[of owner keys s] by simp
next
  case (Finish owner key at p)
  then show ?case
    using finish_limits[of sz owner key at p n s] by simp
next
  case (Reported owner keys)
  then show ?case
    using report_fold_limits[of owner keys s] by (auto simp: outcome_reported_def split: if_splits)
qed (auto simp: close_delivery_def)

lemma outcome_run_limits: "outcome_run sz ops (n, s) = Some (m, t) \<Longrightarrow> ol_limits t = ol_limits s"
proof (induction ops arbitrary: n s)
  case (Cons op ops)
  then obtain n' s' where step: "outcome_step sz op (n, s) = Some (n', s')" "outcome_run sz ops (n', s') = Some (m, t)"
    by (auto split: option.splits)
  show ?case
    using Cons.IH[OF step(2)] outcome_step_limits[OF step(1)] by simp
qed simp

lemma outcome_new_limits: "outcome_ledger_new record_size limits = Inr s \<Longrightarrow> ol_limits s = limits"
  by (auto simp: outcome_ledger_new_def split: option.splits if_splits)


lemma owned_count_ok: "counts_ok s \<Longrightarrow> owned_count owner s = owner_count owner (ol_records s)"
  by (simp add: counts_ok_def owned_count_def)

lemma available_for_ge:
  assumes ok: "ledger_ok n s"
  shows "k \<le> available_for owner s \<longleftrightarrow> length (ol_records s) + k \<le> lim_records (ol_limits s)
    \<and> owned_count owner s + k \<le> lim_records_per_owner (ol_limits s)
    \<and> (length (ol_records s) + k) * ol_charge s \<le> lim_retained_bytes (ol_limits s)"
proof -
  have caps: "0 < ol_charge s" "length (ol_records s) \<le> lim_records (ol_limits s)"
      "owned_count owner s \<le> lim_records_per_owner (ol_limits s)"
      "length (ol_records s) * ol_charge s \<le> lim_retained_bytes (ol_limits s)"
    using ok owned_count_ok[of s owner] by (simp_all add: ledger_ok_def caps_ok_def ledger_retained_bytes_def)
  then have "k \<le> (lim_retained_bytes (ol_limits s) - ledger_retained_bytes s) div ol_charge s \<longleftrightarrow>
      (length (ol_records s) + k) * ol_charge s \<le> lim_retained_bytes (ol_limits s)"
    by (simp add: less_eq_div_iff_mult_less_eq ledger_retained_bytes_def add_mult_distrib) arith
  then show ?thesis
    using caps by (auto simp: available_for_def)
qed

lemma run_keeps_terminal:
  assumes "ledger_ok n s" "terminal_of (ol_records s) key = Some out"
    and "outcome_run sz ops (n, s) = Some (m, t)"
    and "\<forall>now. Expire now \<in> set ops \<longrightarrow> saturating_sub now (to_at out) < lim_retention_ticks (ol_limits s)"
  shows "keeps_terminal s t key"
  using assms
proof (induction ops arbitrary: n s)
  case (Cons op ops)
  obtain n' s' where step: "outcome_step sz op (n, s) = Some (n', s')" "ledger_ok n' s'"
    using outcome_step_ok[OF Cons.prems(1)] by blast
  have "\<not> outcome_expired now (lim_retention_ticks (ol_limits s)) r"
    if "op = Expire now" "map_of (ol_records s) key = Some r" for now r
    using that Cons.prems(2,4) by (auto simp: outcome_expired_def terminal_of_def)
  then have keep: "keeps_terminal s s' key"
    using step_keeps_terminal[OF Cons.prems(1,2) step(1)] by blast
  then have "terminal_of (ol_records s') key = Some out"
    using Cons.prems(2) by (simp add: keeps_terminal_def)
  moreover have "outcome_run sz ops (n', s') = Some (m, t)"
    using Cons.prems(3) step(1) by simp
  ultimately have "keeps_terminal s' t key"
    using Cons.IH step Cons.prems(4) outcome_step_limits[OF step(1)] by simp
  with keep show ?case
    by (simp add: keeps_terminal_def)
qed (simp add: keeps_terminal_def)

section \<open>Properties\<close>


text \<open>
  C38: What the ledger offers for delivery on a connection is exactly the terminal outcomes of that
  owner and connection that were neither reported nor closed, in the order they were finished.
\<close>

theorem outcome_delivery_exact:
  assumes "outcome_ledger_new record_size limits = Inr s"
    and "outcome_run sz ops (n, s) = Some (m, t)"
  shows "set (unreported owner c t) = {out. \<exists>k r. map_of (ol_records t) k = Some r \<and> or_owner r = owner
      \<and> ak_connection k = c \<and> or_terminal r = Some out \<and> \<not> or_reported r \<and> \<not> or_delivery_closed r}
    \<and> sorted_wrt (<) (map to_sequence (unreported owner c t))"
proof -
  have "ledger_ok m t"
    using outcome_run_ok[OF outcome_new_ok[OF assms(1)]] assms(2) by (metis option.inject prod.inject)
  then show ?thesis
    using unreported_set unreported_sorted by blast
qed

text \<open>
  C39: A terminal outcome is final.  Whatever calls follow, a lookup returns the same outcome as long
  as no expiry runs at a tick that is the full retention window after the outcome.
\<close>

theorem terminal_outcome_final:
  assumes "outcome_ledger_new record_size limits = Inr s0"
    and "outcome_run sz before (n0, s0) = Some (n, s)"
    and "outcome_lookup owner key s = Some out"
    and "\<forall>now. Expire now \<in> set after \<longrightarrow> saturating_sub now (to_at out) < lim_retention_ticks limits"
  shows "\<exists>m t. outcome_run sz after (n, s) = Some (m, t) \<and> outcome_lookup owner key t = Some out"
proof -
  have ok: "ledger_ok n s"
    using outcome_run_ok[OF outcome_new_ok[OF assms(1)]] assms(2) by (metis option.inject prod.inject)
  then obtain m t where run: "outcome_run sz after (n, s) = Some (m, t)"
    using outcome_run_ok by blast
  have "ol_limits s = limits"
    using outcome_run_limits[OF assms(2)] outcome_new_limits[OF assms(1)] by simp
  then have "keeps_terminal s t key"
    using run_keeps_terminal[OF ok _ run] assms(3,4) by (simp add: lookup_terminal_of)
  then show ?thesis
    using run assms(3) by (auto simp: lookup_terminal_of keeps_terminal_def)
qed

text \<open>
  C40: A reservation is all or nothing, and \<open>available_for\<close> predicts it exactly: well-formed keys that
  conflict with no other owner are granted if and only if the absent ones fit the advertised capacity.
\<close>

theorem reserve_matches_available:
  assumes "outcome_ledger_new record_size limits = Inr s0"
    and "outcome_run sz ops (n0, s0) = Some (n, s)"
    and "lim_records limits \<le> usize_max" "lim_retained_bytes limits \<le> usize_max"
    and "owner \<noteq> 0" "keys \<noteq> []" "length keys \<le> 8" "distinct keys"
    and "\<forall>key \<in> set keys. \<not> key_invalid key"
    and "\<forall>key \<in> set keys. \<forall>r. map_of (ol_records s) key = Some r \<longrightarrow> or_owner r = owner"
    and "absent = filter (\<lambda>key. \<not> bt_contains key (ol_records s)) keys"
  shows "if length absent \<le> available_for owner s
    then \<exists>t. outcome_reserve owner keys s = (Inr absent, t)
      \<and> (\<forall>key \<in> set keys. bt_contains key (ol_records t))
    else outcome_reserve owner keys s = (Inl OutCapacity, s)"
proof -
  have ok: "ledger_ok n s"
    using outcome_run_ok[OF outcome_new_ok[OF assms(1)]] assms(2) by (metis option.inject prod.inject)
  have limits: "ol_limits s = limits"
    using outcome_run_limits[OF assms(2)] outcome_new_limits[OF assms(1)] by simp
  have no_conflict: "\<not> (\<exists>key \<in> set keys. case map_of (ol_records s) key of
      None \<Rightarrow> False | Some r \<Rightarrow> or_owner r \<noteq> owner)"
    using assms(10) by (auto split: option.splits)
  have fresh: "bt_ok (ol_records s)" "distinct absent" "\<forall>k \<in> set absent. map_of (ol_records s) k = None"
    using ok assms(8,11) by (simp_all add: ledger_ok_def bt_contains_def)
  have present: "bt_contains key (fold (\<lambda>key. bt_insert key (new_record owner)) absent (ol_records s))"
    if "key \<in> set keys" for key
    using reserve_fold[OF fresh refl, of owner] that assms(11)
    by (cases "key \<in> set absent") (simp_all add: bt_contains_def)
  have valid: "\<not> (owner = 0 \<or> keys = [] \<or> 8 < length keys)"
      "\<not> (\<not> distinct keys \<or> (\<exists>key \<in> set keys. key_invalid key))"
    using assms(5-9) by auto
  have room: "length absent \<le> available_for owner s \<longleftrightarrow>
      length (ol_records s) + length absent \<le> lim_records limits
      \<and> owned_count owner s + length absent \<le> lim_records_per_owner limits
      \<and> (length (ol_records s) + length absent) * ol_charge s \<le> lim_retained_bytes limits"
    using available_for_ge[OF ok] limits by simp
  show ?thesis
    unfolding room outcome_reserve_def if_not_P[OF valid(1)] if_not_P[OF valid(2)] if_not_P[OF no_conflict]
      assms(11)[symmetric] Let_def limits usize_checked_add_def usize_checked_mul_def
    using present assms(3,4) by simp
qed

section \<open>Instances\<close>

definition ex_outcome_limits :: OutcomeLimits where
  "ex_outcome_limits = \<lparr>lim_records = 3, lim_records_per_owner = 2, lim_retained_bytes = 1200,
    lim_maximum_payload_bytes = 16, lim_retention_ticks = 10\<rparr>"

definition ex_ledger :: "nat OutcomeLedger" where
  "ex_ledger = \<lparr>ol_limits = ex_outcome_limits, ol_records = [], ol_owners = [], ol_delivery = [], ol_charge = 400\<rparr>"

definition ex_key :: "u64 \<Rightarrow> ActionKey" where
  "ex_key c = ActionKey 1 1 c 0"

definition ex_outcome_ops :: "nat OutcomeOp list" where
  "ex_outcome_ops = [Reserve 7 [ex_key 1, ex_key 2], Finish 7 (ex_key 1) 5 9]"

lemma ex_ledger_new: "outcome_ledger_new 128 ex_outcome_limits = Inr ex_ledger"
  by (simp add: outcome_ledger_new_def ex_outcome_limits_def ex_ledger_def usize_checked_add_def usize_max_def)

definition ex_done :: "nat OutcomeLedger" where
  "ex_done = (case outcome_run id ex_outcome_ops (1, ex_ledger) of Some (_, t) \<Rightarrow> t | None \<Rightarrow> ex_ledger)"

lemmas ex_outcome_defs = ex_done_def ex_outcome_ops_def ex_ledger_def ex_outcome_limits_def ex_key_def outcome_reserve_def
  outcome_finish_def key_invalid_def usize_checked_add_def usize_checked_mul_def usize_max_def owned_count_def
  new_record_def bt_contains_def Let_def checked_add_def less_ActionKey_def action_tuple_def
  outcome_lookup_def bt_update_def bt_map_def delivery_insert_def

lemma ex_outcome_run: "outcome_run id ex_outcome_ops (1, ex_ledger) = Some (2, ex_done)"
  by (simp add: ex_outcome_defs)

lemma ex_outcome_lookup:
  "outcome_lookup 7 (ex_key 1) ex_done = Some \<lparr>to_sequence = 1, to_key = ex_key 1, to_at = 5, to_payload = 9\<rparr>"
  by (simp add: ex_outcome_defs)


theorem outcome_delivery_exact_witness:
  "\<lparr>to_sequence = 1, to_key = ex_key 1, to_at = 5, to_payload = 9\<rparr> \<in> set (unreported 7 1 ex_done)"
proof -
  have "map_of (ol_records ex_done) (ex_key 1) = Some \<lparr>or_owner = 7, or_terminal =
      Some \<lparr>to_sequence = 1, to_key = ex_key 1, to_at = 5, to_payload = 9\<rparr>,
      or_reported = False, or_delivery_closed = False\<rparr>"
    by (simp add: ex_outcome_defs)
  moreover have "ak_connection (ex_key 1) = 1"
    by (simp add: ex_key_def)
  ultimately show ?thesis
    using outcome_delivery_exact[OF ex_ledger_new ex_outcome_run, of 7 1] by force
qed

theorem terminal_outcome_final_witness:
  "\<exists>m t. outcome_run id [Reported 7 [ex_key 1], Expire 14, Finish 7 (ex_key 1) 5 8] (2, ex_done) = Some (m, t)
    \<and> outcome_lookup 7 (ex_key 1) t = Some \<lparr>to_sequence = 1, to_key = ex_key 1, to_at = 5, to_payload = 9\<rparr>"
  by (rule terminal_outcome_final[OF ex_ledger_new ex_outcome_run ex_outcome_lookup])
    (auto simp: ex_outcome_limits_def saturating_sub_def)

theorem reserve_matches_available_witness:
  "\<exists>t. outcome_reserve 8 [ex_key 3] ex_done = (Inr [ex_key 3], t) \<and> bt_contains (ex_key 3) (ol_records t)"
  using reserve_matches_available[OF ex_ledger_new ex_outcome_run, of 8 "[ex_key 3]" "[ex_key 3]"]
  by (simp add: ex_outcome_defs available_for_def ledger_retained_bytes_def)

end
