(* ===== verification/Net_Replication.thy ===== *)
theory Net_Replication
  imports Net_Codec
begin

text \<open>
  The vocabulary of replication: \<open>engine/net/src/replication/mod.rs\<close>.

  The trait \<open>Payload\<close> (a clonable representation with equality and a retained size) is the record
  \<open>Payload\<close> of those two operations, passed to every definition that uses them; \<open>clone\<close> is the
  identity.  A \<open>Vec<u8>\<close> is a pair of its contents and its capacity, compared by contents.
\<close>

section \<open>Payloads\<close>

record 'p Payload =
  pl_eq :: "'p \<Rightarrow> 'p \<Rightarrow> bool"
  pl_retained_bytes :: "'p \<Rightarrow> usize"

type_synonym vec = "bytes \<times> usize"

definition vec_payload :: "vec Payload" where
  "vec_payload = \<lparr>pl_eq = (\<lambda>a b. fst a = fst b), pl_retained_bytes = snd\<rparr>"

section \<open>Errors and limits\<close>

datatype ObsoleteReason = Scope | Publication | RetiredBaseline

datatype ReplicationError =
    InvalidConfiguration | InvalidIdentity | Stale | Obsolete ObsoleteReason | BaselineResetPending
  | Conflict | Unauthorized | Unknown | ResetRequired | Capacity | Expired | Incomplete | InvalidPayload

record ScopeLimits =
  sl_known_entities :: usize
  sl_pending_transitions :: usize
  sl_retained_payload_bytes :: usize
  sl_payload_bytes :: usize
  sl_sent_proofs_per_scope :: usize

definition default_scope_limits :: ScopeLimits where
  "default_scope_limits = \<lparr>sl_known_entities = 8192, sl_pending_transitions = 1024,
    sl_retained_payload_bytes = 4 * 1024 * 1024, sl_payload_bytes = 16384, sl_sent_proofs_per_scope = 8\<rparr>"

definition scope_limits_validate :: "ScopeLimits \<Rightarrow> ReplicationError + ScopeLimits" where
  "scope_limits_validate l =
    (if sl_known_entities l = 0 \<or> sl_pending_transitions l = 0 \<or> sl_payload_bytes l = 0
        \<or> sl_retained_payload_bytes l < sl_payload_bytes l \<or> sl_sent_proofs_per_scope l = 0
     then Inl InvalidConfiguration else Inr l)"

section \<open>Messages\<close>

record StateReceipt =
  rc_scope :: ScopeIdentity
  rc_baseline_generation :: BaselineGeneration
  rc_snapshot :: SnapshotId
  rc_version :: StateVersion

record 'p FullState =
  fs_scope :: ScopeIdentity
  fs_baseline_generation :: BaselineGeneration
  fs_snapshot :: SnapshotId
  fs_version :: StateVersion
  fs_end_tick :: ServerTick
  fs_payload :: 'p

definition full_receipt :: "'p FullState \<Rightarrow> StateReceipt" where
  "full_receipt st = \<lparr>rc_scope = fs_scope st, rc_baseline_generation = fs_baseline_generation st,
    rc_snapshot = fs_snapshot st, rc_version = fs_version st\<rparr>"

record ScopeExit =
  sx_scope :: ScopeIdentity

record Destroy =
  ds_connection :: ConnectionEpoch
  ds_entity :: EntityId

definition validate_scope :: "ScopeIdentity \<Rightarrow> ConnectionEpoch \<Rightarrow> ReplicationError + unit" where
  "validate_scope scope connection =
    (if si_connection scope \<noteq> connection then Inl Stale
     else if connection = 0 \<or> eid_generation (si_entity scope) = 0 \<or> si_scope scope = 0
       \<or> si_representation scope = 0
     then Inl InvalidIdentity else Inr ())"

definition validate_identity :: "ConnectionEpoch \<Rightarrow> 'p FullState \<Rightarrow> ReplicationError + unit" where
  "validate_identity connection st =
    and_then (validate_scope (fs_scope st) connection) (\<lambda>_.
      if fs_baseline_generation st = 0 \<or> fs_snapshot st = 0 \<or> fs_version st = 0
      then Inl InvalidIdentity else Inr ())"

text \<open>States compare by all their fields, payloads by the payload's own equality.\<close>

definition full_state_eq :: "'p Payload \<Rightarrow> 'p FullState \<Rightarrow> 'p FullState \<Rightarrow> bool" where
  "full_state_eq pl a b \<longleftrightarrow> full_receipt a = full_receipt b \<and> fs_end_tick a = fs_end_tick b
    \<and> pl_eq pl (fs_payload a) (fs_payload b)"

lemma validate_scope_Inr:
  "validate_scope scope connection = Inr () \<longleftrightarrow> si_connection scope = connection \<and> connection \<noteq> 0
    \<and> eid_generation (si_entity scope) \<noteq> 0 \<and> si_scope scope \<noteq> 0 \<and> si_representation scope \<noteq> 0"
  by (auto simp: validate_scope_def)

end
