(* ===== verification/Net_Baselines.thy ===== *)
theory Net_Baselines
  imports Net_Replication
begin

text \<open>
  Delta baselines of one authorised representation:
  \<open>engine/net/src/replication/baselines/\<close> (\<open>mod.rs\<close>, \<open>bytes.rs\<close>, \<open>cache.rs\<close>).

  The codec trait is the record \<open>BaselineCodec\<close>; \<open>BytePatch\<close> is its instance \<open>byte_patch\<close>.  What a
  growing vector really gets is the argument \<open>alloc\<close> (\<open>Vec::with_capacity\<close>), and the two
  \<open>size_of\<close> constants of the cache are arguments.  The \<open>send\<close> callback of \<open>transmit\<close> and the
  \<open>validate\<close> callback of \<open>receive\<close> are predicates.
\<close>

section \<open>Data\<close>

record BaselineContext =
  bx_scope :: ScopeIdentity
  bx_schema :: SchemaId
  bx_group :: "(GroupId \<times> GroupRevision) option"

definition context_validate :: "BaselineContext \<Rightarrow> ReplicationError + unit" where
  "context_validate c =
    and_then (validate_scope (bx_scope c) (si_connection (bx_scope c))) (\<lambda>_.
      if bx_schema c = 0 \<or> (case bx_group c of None \<Rightarrow> False | Some (gid, revision) \<Rightarrow> gid = 0 \<or> revision = 0)
      then Inl InvalidIdentity else Inr ())"

record BaselineReceipt =
  br_context :: BaselineContext
  br_generation :: BaselineGeneration
  br_snapshot :: SnapshotId
  br_version :: StateVersion
  br_end_tick :: ServerTick

record 'p BaselineState =
  st_receipt :: BaselineReceipt
  st_payload :: 'p

datatype BaselineEncoding = Full | Delta BaselineReceipt

record BaselinePacket =
  pk_target :: BaselineReceipt
  pk_encoding :: BaselineEncoding
  pk_bytes :: vec

record BaselineRetirement =
  rt_context :: BaselineContext
  rt_generation :: BaselineGeneration
  rt_through :: SnapshotId

record BaselineReset =
  rs_context :: BaselineContext
  rs_generation :: BaselineGeneration

record BaselineRepair =
  rp_context :: BaselineContext
  rp_generation :: BaselineGeneration

record BaselineLimits =
  bl_slots :: usize
  bl_payload_bytes :: usize
  bl_packet_bytes :: usize
  bl_resident_bytes :: usize
  bl_peak_bytes :: usize
  bl_repair_interval_ms :: u64

definition default_baseline_limits :: BaselineLimits where
  "default_baseline_limits = \<lparr>bl_slots = 8, bl_payload_bytes = 16384, bl_packet_bytes = 16384 + 12,
    bl_resident_bytes = 160 * 1024, bl_peak_bytes = 200 * 1024, bl_repair_interval_ms = 1000\<rparr>"

record 'p BaselineCodec =
  bc_encode_full :: "'p \<Rightarrow> usize \<Rightarrow> ReplicationError + vec"
  bc_encode_delta :: "'p \<Rightarrow> 'p \<Rightarrow> usize \<Rightarrow> ReplicationError + vec"
  bc_decode_full :: "bytes \<Rightarrow> usize \<Rightarrow> ReplicationError + 'p"
  bc_decode_delta :: "'p \<Rightarrow> bytes \<Rightarrow> usize \<Rightarrow> ReplicationError + 'p"
  bc_validate :: "'p \<Rightarrow> bool"

section \<open>Byte patches\<close>

fun common :: "'a list \<Rightarrow> 'a list \<Rightarrow> nat" where
  "common (a # as) (b # bs) = (if a = b then Suc (common as bs) else 0)"
| "common _ _ = 0"

definition patch_decode_full :: "(nat \<Rightarrow> nat) \<Rightarrow> bytes \<Rightarrow> usize \<Rightarrow> ReplicationError + vec" where
  "patch_decode_full alloc bytes limit =
    (if length bytes > limit then Inl Capacity else Inr (bytes, alloc (length bytes)))"

definition patch_encode_full :: "(nat \<Rightarrow> nat) \<Rightarrow> vec \<Rightarrow> usize \<Rightarrow> ReplicationError + vec" where
  "patch_encode_full alloc val limit = patch_decode_full alloc (fst val) limit"

definition u32_try_from :: "nat \<Rightarrow> u32 option" where
  "u32_try_from n = (if n < 2 ^ 32 then Some (of_nat n) else None)"

definition patch_encode_delta :: "(nat \<Rightarrow> nat) \<Rightarrow> vec \<Rightarrow> vec \<Rightarrow> usize \<Rightarrow> ReplicationError + vec" where
  "patch_encode_delta alloc base val limit =
    (let prefix = common (fst base) (fst val);
         suffix = common (rev (drop prefix (fst base))) (rev (drop prefix (fst val)));
         middle = byte_range prefix (length (fst val) - suffix) (fst val) in
     case usize_checked_add (length middle) 12 of
       None \<Rightarrow> Inl Capacity
     | Some sz \<Rightarrow>
       (if sz > limit then Inl Capacity
        else case (u32_try_from (length (fst val)), u32_try_from prefix, u32_try_from suffix) of
          (Some l, Some p, Some s) \<Rightarrow>
            Inr (le_bytes 4 (unat l) @ le_bytes 4 (unat p) @ le_bytes 4 (unat s) @ middle, alloc sz)
        | _ \<Rightarrow> Inl Capacity))"

definition patch_decode_delta :: "(nat \<Rightarrow> nat) \<Rightarrow> vec \<Rightarrow> bytes \<Rightarrow> usize \<Rightarrow> ReplicationError + vec" where
  "patch_decode_delta alloc base bytes limit =
    (if length bytes < 12 then Inl InvalidPayload
     else
       let field = (\<lambda>offset. from_le_bytes (byte_range offset (offset + 4) bytes));
           l = field 0; prefix = field 4; suffix = field 8 in
       if l > limit then Inl Capacity
       else case usize_checked_add prefix suffix of
         None \<Rightarrow> Inl InvalidPayload
       | Some shared \<Rightarrow>
         (if shared > length (fst base) \<or> shared > l \<or> l - shared \<noteq> length bytes - 12
          then Inl InvalidPayload
          else Inr (take prefix (fst base) @ drop 12 bytes @ drop (length (fst base) - suffix) (fst base),
            alloc l)))"

definition byte_patch :: "(nat \<Rightarrow> nat) \<Rightarrow> vec BaselineCodec" where
  "byte_patch alloc = \<lparr>bc_encode_full = patch_encode_full alloc, bc_encode_delta = patch_encode_delta alloc,
    bc_decode_full = patch_decode_full alloc, bc_decode_delta = patch_decode_delta alloc,
    bc_validate = (\<lambda>_. True)\<rparr>"

section \<open>The bounded cache\<close>

record 'p Entry =
  en_state :: "'p BaselineState"
  en_decoded :: bool

record 'p Cache =
  ca_context :: BaselineContext
  ca_generation :: BaselineGeneration
  ca_limits :: BaselineLimits
  ca_entries :: "'p Entry list"
  ca_bytes :: usize
  ca_retired :: SnapshotId
  ca_latest :: "BaselineReceipt option"
  ca_closed :: bool

abbreviation en_receipt :: "'p Entry \<Rightarrow> BaselineReceipt" where
  "en_receipt e \<equiv> st_receipt (en_state e)"

abbreviation en_snapshot :: "'p Entry \<Rightarrow> SnapshotId" where
  "en_snapshot e \<equiv> br_snapshot (en_receipt e)"

definition limits_invalid :: "BaselineLimits \<Rightarrow> usize \<Rightarrow> usize \<Rightarrow> bool" where
  "limits_invalid l minimum peak \<longleftrightarrow> bl_slots l < 2 \<or> bl_payload_bytes l = 0 \<or> bl_packet_bytes l = 0
    \<or> bl_resident_bytes l < minimum \<or> bl_peak_bytes l < peak \<or> bl_repair_interval_ms l = 0"

definition table_bytes :: "usize \<Rightarrow> usize \<Rightarrow> usize \<Rightarrow> usize option" where
  "table_bytes entry_size client_size n =
    Option.bind (usize_checked_mul n entry_size) (\<lambda>m. usize_checked_add m client_size)"

definition cache_new ::
  "usize \<Rightarrow> usize \<Rightarrow> (nat \<Rightarrow> nat) \<Rightarrow> BaselineContext \<Rightarrow> BaselineGeneration \<Rightarrow> BaselineLimits \<Rightarrow>
   ReplicationError + 'p Cache" where
  "cache_new entry_size client_size alloc context generation limits =
    and_then (context_validate context) (\<lambda>_.
     if generation = 0 then Inl InvalidIdentity
     else
       and_then (ok_or InvalidConfiguration (table_bytes entry_size client_size (bl_slots limits))) (\<lambda>metadata.
       and_then (ok_or InvalidConfiguration (usize_checked_add metadata (bl_payload_bytes limits))) (\<lambda>minimum.
       and_then (ok_or InvalidConfiguration (Option.bind
           (usize_checked_add (bl_resident_bytes limits) (bl_payload_bytes limits))
           (\<lambda>n. usize_checked_add n (bl_packet_bytes limits)))) (\<lambda>peak.
       if limits_invalid limits minimum peak then Inl InvalidConfiguration
       else
         and_then (ok_or Capacity (table_bytes entry_size client_size (alloc (bl_slots limits)))) (\<lambda>bytes.
         if (case usize_checked_add bytes (bl_payload_bytes limits) of
               None \<Rightarrow> True | Some n \<Rightarrow> n > bl_resident_bytes limits)
         then Inl Capacity
         else Inr \<lparr>ca_context = context, ca_generation = generation, ca_limits = limits, ca_entries = [],
           ca_bytes = bytes, ca_retired = 0, ca_latest = None, ca_closed = False\<rparr>)))))"

definition cache_envelope :: "BaselineContext \<Rightarrow> BaselineGeneration \<Rightarrow> 'p Cache \<Rightarrow> ReplicationError + unit" where
  "cache_envelope context generation c =
    (if ca_closed c \<or> context \<noteq> ca_context c \<or> generation \<noteq> ca_generation c then Inl Stale else Inr ())"

definition cache_identity :: "BaselineReceipt \<Rightarrow> 'p Cache \<Rightarrow> ReplicationError + unit" where
  "cache_identity receipt c =
    and_then (cache_envelope (br_context receipt) (br_generation receipt) c) (\<lambda>_.
      if br_snapshot receipt = 0 \<or> br_version receipt = 0 then Inl InvalidIdentity
      else if br_snapshot receipt \<le> ca_retired c then Inl (Obsolete RetiredBaseline)
      else Inr ())"

definition find_snapshot :: "SnapshotId \<Rightarrow> 'p Cache \<Rightarrow> 'p Entry option" where
  "find_snapshot snapshot c = find (\<lambda>e. en_snapshot e = snapshot) (ca_entries c)"

definition cache_entry :: "BaselineReceipt \<Rightarrow> 'p Cache \<Rightarrow> ReplicationError + 'p Entry" where
  "cache_entry receipt c =
    and_then (cache_identity receipt c) (\<lambda>_.
    and_then (ok_or Unknown (find_snapshot (br_snapshot receipt) c)) (\<lambda>entry.
      if en_receipt entry \<noteq> receipt then Inl Conflict else Inr entry))"

definition baseline_state_eq :: "'p Payload \<Rightarrow> 'p BaselineState \<Rightarrow> 'p BaselineState \<Rightarrow> bool" where
  "baseline_state_eq pl a b \<longleftrightarrow> st_receipt a = st_receipt b \<and> pl_eq pl (st_payload a) (st_payload b)"

text \<open>The ordering demanded of a state against the newest one known.\<close>

definition check_latest ::
  "'p Payload \<Rightarrow> 'p BaselineState \<Rightarrow> BaselineReceipt \<Rightarrow> 'p Cache \<Rightarrow> ReplicationError + unit" where
  "check_latest pl st latest c =
    (let r = st_receipt st in
     if br_version r = br_version latest
        \<and> (ca_entries c \<noteq> [] \<and> \<not> pl_eq pl (st_payload (en_state (last (ca_entries c)))) (st_payload st))
     then Inl Conflict
     else if br_snapshot r < br_snapshot latest \<and> br_version r \<le> br_version latest
        \<and> br_end_tick r \<le> br_end_tick latest
     then Inl (Obsolete Publication)
     else if br_snapshot r \<le> br_snapshot latest \<or> br_version r < br_version latest
        \<or> br_end_tick r < br_end_tick latest
     then Inl Conflict
     else Inr ())"

definition cache_check :: "'p Payload \<Rightarrow> 'p BaselineState \<Rightarrow> 'p Cache \<Rightarrow> ReplicationError + bool" where
  "cache_check pl st c =
    and_then (cache_identity (st_receipt st) c) (\<lambda>_.
     let sz = pl_retained_bytes pl (st_payload st) in
     if sz > bl_payload_bytes (ca_limits c) then Inl Capacity
     else case find_snapshot (br_snapshot (st_receipt st)) c of
       Some entry \<Rightarrow> (if baseline_state_eq pl (en_state entry) st then Inr False else Inl Conflict)
     | None \<Rightarrow>
       and_then (case ca_latest c of None \<Rightarrow> Inr () | Some latest \<Rightarrow> check_latest pl st latest c) (\<lambda>_.
         if length (ca_entries c) \<ge> bl_slots (ca_limits c)
            \<or> (case usize_checked_add (ca_bytes c) sz of
                 None \<Rightarrow> True | Some n \<Rightarrow> n > bl_resident_bytes (ca_limits c))
         then Inl Capacity
         else Inr True))"

definition cache_insert :: "'p Payload \<Rightarrow> 'p BaselineState \<Rightarrow> bool \<Rightarrow> 'p Cache \<Rightarrow> 'p Cache" where
  "cache_insert pl st decoded c =
    c\<lparr>ca_bytes := ca_bytes c + pl_retained_bytes pl (st_payload st),
      ca_latest := Some (st_receipt st),
      ca_entries := ca_entries c @ [\<lparr>en_state = st, en_decoded = decoded\<rparr>]\<rparr>"

definition cache_retirement :: "BaselineRetirement \<Rightarrow> 'p Cache \<Rightarrow> ReplicationError + unit" where
  "cache_retirement fence c =
    and_then (cache_envelope (rt_context fence) (rt_generation fence) c) (\<lambda>_.
      if rt_through fence = 0 then Inl InvalidIdentity
      else if rt_through fence \<le> ca_retired c then Inr ()
      else if \<not> (\<exists>e \<in> set (ca_entries c). en_decoded e \<and> en_snapshot e > rt_through fence)
      then Inl Incomplete
      else Inr ())"

definition entries_bytes :: "'p Payload \<Rightarrow> 'p Entry list \<Rightarrow> usize" where
  "entries_bytes pl es = sum_list (map (\<lambda>e. pl_retained_bytes pl (st_payload (en_state e))) es)"

definition cache_discard :: "'p Payload \<Rightarrow> SnapshotId \<Rightarrow> 'p Cache \<Rightarrow> 'p Cache" where
  "cache_discard pl through c =
    (if through \<le> ca_retired c then c
     else c\<lparr>ca_bytes := ca_bytes c
               - entries_bytes pl (filter (\<lambda>e. en_snapshot e \<le> through) (ca_entries c)),
            ca_entries := filter (\<lambda>e. \<not> en_snapshot e \<le> through) (ca_entries c),
            ca_retired := through\<rparr>)"

definition cache_clear :: "'p Payload \<Rightarrow> 'p Cache \<Rightarrow> 'p Cache" where
  "cache_clear pl c = c\<lparr>ca_bytes := ca_bytes c - entries_bytes pl (ca_entries c), ca_entries := []\<rparr>"

definition cache_reset ::
  "'p Payload \<Rightarrow> BaselineReset \<Rightarrow> 'p Cache \<Rightarrow> (ReplicationError + unit) \<times> 'p Cache" where
  "cache_reset pl reset c =
    (if ca_closed c \<or> rs_context reset \<noteq> ca_context c \<or> rs_generation reset < ca_generation c
     then (Inl Stale, c)
     else if rs_generation reset = ca_generation c then (Inr (), c)
     else (Inr (), (cache_clear pl c)\<lparr>ca_generation := rs_generation reset\<rparr>))"

definition cache_close :: "'p Payload \<Rightarrow> 'p Cache \<Rightarrow> 'p Cache" where
  "cache_close pl c = (cache_clear pl c)\<lparr>ca_closed := True\<rparr>"

end
