(* ===== verification/Net_Baseline_Peers.thy ===== *)
theory Net_Baseline_Peers
  imports Net_Baselines
begin

text \<open>
  The two ends of the baseline protocol: \<open>ServerBaselines\<close> and \<open>ClientBaselines\<close> of
  \<open>engine/net/src/replication/baselines/cache.rs\<close>.
\<close>

section \<open>Server\<close>

record 'p ServerBaselines =
  sb_cache :: "'p Cache"

definition server_baselines_new ::
  "usize \<Rightarrow> usize \<Rightarrow> (nat \<Rightarrow> nat) \<Rightarrow> BaselineContext \<Rightarrow> BaselineGeneration \<Rightarrow> BaselineLimits \<Rightarrow>
   ReplicationError + 'p ServerBaselines" where
  "server_baselines_new entry_size client_size alloc context generation limits =
    and_then (cache_new entry_size client_size alloc context generation limits) (\<lambda>c. Inr \<lparr>sb_cache = c\<rparr>)"

definition newest_decoded :: "'p ServerBaselines \<Rightarrow> BaselineReceipt option" where
  "newest_decoded s = map_option en_receipt (find en_decoded (rev (ca_entries (sb_cache s))))"

definition encode_target ::
  "'p BaselineCodec \<Rightarrow> 'p BaselineState \<Rightarrow> BaselineReceipt option \<Rightarrow> 'p Cache \<Rightarrow>
   ReplicationError + (BaselineEncoding \<times> vec)" where
  "encode_target codec target base0 c =
    (let limit = bl_packet_bytes (ca_limits c);
         full_encoding = and_then (bc_encode_full codec (st_payload target) limit) (\<lambda>b. Inr (Full, b)) in
     case base0 of
       None \<Rightarrow> full_encoding
     | Some base \<Rightarrow>
       and_then (cache_entry base c) (\<lambda>entry.
         if \<not> en_decoded entry then Inl Unknown
         else if br_snapshot base \<ge> br_snapshot (st_receipt target) then Inl InvalidIdentity
         else
           and_then (bc_encode_full codec (st_payload target) limit) (\<lambda>full.
             if snd full > limit then Inl Capacity
             else case bc_encode_delta codec (st_payload (en_state entry)) (st_payload target) limit of
               Inr delta \<Rightarrow>
                 (if snd delta > limit then Inl Capacity
                  else if length (fst delta) < length (fst full) then Inr (Delta base, delta)
                  else full_encoding)
             | Inl Capacity \<Rightarrow> full_encoding
             | Inl error \<Rightarrow> Inl error)))"

definition transmit_packet ::
  "'p Payload \<Rightarrow> 'p BaselineCodec \<Rightarrow> 'p BaselineState \<Rightarrow> BaselineReceipt option \<Rightarrow> 'p ServerBaselines \<Rightarrow>
   ReplicationError + (bool \<times> BaselinePacket)" where
  "transmit_packet pl codec target base s =
    and_then (cache_check pl target (sb_cache s)) (\<lambda>insert.
      if \<not> bc_validate codec (st_payload target) then Inl InvalidPayload
      else
        and_then (encode_target codec target base (sb_cache s)) (\<lambda>(encoding, bytes).
          if snd bytes > bl_packet_bytes (ca_limits (sb_cache s)) then Inl Capacity
          else Inr (insert, \<lparr>pk_target = st_receipt target, pk_encoding = encoding, pk_bytes = bytes\<rparr>)))"

definition transmit ::
  "'p Payload \<Rightarrow> 'p BaselineCodec \<Rightarrow> (BaselinePacket \<Rightarrow> bool) \<Rightarrow> 'p BaselineState \<Rightarrow> BaselineReceipt option \<Rightarrow>
   'p ServerBaselines \<Rightarrow> (ReplicationError + bool) \<times> 'p ServerBaselines" where
  "transmit pl codec send target base s =
    attempt (transmit_packet pl codec target base s) s (\<lambda>(insert, packet).
      if \<not> send packet then (Inr False, s)
      else if insert then (Inr True, s\<lparr>sb_cache := cache_insert pl target False (sb_cache s)\<rparr>)
      else (Inr True, s))"

definition validate_acknowledgment :: "BaselineReceipt \<Rightarrow> 'p ServerBaselines \<Rightarrow> ReplicationError + unit" where
  "validate_acknowledgment receipt s = and_then (cache_entry receipt (sb_cache s)) (\<lambda>_. Inr ())"

text \<open>\<open>find\<close> and \<open>unwrap\<close>: the first entry with this receipt is marked.\<close>

fun mark_decoded :: "BaselineReceipt \<Rightarrow> 'p Entry list \<Rightarrow> 'p Entry list" where
  "mark_decoded receipt [] = []"
| "mark_decoded receipt (e # es) =
    (if en_receipt e = receipt then e\<lparr>en_decoded := True\<rparr> # es else e # mark_decoded receipt es)"

definition server_acknowledge ::
  "BaselineReceipt \<Rightarrow> 'p ServerBaselines \<Rightarrow> (ReplicationError + unit) \<times> 'p ServerBaselines" where
  "server_acknowledge receipt s =
    attempt (validate_acknowledgment receipt s) s (\<lambda>_.
      (Inr (), s\<lparr>sb_cache := (sb_cache s)\<lparr>ca_entries := mark_decoded receipt (ca_entries (sb_cache s))\<rparr>\<rparr>))"

definition validate_retirement :: "BaselineRetirement \<Rightarrow> 'p ServerBaselines \<Rightarrow> ReplicationError + unit" where
  "validate_retirement request s = cache_retirement request (sb_cache s)"

definition server_retire ::
  "'p Payload \<Rightarrow> BaselineRetirement \<Rightarrow> 'p ServerBaselines \<Rightarrow>
   (ReplicationError + BaselineRetirement) \<times> 'p ServerBaselines" where
  "server_retire pl request s =
    attempt (validate_retirement request s) s (\<lambda>_.
      (Inr request, s\<lparr>sb_cache := cache_discard pl (rt_through request) (sb_cache s)\<rparr>))"

definition begin_reset ::
  "'p Payload \<Rightarrow> 'p ServerBaselines \<Rightarrow> (ReplicationError + BaselineReset) \<times> 'p ServerBaselines" where
  "begin_reset pl s =
    attempt (ok_or ResetRequired (checked_next (ca_generation (sb_cache s)))) s (\<lambda>generation.
      let reset = \<lparr>rs_context = ca_context (sb_cache s), rs_generation = generation\<rparr> in
      case cache_reset pl reset (sb_cache s) of
        (Inl e, c) \<Rightarrow> (Inl e, s\<lparr>sb_cache := c\<rparr>)
      | (Inr _, c) \<Rightarrow> (Inr reset, s\<lparr>sb_cache := c\<rparr>))"

definition server_close :: "'p Payload \<Rightarrow> 'p ServerBaselines \<Rightarrow> 'p ServerBaselines" where
  "server_close pl s = s\<lparr>sb_cache := cache_close pl (sb_cache s)\<rparr>"

section \<open>Client\<close>

record 'p ClientBaselines =
  cb_cache :: "'p Cache"
  cb_proposed :: "BaselineRetirement option"
  cb_repair_pending :: bool
  cb_last_repair_ms :: "u64 option"

definition client_baselines_new ::
  "usize \<Rightarrow> usize \<Rightarrow> (nat \<Rightarrow> nat) \<Rightarrow> BaselineContext \<Rightarrow> BaselineGeneration \<Rightarrow> BaselineLimits \<Rightarrow>
   ReplicationError + 'p ClientBaselines" where
  "client_baselines_new entry_size client_size alloc context generation limits =
    and_then (cache_new entry_size client_size alloc context generation limits) (\<lambda>c.
      Inr \<lparr>cb_cache = c, cb_proposed = None, cb_repair_pending = False, cb_last_repair_ms = None\<rparr>)"

definition current_state :: "'p ClientBaselines \<Rightarrow> 'p BaselineState option" where
  "current_state k = (if ca_entries (cb_cache k) = [] then None else Some (en_state (last (ca_entries (cb_cache k)))))"

definition client_state :: "BaselineReceipt \<Rightarrow> 'p ClientBaselines \<Rightarrow> ReplicationError + 'p BaselineState" where
  "client_state receipt k = and_then (cache_entry receipt (cb_cache k)) (\<lambda>e. Inr (en_state e))"

text \<open>Decoding a complete state: structure first, then the codec's and the caller's validation.\<close>

definition decode_checked ::
  "'p BaselineCodec \<Rightarrow> ('p \<Rightarrow> bool) \<Rightarrow> BaselinePacket \<Rightarrow> usize \<Rightarrow> ReplicationError + unit" where
  "decode_checked codec valid packet limit =
    and_then (bc_decode_full codec (fst (pk_bytes packet)) limit) (\<lambda>payload.
      if \<not> bc_validate codec payload \<or> \<not> valid payload then Inl InvalidPayload else Inr ())"

text \<open>A full packet that will be refused is still validated, so that malformed bytes win over the refusal.\<close>

definition refuse ::
  "'p BaselineCodec \<Rightarrow> ('p \<Rightarrow> bool) \<Rightarrow> BaselinePacket \<Rightarrow> usize \<Rightarrow> ReplicationError \<Rightarrow> ReplicationError" where
  "refuse codec valid packet limit error =
    (if pk_encoding packet = Full
     then (case decode_checked codec valid packet limit of Inl e \<Rightarrow> e | Inr _ \<Rightarrow> error)
     else error)"

definition base_malformed :: "BaselineReceipt \<Rightarrow> BaselineReceipt \<Rightarrow> bool" where
  "base_malformed base target \<longleftrightarrow> br_context base \<noteq> br_context target
    \<or> br_generation base \<noteq> br_generation target \<or> br_snapshot base = 0 \<or> br_version base = 0
    \<or> br_snapshot base \<ge> br_snapshot target \<or> br_version base > br_version target
    \<or> br_end_tick base > br_end_tick target"

definition contradicts :: "BaselineReceipt \<Rightarrow> BaselineReceipt \<Rightarrow> bool" where
  "contradicts target latest \<longleftrightarrow>
    br_snapshot target < br_snapshot latest
      \<and> (br_version target > br_version latest \<or> br_end_tick target > br_end_tick latest)
    \<or> br_snapshot target > br_snapshot latest
      \<and> (br_version target < br_version latest \<or> br_end_tick target < br_end_tick latest)
    \<or> br_snapshot target = br_snapshot latest
      \<and> (br_version target \<noteq> br_version latest \<or> br_end_tick target \<noteq> br_end_tick latest)"

definition is_obsolete :: "ReplicationError \<Rightarrow> bool" where
  "is_obsolete e \<longleftrightarrow> (case e of Obsolete _ \<Rightarrow> True | _ \<Rightarrow> False)"

text \<open>The refusals of \<open>receive\<close> before the payload is reconstructed.\<close>

definition receive_gate ::
  "'p BaselineCodec \<Rightarrow> ('p \<Rightarrow> bool) \<Rightarrow> BaselinePacket \<Rightarrow> 'p Cache \<Rightarrow> ReplicationError option" where
  "receive_gate codec valid packet c =
    (let target = pk_target packet; limit = bl_payload_bytes (ca_limits c) in
     if snd (pk_bytes packet) > bl_packet_bytes (ca_limits c) then Some Capacity
     else case context_validate (br_context target) of
       Inl e \<Rightarrow> Some e
     | Inr _ \<Rightarrow>
       (if br_generation target = 0 \<or> br_snapshot target = 0 \<or> br_version target = 0
        then Some InvalidIdentity
        else if (case pk_encoding packet of Full \<Rightarrow> False | Delta base \<Rightarrow> base_malformed base target)
        then Some InvalidIdentity
        else if (case ca_latest c of None \<Rightarrow> False | Some latest \<Rightarrow> contradicts target latest)
        then Some Conflict
        else if \<not> ca_closed c \<and> br_context target = ca_context c \<and> br_generation target < ca_generation c
        then Some (refuse codec valid packet limit (Obsolete RetiredBaseline))
        else if \<not> ca_closed c \<and> br_context target = ca_context c
          \<and> checked_next (ca_generation c) = Some (br_generation target) \<and> pk_encoding packet = Full
        then Some (refuse codec valid packet limit BaselineResetPending)
        else case cache_identity target c of
          Inl error \<Rightarrow> Some (if is_obsolete error then refuse codec valid packet limit error else error)
        | Inr _ \<Rightarrow>
          (case ca_latest c of
             None \<Rightarrow> None
           | Some latest \<Rightarrow>
             (if br_snapshot target < br_snapshot latest
                 \<and> \<not> (\<exists>e \<in> set (ca_entries c). en_snapshot e = br_snapshot target)
              then if br_version target > br_version latest \<or> br_end_tick target > br_end_tick latest
                then Some Conflict
                else Some (refuse codec valid packet limit (Obsolete Publication))
              else None))))"

text \<open>Reconstruction, with whether a failure asks for repair.\<close>

definition receive_payload ::
  "'p BaselineCodec \<Rightarrow> BaselinePacket \<Rightarrow> 'p Cache \<Rightarrow> (ReplicationError \<times> bool) + 'p" where
  "receive_payload codec packet c =
    (let target = pk_target packet; limit = bl_payload_bytes (ca_limits c) in
     case pk_encoding packet of
       Full \<Rightarrow> (case bc_decode_full codec (fst (pk_bytes packet)) limit of
           Inl e \<Rightarrow> Inl (e, False) | Inr payload \<Rightarrow> Inr payload)
     | Delta base \<Rightarrow>
       (if br_context base \<noteq> br_context target \<or> br_generation base \<noteq> br_generation target
           \<or> br_snapshot base \<ge> br_snapshot target
        then Inl (InvalidIdentity, False)
        else case cache_entry base c of
          Inl error \<Rightarrow> Inl (error, \<not> is_obsolete error \<and>
            (case ca_latest c of None \<Rightarrow> True | Some r \<Rightarrow> br_snapshot target > br_snapshot r))
        | Inr entry \<Rightarrow>
          (case bc_decode_delta codec (st_payload (en_state entry)) (fst (pk_bytes packet)) limit of
             Inl e \<Rightarrow> Inl (e, False) | Inr payload \<Rightarrow> Inr payload)))"

definition receive ::
  "'p Payload \<Rightarrow> 'p BaselineCodec \<Rightarrow> ('p \<Rightarrow> bool) \<Rightarrow> BaselinePacket \<Rightarrow> 'p ClientBaselines \<Rightarrow>
   (ReplicationError + BaselineReceipt) \<times> 'p ClientBaselines" where
  "receive pl codec valid packet k =
    (case receive_gate codec valid packet (cb_cache k) of
       Some e \<Rightarrow> (Inl e, k)
     | None \<Rightarrow>
       (case receive_payload codec packet (cb_cache k) of
          Inl (e, repair) \<Rightarrow> (Inl e, if repair then k\<lparr>cb_repair_pending := True\<rparr> else k)
        | Inr payload \<Rightarrow>
          (if \<not> bc_validate codec payload \<or> \<not> valid payload then (Inl InvalidPayload, k)
           else
             let st = \<lparr>st_receipt = pk_target packet, st_payload = payload\<rparr> in
             attempt (cache_check pl st (cb_cache k)) k (\<lambda>insert.
               (Inr (pk_target packet),
                k\<lparr>cb_cache := (if insert then cache_insert pl st True (cb_cache k) else cb_cache k),
                  cb_repair_pending := (if pk_encoding packet = Full then False else cb_repair_pending k)\<rparr>)))))"

definition propose_retirement ::
  "SnapshotId \<Rightarrow> 'p ClientBaselines \<Rightarrow> (ReplicationError + BaselineRetirement) \<times> 'p ClientBaselines" where
  "propose_retirement through k =
    (let request = \<lparr>rt_context = ca_context (cb_cache k), rt_generation = ca_generation (cb_cache k),
                    rt_through = through\<rparr> in
     attempt (cache_retirement request (cb_cache k)) k (\<lambda>_.
       if through \<le> ca_retired (cb_cache k) then (Inl Stale, k)
       else if (case cb_proposed k of None \<Rightarrow> False | Some old \<Rightarrow> old \<noteq> request) then (Inl Incomplete, k)
       else (Inr request, k\<lparr>cb_proposed := Some request\<rparr>)))"

definition acknowledge_retirement ::
  "'p Payload \<Rightarrow> BaselineRetirement \<Rightarrow> 'p ClientBaselines \<Rightarrow> (ReplicationError + unit) \<times> 'p ClientBaselines" where
  "acknowledge_retirement pl fence k =
    attempt (cache_envelope (rt_context fence) (rt_generation fence) (cb_cache k)) k (\<lambda>_.
      if rt_through fence \<le> ca_retired (cb_cache k) then (Inr (), k)
      else if cb_proposed k \<noteq> Some fence then (Inl Unknown, k)
      else attempt (cache_retirement fence (cb_cache k)) k (\<lambda>_.
        (Inr (), k\<lparr>cb_cache := cache_discard pl (rt_through fence) (cb_cache k), cb_proposed := None\<rparr>)))"

definition request_reset :: "'p ClientBaselines \<Rightarrow> 'p ClientBaselines" where
  "request_reset k = k\<lparr>cb_repair_pending := True\<rparr>"

definition repair_request :: "u64 \<Rightarrow> 'p ClientBaselines \<Rightarrow> BaselineRepair option \<times> 'p ClientBaselines" where
  "repair_request now_ms k =
    (if ca_closed (cb_cache k) \<or> \<not> cb_repair_pending k
        \<or> (case cb_last_repair_ms k of None \<Rightarrow> False
           | Some last_ms \<Rightarrow> now_ms < saturating_add last_ms (bl_repair_interval_ms (ca_limits (cb_cache k))))
     then (None, k)
     else (Some \<lparr>rp_context = ca_context (cb_cache k), rp_generation = ca_generation (cb_cache k)\<rparr>,
       k\<lparr>cb_last_repair_ms := Some now_ms\<rparr>))"

definition apply_reset ::
  "'p Payload \<Rightarrow> BaselineReset \<Rightarrow> 'p ClientBaselines \<Rightarrow> (ReplicationError + unit) \<times> 'p ClientBaselines" where
  "apply_reset pl reset k =
    (let changed = rs_generation reset \<noteq> ca_generation (cb_cache k) in
     case cache_reset pl reset (cb_cache k) of
       (Inl e, c) \<Rightarrow> (Inl e, k\<lparr>cb_cache := c\<rparr>)
     | (Inr _, c) \<Rightarrow>
       (Inr (), if changed then k\<lparr>cb_cache := c, cb_proposed := None, cb_repair_pending := True\<rparr>
          else k\<lparr>cb_cache := c\<rparr>))"

definition client_close :: "'p Payload \<Rightarrow> 'p ClientBaselines \<Rightarrow> 'p ClientBaselines" where
  "client_close pl k = k\<lparr>cb_cache := cache_close pl (cb_cache k), cb_proposed := None, cb_repair_pending := False\<rparr>"

end
