(* ===== verification/Net_Baseline_Facts.thy ===== *)
theory Net_Baseline_Facts
  imports Net_Baseline_Peers
begin

text \<open>
  Facts about the baseline components taken alone: byte patches invert, the interface \<open>baseline_codec\<close>
  that the protocol proof relies on with its interpretation on \<open>byte_patch\<close>, and the invariant of the
  bounded cache with its preservation by every cache operation.
\<close>

section \<open>Byte patches\<close>

lemma common_le: "common xs ys \<le> length xs" "common xs ys \<le> length ys"
  by (induction xs ys rule: common.induct) auto

lemma take_common: "take (common xs ys) xs = take (common xs ys) ys"
  by (induction xs ys rule: common.induct) auto

lemma common_suffix:
  assumes "k = common (rev xs) (rev ys)"
  shows "drop (length xs - k) xs = drop (length ys - k) ys" "k \<le> length xs" "k \<le> length ys"
proof -
  have "take k (rev xs) = take k (rev ys)"
    using take_common[of "rev xs" "rev ys"] assms by simp
  then show "drop (length xs - k) xs = drop (length ys - k) ys"
    by (simp add: take_rev)
  show "k \<le> length xs" "k \<le> length ys"
    using common_le[of "rev xs" "rev ys"] assms by simp_all
qed

text \<open>The three parts of a patched value.\<close>

lemma patch_parts:
  assumes p_def: "p = common base val" and k_def: "k = common (rev (drop p base)) (rev (drop p val))"
  shows "take p base @ byte_range p (length val - k) val @ drop (length base - k) base = val"
    and "p + k \<le> length base" "p + k \<le> length val"
    and "length (byte_range p (length val - k) val) = length val - (p + k)"
proof -
  have p: "p \<le> length base" "p \<le> length val" "take p base = take p val"
    using common_le[of base val] take_common[of base val] by (simp_all add: p_def)
  note suf = common_suffix[OF k_def]
  show le: "p + k \<le> length base" "p + k \<le> length val"
    using suf(2,3) p by simp_all
  have "drop (length base - k) base = drop (length val - k) val"
    using suf(1) le p by simp
  moreover have "byte_range p (length val - k) val @ drop (length val - k) val = drop p val"
  proof -
    have "drop (length val - k) val = drop (length val - k - p) (drop p val)"
      using le by (simp add: add.commute)
    then show ?thesis
      by (metis append_take_drop_id byte_range_def)
  qed
  ultimately show "take p base @ byte_range p (length val - k) val @ drop (length base - k) base = val"
    using p(3) by simp
  show "length (byte_range p (length val - k) val) = length val - (p + k)"
    using le by (simp add: byte_range_def)
qed

lemma u32_try_from_Some: "u32_try_from n = Some w \<longleftrightarrow> unat w = n"
  using unat_less_2p[of w] by (auto simp: u32_try_from_def unat_of_nat take_bit_nat_eq_self word_unat_eq_iff)

lemma encode_delta_parts:
  assumes "patch_encode_delta alloc base val limit = Inr b"
  obtains p k middle where
    "take p (fst base) @ middle @ drop (length (fst base) - k) (fst base) = fst val"
    "p + k \<le> length (fst base)" "p + k \<le> length (fst val)" "length middle = length (fst val) - (p + k)"
    "length (fst val) < 2 ^ 32"
    "b = (le_bytes 4 (length (fst val)) @ le_bytes 4 p @ le_bytes 4 k @ middle, alloc (length middle + 12))"
    "length middle + 12 \<le> limit"
proof -
  define p where "p = common (fst base) (fst val)"
  define k where "k = common (rev (drop p (fst base))) (rev (drop p (fst val)))"
  define middle where "middle = byte_range p (length (fst val) - k) (fst val)"
  note parts = patch_parts[OF p_def k_def, folded middle_def]
  obtain l p' k' where w: "u32_try_from (length (fst val)) = Some l" "u32_try_from p = Some p'"
      "u32_try_from k = Some k'" "length middle + 12 \<le> limit"
      "b = (le_bytes 4 (unat l) @ le_bytes 4 (unat p') @ le_bytes 4 (unat k') @ middle, alloc (length middle + 12))"
    using assms
    by (auto simp: patch_encode_delta_def Let_def p_def[symmetric] k_def[symmetric] middle_def[symmetric]
        usize_checked_add_def split: option.splits if_splits)
  have "length (fst val) < 2 ^ 32"
    using w(1) by (simp add: u32_try_from_def split: if_splits)
  then show thesis
    using that[OF parts(1-4)] w by (simp add: u32_try_from_Some)
qed

lemma decode_encode_delta:
  assumes enc: "patch_encode_delta alloc base val limit = Inr b" and base: "fst base' = fst base"
  shows "patch_decode_delta alloc' base' (fst b) limit' =
    (if length (fst val) > limit' then Inl Capacity else Inr (fst val, alloc' (length (fst val))))"
  using enc
proof (cases rule: encode_delta_parts)
  case (1 p k middle)
  have fits: "p < 256 ^ 4" "k < 256 ^ 4" "length (fst val) < 256 ^ 4"
    using 1(3,5) by simp_all
  have fields: "byte_range 0 4 (fst b) = le_bytes 4 (length (fst val))" "byte_range 4 8 (fst b) = le_bytes 4 p"
      "byte_range 8 12 (fst b) = le_bytes 4 k" "drop 12 (fst b) = middle" "length (fst b) = 12 + length middle"
    using 1(6) by (simp_all add: byte_range_def)
  have "p + k \<le> usize_max"
    using fits by (simp add: usize_max_def)
  then show ?thesis
    using 1(1-4) fits base
    by (simp add: patch_decode_delta_def fields from_le_le_bytes Let_def usize_checked_add_def)
qed

section \<open>The codec interface\<close>

text \<open>
  What the protocol needs of a codec: equality is an equivalence, and decoding what was encoded, when it
  succeeds, gives an equal value, for a delta also when it is applied to an equal base.
\<close>

locale baseline_codec =
  fixes pl :: "'p Payload" and codec :: "'p BaselineCodec"
  assumes eq_refl: "pl_eq pl x x"
    and eq_sym: "pl_eq pl x y \<Longrightarrow> pl_eq pl y x"
    and eq_trans: "pl_eq pl x y \<Longrightarrow> pl_eq pl y z \<Longrightarrow> pl_eq pl x z"
    and full_sound: "bc_encode_full codec v l = Inr b \<Longrightarrow> bc_decode_full codec (fst b) l' = Inr p \<Longrightarrow> pl_eq pl p v"
    and delta_sound: "bc_encode_delta codec base v l = Inr b \<Longrightarrow> pl_eq pl base' base \<Longrightarrow>
      bc_decode_delta codec base' (fst b) l' = Inr p \<Longrightarrow> pl_eq pl p v"

interpretation patch_codec: baseline_codec vec_payload "byte_patch alloc" for alloc
proof unfold_locales
  fix base v b base' p :: vec and l l'
  assume "bc_encode_delta (byte_patch alloc) base v l = Inr b" "pl_eq vec_payload base' base"
    "bc_decode_delta (byte_patch alloc) base' (fst b) l' = Inr p"
  then show "pl_eq vec_payload p v"
    using decode_encode_delta[of alloc base v l b base' alloc l']
    by (auto simp: byte_patch_def vec_payload_def split: if_splits)
qed (auto simp: vec_payload_def byte_patch_def patch_encode_full_def patch_decode_full_def split: if_splits)

section \<open>The cache invariant\<close>

definition entry_ok :: "'p Cache \<Rightarrow> 'p Entry \<Rightarrow> bool" where
  "entry_ok c e \<longleftrightarrow> br_context (en_receipt e) = ca_context c \<and> br_generation (en_receipt e) = ca_generation c
    \<and> ca_retired c < en_snapshot e \<and> br_version (en_receipt e) \<noteq> 0"

definition cache_ok :: "'p Payload \<Rightarrow> usize \<Rightarrow> 'p Cache \<Rightarrow> bool" where
  "cache_ok pl table c \<longleftrightarrow>
    sorted_wrt (<) (map en_snapshot (ca_entries c))
    \<and> (\<forall>e \<in> set (ca_entries c). entry_ok c e)
    \<and> ca_bytes c = table + entries_bytes pl (ca_entries c)
    \<and> ca_bytes c \<le> bl_resident_bytes (ca_limits c)
    \<and> length (ca_entries c) \<le> bl_slots (ca_limits c)
    \<and> (ca_entries c \<noteq> [] \<longrightarrow> ca_latest c = Some (en_receipt (last (ca_entries c))))
    \<and> (ca_closed c \<longrightarrow> ca_entries c = [])"

lemma entries_bytes_simps [simp]:
  "entries_bytes pl [] = 0"
  "entries_bytes pl (e # es) = pl_retained_bytes pl (st_payload (en_state e)) + entries_bytes pl es"
  "entries_bytes pl (es @ fs) = entries_bytes pl es + entries_bytes pl fs"
  by (simp_all add: entries_bytes_def)

lemma entries_bytes_split:
  "entries_bytes pl (filter P es) + entries_bytes pl (filter (\<lambda>e. \<not> P e) es) = entries_bytes pl es"
  by (induction es) auto

lemma cache_new_ok:
  assumes "cache_new entry_size client_size alloc context generation limits = Inr c"
  shows "cache_ok pl (ca_bytes c) c \<and> ca_entries c = [] \<and> ca_context c = context
    \<and> ca_generation c = generation \<and> ca_limits c = limits \<and> ca_retired c = 0 \<and> ca_latest c = None \<and> \<not> ca_closed c
    \<and> generation \<noteq> 0"
  using assms
  by (auto simp: cache_new_def cache_ok_def res_simps usize_checked_add_def split: if_splits option.splits)

lemma find_snapshot_Some:
  "find_snapshot n c = Some e \<Longrightarrow> e \<in> set (ca_entries c) \<and> en_snapshot e = n"
  by (auto simp: find_snapshot_def find_Some_iff)

lemma find_snapshot_None:
  "find_snapshot n c = None \<longleftrightarrow> (\<forall>e \<in> set (ca_entries c). en_snapshot e \<noteq> n)"
  by (auto simp: find_snapshot_def find_None_iff)

lemma snapshot_unique:
  assumes "sorted_wrt (<) (map en_snapshot es)" "e \<in> set es" "f \<in> set es" "en_snapshot e = en_snapshot f"
  shows "e = f"
  using assms by (meson distinct_map inj_onD strict_sorted_iff)

lemma cache_identity_Inr:
  "cache_identity r c = Inr () \<longleftrightarrow> \<not> ca_closed c \<and> br_context r = ca_context c \<and> br_generation r = ca_generation c
    \<and> br_snapshot r \<noteq> 0 \<and> br_version r \<noteq> 0 \<and> ca_retired c < br_snapshot r"
  by (auto simp: cache_identity_def cache_envelope_def res_simps split: if_splits)

lemma cache_entry_Inr:
  assumes "cache_ok pl table c"
  shows "cache_entry r c = Inr e \<longleftrightarrow> \<not> ca_closed c \<and> e \<in> set (ca_entries c) \<and> en_receipt e = r"
proof -
  have sorted: "sorted_wrt (<) (map en_snapshot (ca_entries c))" and ok: "\<forall>e \<in> set (ca_entries c). entry_ok c e"
    using assms by (simp_all add: cache_ok_def)
  have find: "find_snapshot (en_snapshot e) c = Some e" if e: "e \<in> set (ca_entries c)" for e
  proof (cases "find_snapshot (en_snapshot e) c")
    case None
    then show ?thesis
      using e find_snapshot_None by blast
  next
    case (Some f)
    then show ?thesis
      using e snapshot_unique[OF sorted] find_snapshot_Some by metis
  qed
  have identity: "cache_identity (en_receipt e) c = Inr ()" if "\<not> ca_closed c" "e \<in> set (ca_entries c)" for e
    using that ok unfolding cache_identity_Inr entry_ok_def by (metis word_not_simps(1))
  show ?thesis
  proof
    assume "cache_entry r c = Inr e"
    then have "cache_identity r c = Inr ()" "find_snapshot (br_snapshot r) c = Some e" "en_receipt e = r"
      by (auto simp: cache_entry_def res_simps split: if_splits)
    then show "\<not> ca_closed c \<and> e \<in> set (ca_entries c) \<and> en_receipt e = r"
      using find_snapshot_Some cache_identity_Inr by blast
  next
    assume "\<not> ca_closed c \<and> e \<in> set (ca_entries c) \<and> en_receipt e = r"
    then show "cache_entry r c = Inr e"
      using identity find by (auto simp: cache_entry_def)
  qed
qed

section \<open>Cache operations\<close>

lemma cache_check_True:
  assumes "cache_check pl st c = Inr True"
  shows "cache_identity (st_receipt st) c = Inr ()"
    and "find_snapshot (br_snapshot (st_receipt st)) c = None"
    and "\<And>l. ca_latest c = Some l \<Longrightarrow> br_snapshot l < br_snapshot (st_receipt st)
      \<and> br_version l \<le> br_version (st_receipt st) \<and> br_end_tick l \<le> br_end_tick (st_receipt st)"
    and "length (ca_entries c) < bl_slots (ca_limits c)"
    and "ca_bytes c + pl_retained_bytes pl (st_payload st) \<le> bl_resident_bytes (ca_limits c)"
  using assms
  by (auto simp: cache_check_def check_latest_def Let_def res_simps usize_checked_add_def not_le not_less
      split: if_splits option.splits)

lemma cache_check_False:
  assumes "cache_check pl st c = Inr False"
  shows "cache_identity (st_receipt st) c = Inr ()
    \<and> (\<exists>e \<in> set (ca_entries c). en_receipt e = st_receipt st \<and> pl_eq pl (st_payload (en_state e)) (st_payload st))"
  using assms
  by (auto simp: cache_check_def baseline_state_eq_def Let_def res_simps split: if_splits option.splits
      dest: find_snapshot_Some)

lemma cache_latest_bounds:
  "cache_ok pl table c \<Longrightarrow> e \<in> set (ca_entries c) \<Longrightarrow> ca_latest c = Some l \<Longrightarrow> en_snapshot e \<le> br_snapshot l"
proof -
  assume ok: "cache_ok pl table c" and e: "e \<in> set (ca_entries c)" and l: "ca_latest c = Some l"
  have "l = en_receipt (last (ca_entries c))"
    using ok e l by (auto simp: cache_ok_def)
  moreover have "en_snapshot e \<le> en_snapshot (last (ca_entries c))"
  proof (cases "e = last (ca_entries c)")
    case False
    have ne: "ca_entries c = butlast (ca_entries c) @ [last (ca_entries c)]"
      using e by (cases "ca_entries c") auto
    then have "e \<in> set (butlast (ca_entries c))"
      using e False by (metis rotate1.simps(2) set_ConsD set_rotate1)
    moreover have "sorted_wrt (<) (map en_snapshot (butlast (ca_entries c) @ [last (ca_entries c)]))"
      using ok ne by (simp add: cache_ok_def)
    ultimately show ?thesis
      by (simp add: sorted_wrt_append less_imp_le)
  qed simp
  ultimately show ?thesis
    by simp
qed

lemma cache_insert_ok:
  assumes ok: "cache_ok pl table c" and check: "cache_check pl st c = Inr True"
  shows "cache_ok pl table (cache_insert pl st decoded c)"
proof -
  note new = cache_check_True[OF check]
  have "en_snapshot e < br_snapshot (st_receipt st)" if e: "e \<in> set (ca_entries c)" for e
  proof -
    obtain l where l: "ca_latest c = Some l"
      using ok e by (auto simp: cache_ok_def)
    then show ?thesis
      using cache_latest_bounds[OF ok e l] new(3)[OF l] by (simp add: le_less_trans)
  qed
  moreover have "\<not> ca_closed c" "entry_ok c \<lparr>en_state = st, en_decoded = decoded\<rparr>"
    using new(1) by (simp_all add: cache_identity_Inr entry_ok_def)
  ultimately show ?thesis
    using ok new(4,5) unfolding cache_ok_def cache_insert_def
    by (simp add: sorted_wrt_append entry_ok_def)
qed

lemma last_filter: "es \<noteq> [] \<Longrightarrow> P (last es) \<Longrightarrow> filter P es \<noteq> [] \<and> last (filter P es) = last es"
  by (induction es rule: rev_induct) simp_all

lemma sorted_last_above:
  "sorted_wrt (<) (map en_snapshot es) \<Longrightarrow> e \<in> set es \<Longrightarrow> n < en_snapshot e \<Longrightarrow> n < en_snapshot (last es)"
  by (induction es) (auto intro: less_trans)

lemma cache_discard_ok:
  assumes ok: "cache_ok pl table c"
  shows "cache_ok pl table (cache_discard pl through c)"
proof (cases "through \<le> ca_retired c")
  case False
  define keep where "keep = filter (\<lambda>e. \<not> en_snapshot e \<le> through) (ca_entries c)"
  define gone where "gone = filter (\<lambda>e. en_snapshot e \<le> through) (ca_entries c)"
  have d: "cache_discard pl through c =
      c\<lparr>ca_bytes := ca_bytes c - entries_bytes pl gone, ca_entries := keep, ca_retired := through\<rparr>"
    using False by (simp add: cache_discard_def keep_def gone_def)
  have sorted: "sorted_wrt (<) (map en_snapshot (ca_entries c))"
    using ok by (simp add: cache_ok_def)
  then have "sorted_wrt (<) (map en_snapshot keep)"
    by (simp add: keep_def sorted_wrt_map sorted_wrt_filter)
  moreover have "ca_bytes c - entries_bytes pl gone = table + entries_bytes pl keep"
      "table + entries_bytes pl keep \<le> bl_resident_bytes (ca_limits c)"
    using ok entries_bytes_split[of pl "\<lambda>e. en_snapshot e \<le> through" "ca_entries c"]
    unfolding cache_ok_def gone_def keep_def by linarith+
  moreover have "keep \<noteq> [] \<Longrightarrow> last keep = last (ca_entries c) \<and> ca_entries c \<noteq> []"
  proof -
    assume "keep \<noteq> []"
    then obtain e where "e \<in> set (ca_entries c)" "through < en_snapshot e"
      by (auto simp: filter_empty_conv keep_def)
    then show "last keep = last (ca_entries c) \<and> ca_entries c \<noteq> []"
      using last_filter[of "ca_entries c" "\<lambda>e. \<not> en_snapshot e \<le> through"] sorted_last_above[OF sorted]
      unfolding keep_def by fastforce
  qed
  moreover have "length keep \<le> length (ca_entries c)" "ca_entries c = [] \<Longrightarrow> keep = []"
    "\<And>e. e \<in> set keep \<Longrightarrow> e \<in> set (ca_entries c) \<and> through < en_snapshot e"
    by (auto simp: keep_def)
  ultimately show ?thesis
    using ok unfolding cache_ok_def d entry_ok_def by auto
qed (use ok in \<open>simp add: cache_discard_def\<close>)

lemma cache_clear_ok: "cache_ok pl table c \<Longrightarrow> cache_ok pl table (cache_clear pl c)"
  by (auto simp: cache_ok_def cache_clear_def)

lemma cache_close_ok: "cache_ok pl table c \<Longrightarrow> cache_ok pl table (cache_close pl c)"
  by (auto simp: cache_ok_def cache_close_def cache_clear_def)

lemma cache_reset_cases:
  assumes "cache_reset pl reset c = (res, d)"
  obtains (same) "d = c" "res = Inr () \<longrightarrow> rs_generation reset = ca_generation c"
  | (fresh) "d = (cache_clear pl c)\<lparr>ca_generation := rs_generation reset\<rparr>" "\<not> ca_closed c"
      "ca_generation c < rs_generation reset" "res = Inr ()"
  using assms by (auto simp: cache_reset_def split: if_splits)

lemma cache_reset_ok:
  assumes "cache_ok pl table c"
  shows "cache_ok pl table (snd (cache_reset pl reset c))"
proof -
  obtain res d where r: "cache_reset pl reset c = (res, d)"
    by (cases "cache_reset pl reset c")
  then have "cache_ok pl table d"
    using assms by (cases rule: cache_reset_cases) (auto simp: cache_ok_def cache_clear_def)
  with r show ?thesis
    by simp
qed

lemma mark_decoded_shape:
  "map en_snapshot (mark_decoded r es) = map en_snapshot es"
  "length (mark_decoded r es) = length es"
  "entries_bytes pl (mark_decoded r es) = entries_bytes pl es"
  "es \<noteq> [] \<Longrightarrow> en_receipt (last (mark_decoded r es)) = en_receipt (last es)"
  "mark_decoded r es = [] \<longleftrightarrow> es = []"
  by (induction es) auto

lemma mark_decoded_set:
  "f \<in> set (mark_decoded r es) \<Longrightarrow> \<exists>e \<in> set es. en_state f = en_state e \<and> (en_decoded f \<longrightarrow> en_decoded e \<or> en_receipt e = r)"
  by (induction es) (auto split: if_splits)

lemma mark_decoded_ok:
  assumes ok: "cache_ok pl table c"
  shows "cache_ok pl table (c\<lparr>ca_entries := mark_decoded r (ca_entries c)\<rparr>)"
proof -
  have "entry_ok (c\<lparr>ca_entries := mark_decoded r (ca_entries c)\<rparr>) f" if "f \<in> set (mark_decoded r (ca_entries c))" for f
    using mark_decoded_set[OF that] ok by (auto simp: cache_ok_def entry_ok_def)
  then show ?thesis
    using ok unfolding cache_ok_def by (simp add: mark_decoded_shape)
qed

end
