(* ===== verification/Net_Baseline_Net.thy ===== *)
theory Net_Baseline_Net
  imports Net_Baseline_Facts
begin

text \<open>
  The baseline protocol end to end: one server cache and one client cache joined by a network that may
  lose, duplicate, delay and reorder everything, but does not forge.  Messages once sent stay available
  for delivery for ever; losing one is never delivering it.  The ledger is a history variable: every
  state the server has retained as sent, in order.
\<close>

section \<open>The joint system\<close>

record 'p baseline_net =
  bn_server :: "'p ServerBaselines"
  bn_client :: "'p ClientBaselines"
  bn_ledger :: "'p BaselineState list"
  bn_packets :: "BaselinePacket list"
  bn_receipts :: "BaselineReceipt list"
  bn_requests :: "BaselineRetirement list"
  bn_fences :: "BaselineRetirement list"
  bn_resets :: "BaselineReset list"

inductive baseline_step :: "'p Payload \<Rightarrow> 'p BaselineCodec \<Rightarrow> 'p baseline_net \<Rightarrow> 'p baseline_net \<Rightarrow> bool"
  for pl :: "'p Payload" and codec :: "'p BaselineCodec" where
  send: "transmit_packet pl codec target base (bn_server n) = Inr (new, pk) \<Longrightarrow>
    transmit pl codec (\<lambda>_. True) target base (bn_server n) = (res, s) \<Longrightarrow>
    baseline_step pl codec n (n\<lparr>bn_server := s, bn_packets := pk # bn_packets n,
      bn_ledger := bn_ledger n @ (if new then [target] else [])\<rparr>)"
| deliver: "pk \<in> set (bn_packets n) \<Longrightarrow> receive pl codec valid pk (bn_client n) = (res, k) \<Longrightarrow>
    baseline_step pl codec n (n\<lparr>bn_client := k,
      bn_receipts := (case res of Inl _ \<Rightarrow> bn_receipts n | Inr r \<Rightarrow> r # bn_receipts n)\<rparr>)"
| acknowledge: "r \<in> set (bn_receipts n) \<Longrightarrow> server_acknowledge r (bn_server n) = (res, s) \<Longrightarrow>
    baseline_step pl codec n (n\<lparr>bn_server := s\<rparr>)"
| propose: "propose_retirement through (bn_client n) = (Inr req, k) \<Longrightarrow>
    baseline_step pl codec n (n\<lparr>bn_client := k, bn_requests := req # bn_requests n\<rparr>)"
| retire: "req \<in> set (bn_requests n) \<Longrightarrow> server_retire pl req (bn_server n) = (Inr fence, s) \<Longrightarrow>
    baseline_step pl codec n (n\<lparr>bn_server := s, bn_fences := fence # bn_fences n\<rparr>)"
| fence: "fence \<in> set (bn_fences n) \<Longrightarrow> acknowledge_retirement pl fence (bn_client n) = (res, k) \<Longrightarrow>
    baseline_step pl codec n (n\<lparr>bn_client := k\<rparr>)"
| reset: "begin_reset pl (bn_server n) = (Inr reset, s) \<Longrightarrow>
    baseline_step pl codec n (n\<lparr>bn_server := s, bn_resets := reset # bn_resets n\<rparr>)"
| apply_reset: "reset \<in> set (bn_resets n) \<Longrightarrow> apply_reset pl reset (bn_client n) = (res, k) \<Longrightarrow>
    baseline_step pl codec n (n\<lparr>bn_client := k\<rparr>)"
| request_reset: "baseline_step pl codec n (n\<lparr>bn_client := request_reset (bn_client n)\<rparr>)"
| repair: "baseline_step pl codec n (n\<lparr>bn_client := snd (repair_request now_ms (bn_client n))\<rparr>)"
| close_server: "baseline_step pl codec n (n\<lparr>bn_server := server_close pl (bn_server n)\<rparr>)"
| close_client: "baseline_step pl codec n (n\<lparr>bn_client := client_close pl (bn_client n)\<rparr>)"

definition baseline_start :: "'p ServerBaselines \<Rightarrow> 'p ClientBaselines \<Rightarrow> 'p baseline_net" where
  "baseline_start s k = \<lparr>bn_server = s, bn_client = k, bn_ledger = [], bn_packets = [], bn_receipts = [],
    bn_requests = [], bn_fences = [], bn_resets = []\<rparr>"

abbreviation server_cache :: "'p baseline_net \<Rightarrow> 'p Cache" where
  "server_cache n \<equiv> sb_cache (bn_server n)"

abbreviation client_cache :: "'p baseline_net \<Rightarrow> 'p Cache" where
  "client_cache n \<equiv> cb_cache (bn_client n)"

section \<open>Effects of the two ends\<close>

lemma receive_accepted:
  assumes "receive pl codec valid pk k = (Inr r, k')"
  shows "\<exists>payload new st. receive_payload codec pk (cb_cache k) = Inr payload
    \<and> st = \<lparr>st_receipt = pk_target pk, st_payload = payload\<rparr> \<and> cache_check pl st (cb_cache k) = Inr new
    \<and> r = pk_target pk \<and> cb_cache k' = (if new then cache_insert pl st True (cb_cache k) else cb_cache k)"
proof (cases "receive_gate codec valid pk (cb_cache k)")
  case None
  show ?thesis
  proof (cases "receive_payload codec pk (cb_cache k)")
    case (Inr payload)
    let ?st = "\<lparr>st_receipt = pk_target pk, st_payload = payload\<rparr>"
    have "attempt (cache_check pl ?st (cb_cache k)) k (\<lambda>new. (Inr (pk_target pk),
        k\<lparr>cb_cache := (if new then cache_insert pl ?st True (cb_cache k) else cb_cache k),
          cb_repair_pending := (if pk_encoding pk = Full then False else cb_repair_pending k)\<rparr>)) = (Inr r, k')"
      using assms None Inr unfolding receive_def Let_def by (simp split: if_splits)
    then show ?thesis
      using Inr by (cases "cache_check pl ?st (cb_cache k)") auto
  qed (use assms None in \<open>auto simp: receive_def\<close>)
qed (use assms in \<open>simp add: receive_def\<close>)

lemma receive_cases:
  assumes "receive pl codec valid pk k = (res, k')"
  obtains (refused) e where "res = Inl e" "cb_cache k' = cb_cache k"
  | (duplicate) e where "res = Inr (pk_target pk)" "cb_cache k' = cb_cache k" "e \<in> set (ca_entries (cb_cache k))"
      "en_receipt e = pk_target pk" "br_generation (pk_target pk) = ca_generation (cb_cache k)"
  | (stored) payload st where "res = Inr (pk_target pk)" "st = \<lparr>st_receipt = pk_target pk, st_payload = payload\<rparr>"
      "cb_cache k' = cache_insert pl st True (cb_cache k)" "cache_check pl st (cb_cache k) = Inr True"
      "receive_payload codec pk (cb_cache k) = Inr payload"
proof (cases "\<exists>e. res = Inl e")
  case True
  then have "cb_cache k' = cb_cache k"
    using assms by (auto simp: receive_def Let_def res_simps split: option.splits sum.splits if_splits prod.splits)
  with True refused show thesis
    by blast
next
  case False
  then obtain r where "res = Inr r"
    by (cases res) auto
  then obtain payload new st where p: "receive_payload codec pk (cb_cache k) = Inr payload"
      and st: "st = \<lparr>st_receipt = pk_target pk, st_payload = payload\<rparr>"
      and check: "cache_check pl st (cb_cache k) = Inr new" and res: "res = Inr (pk_target pk)"
      and k': "cb_cache k' = (if new then cache_insert pl st True (cb_cache k) else cb_cache k)"
    using receive_accepted assms by metis
  show thesis
  proof (cases new)
    case True
    then show thesis
      using stored[OF res st] k' check p by simp
  next
    case False
    then show thesis
      using duplicate[OF res] k' cache_check_False[of pl st "cb_cache k"] check st
      by (auto simp: cache_identity_Inr)
  qed
qed

lemma transmit_sent:
  assumes "transmit_packet pl codec target base s = Inr (new, pk)"
    and "transmit pl codec (\<lambda>_. True) target base s = (res, s')"
  shows "cache_check pl target (sb_cache s) = Inr new"
    and "sb_cache s' = (if new then cache_insert pl target False (sb_cache s) else sb_cache s)"
    and "pk_target pk = st_receipt target"
    and "encode_target codec target base (sb_cache s) = Inr (pk_encoding pk, pk_bytes pk)"
  using assms by (auto simp: transmit_packet_def transmit_def res_simps split: if_splits)

lemma encode_target_cases:
  assumes "encode_target codec target base c = Inr (encoding, bytes)"
  obtains (full) l where "encoding = Full" "bc_encode_full codec (st_payload target) l = Inr bytes"
  | (delta) r e l where "encoding = Delta r" "cache_entry r c = Inr e"
      "bc_encode_delta codec (st_payload (en_state e)) (st_payload target) l = Inr bytes"
  using assms unfolding encode_target_def Let_def
  by (fastforce simp: res_simps split: option.splits if_splits sum.splits ReplicationError.splits)

lemma server_acknowledge_cases:
  assumes "server_acknowledge r s = (res, s')"
  obtains "s' = s"
  | e where "cache_entry r (sb_cache s) = Inr e"
      "sb_cache s' = (sb_cache s)\<lparr>ca_entries := mark_decoded r (ca_entries (sb_cache s))\<rparr>"
proof (cases "cache_entry r (sb_cache s)")
  case (Inl e)
  then show thesis
    using assms that(1) by (simp add: server_acknowledge_def validate_acknowledgment_def)
next
  case (Inr e)
  then show thesis
    using assms that(2) by (auto simp: server_acknowledge_def validate_acknowledgment_def)
qed

lemma acknowledge_retirement_cases:
  assumes "acknowledge_retirement pl fence k = (res, k')"
  obtains "cb_cache k' = cb_cache k" | "cb_cache k' = cache_discard pl (rt_through fence) (cb_cache k)"
proof -
  have "cb_cache k' = cb_cache k \<or> cb_cache k' = cache_discard pl (rt_through fence) (cb_cache k)"
    using assms unfolding acknowledge_retirement_def
    by (cases "cache_envelope (rt_context fence) (rt_generation fence) (cb_cache k)";
        cases "cache_retirement fence (cb_cache k)") (auto split: if_splits)
  then show thesis
    using that by blast
qed

lemma apply_reset_cache:
  assumes "apply_reset pl reset k = (res, k')"
  obtains res' where "cache_reset pl reset (cb_cache k) = (res', cb_cache k')"
  using assms by (cases "cache_reset pl reset (cb_cache k)")
    (auto simp: apply_reset_def Let_def split: sum.splits if_splits)

lemma begin_reset_cache:
  assumes "begin_reset pl s = (Inr reset, s')"
  shows "cache_reset pl reset (sb_cache s) = (Inr (), sb_cache s')"
    and "checked_next (ca_generation (sb_cache s)) = Some (rs_generation reset)"
proof -
  obtain g where g: "checked_next (ca_generation (sb_cache s)) = Some g"
    using assms by (cases "checked_next (ca_generation (sb_cache s))") (auto simp: begin_reset_def)
  obtain r c where rc: "cache_reset pl \<lparr>rs_context = ca_context (sb_cache s), rs_generation = g\<rparr> (sb_cache s) = (r, c)"
    by fastforce
  show "cache_reset pl reset (sb_cache s) = (Inr (), sb_cache s')"
      "checked_next (ca_generation (sb_cache s)) = Some (rs_generation reset)"
    using assms g rc by (auto simp: begin_reset_def split: sum.splits)
qed

lemma propose_cache: "propose_retirement through k = (res, k') \<Longrightarrow> cb_cache k' = cb_cache k"
  by (cases "cache_retirement \<lparr>rt_context = ca_context (cb_cache k),
      rt_generation = ca_generation (cb_cache k), rt_through = through\<rparr> (cb_cache k)")
    (auto simp: propose_retirement_def Let_def split: if_splits)

lemma server_retire_cache:
  "server_retire pl req s = (Inr f, s') \<Longrightarrow> f = req \<and> sb_cache s' = cache_discard pl (rt_through req) (sb_cache s)"
  by (auto simp: server_retire_def res_simps)

section \<open>The joint invariant\<close>

definition follows :: "'p BaselineState \<Rightarrow> 'p BaselineState \<Rightarrow> bool" where
  "follows a b \<longleftrightarrow> br_snapshot (st_receipt a) < br_snapshot (st_receipt b)
    \<and> br_version (st_receipt a) \<le> br_version (st_receipt b)
    \<and> br_end_tick (st_receipt a) \<le> br_end_tick (st_receipt b)"

definition packet_ok :: "'p Payload \<Rightarrow> 'p BaselineCodec \<Rightarrow> 'p BaselineState list \<Rightarrow> BaselinePacket \<Rightarrow> bool" where
  "packet_ok pl codec ledger pk \<longleftrightarrow> (\<exists>st \<in> set ledger. st_receipt st = pk_target pk \<and>
    (case pk_encoding pk of
       Full \<Rightarrow> \<forall>l p. bc_decode_full codec (fst (pk_bytes pk)) l = Inr p \<longrightarrow> pl_eq pl p (st_payload st)
     | Delta r \<Rightarrow> \<exists>b \<in> set ledger. st_receipt b = r \<and> (\<forall>b' l p. pl_eq pl b' (st_payload b) \<longrightarrow>
         bc_decode_delta codec b' (fst (pk_bytes pk)) l = Inr p \<longrightarrow> pl_eq pl p (st_payload st))))"

definition copy_ok :: "'p Payload \<Rightarrow> 'p BaselineState list \<Rightarrow> 'p BaselineState \<Rightarrow> bool" where
  "copy_ok pl ledger x \<longleftrightarrow>
    (\<exists>st \<in> set ledger. st_receipt st = st_receipt x \<and> pl_eq pl (st_payload x) (st_payload st))"

definition promise_ok :: "'p Cache \<Rightarrow> BaselineReceipt \<Rightarrow> bool" where
  "promise_ok c r \<longleftrightarrow> br_generation r \<le> ca_generation c \<and>
    (\<not> ca_closed c \<and> br_generation r = ca_generation c \<longrightarrow>
      (\<exists>e \<in> set (ca_entries c). en_receipt e = r) \<or> br_snapshot r \<le> ca_retired c)"

definition caches_ok :: "'p Payload \<Rightarrow> usize \<Rightarrow> usize \<Rightarrow> 'p baseline_net \<Rightarrow> bool" where
  "caches_ok pl ts tc n \<longleftrightarrow> cache_ok pl ts (server_cache n) \<and> cache_ok pl tc (client_cache n)
    \<and> ca_context (client_cache n) = ca_context (server_cache n)
    \<and> context_validate (ca_context (server_cache n)) = Inr () \<and> ca_generation (server_cache n) \<noteq> 0
    \<and> ca_generation (client_cache n) \<le> ca_generation (server_cache n)
    \<and> ca_retired (client_cache n) \<le> ca_retired (server_cache n)
    \<and> (\<forall>f \<in> set (bn_fences n). rt_through f \<le> ca_retired (server_cache n))
    \<and> (\<forall>r \<in> set (bn_resets n). rs_generation r \<le> ca_generation (server_cache n))"

definition history_ok :: "'p Payload \<Rightarrow> 'p BaselineCodec \<Rightarrow> 'p baseline_net \<Rightarrow> bool" where
  "history_ok pl codec n \<longleftrightarrow> sorted_wrt follows (bn_ledger n)
    \<and> (\<forall>e \<in> set (ca_entries (server_cache n)). en_state e \<in> set (bn_ledger n))
    \<and> ca_latest (server_cache n) = (if bn_ledger n = [] then None else Some (st_receipt (last (bn_ledger n))))
    \<and> (\<forall>pk \<in> set (bn_packets n). packet_ok pl codec (bn_ledger n) pk)
    \<and> (\<forall>e \<in> set (ca_entries (client_cache n)). copy_ok pl (bn_ledger n) (en_state e))
    \<and> (\<forall>l. ca_latest (client_cache n) = Some l \<longrightarrow> l \<in> st_receipt ` set (bn_ledger n))"

definition promises_ok :: "'p baseline_net \<Rightarrow> bool" where
  "promises_ok n \<longleftrightarrow> (\<forall>r \<in> set (bn_receipts n). promise_ok (client_cache n) r)
    \<and> (\<forall>e \<in> set (ca_entries (server_cache n)). en_decoded e \<longrightarrow> en_receipt e \<in> set (bn_receipts n))"

definition net_ok :: "'p Payload \<Rightarrow> 'p BaselineCodec \<Rightarrow> usize \<Rightarrow> usize \<Rightarrow> 'p baseline_net \<Rightarrow> bool" where
  "net_ok pl codec ts tc n \<longleftrightarrow> caches_ok pl ts tc n \<and> history_ok pl codec n \<and> promises_ok n"

lemma ledger_unique:
  "sorted_wrt follows l \<Longrightarrow> a \<in> set l \<Longrightarrow> b \<in> set l \<Longrightarrow> st_receipt a = st_receipt b \<Longrightarrow> a = b"
  by (induction l) (auto simp: follows_def)

lemma follows_last: "sorted_wrt follows l \<Longrightarrow> a \<in> set l \<Longrightarrow> a = last l \<or> follows a (last l)"
  by (induction l) auto

lemma follows_trans: "follows a b \<Longrightarrow> follows b c \<Longrightarrow> follows a c"
  by (auto simp: follows_def)

lemma packet_ok_mono: "packet_ok pl codec l pk \<Longrightarrow> set l \<subseteq> set l' \<Longrightarrow> packet_ok pl codec l' pk"
  unfolding packet_ok_def by (cases "pk_encoding pk") (simp_all, blast+)

lemma copy_ok_mono: "copy_ok pl l x \<Longrightarrow> set l \<subseteq> set l' \<Longrightarrow> copy_ok pl l' x"
  unfolding copy_ok_def by blast

text \<open>Fields the cache operations leave alone.\<close>

lemma cache_insert_fields [simp]:
  "ca_context (cache_insert pl st d c) = ca_context c"
  "ca_generation (cache_insert pl st d c) = ca_generation c"
  "ca_retired (cache_insert pl st d c) = ca_retired c"
  "ca_closed (cache_insert pl st d c) = ca_closed c"
  "ca_entries (cache_insert pl st d c) = ca_entries c @ [\<lparr>en_state = st, en_decoded = d\<rparr>]"
  "ca_latest (cache_insert pl st d c) = Some (st_receipt st)"
  by (simp_all add: cache_insert_def)

lemma cache_discard_fields [simp]:
  "ca_context (cache_discard pl t c) = ca_context c"
  "ca_generation (cache_discard pl t c) = ca_generation c"
  "ca_retired (cache_discard pl t c) = max (ca_retired c) t"
  "ca_closed (cache_discard pl t c) = ca_closed c"
  "ca_latest (cache_discard pl t c) = ca_latest c"
  by (auto simp: cache_discard_def max_def)

lemma cache_discard_entries:
  "cache_ok pl table c \<Longrightarrow> set (ca_entries (cache_discard pl t c)) = {e \<in> set (ca_entries c). t < en_snapshot e}"
  by (auto simp: cache_discard_def cache_ok_def entry_ok_def not_le)

lemma cache_close_fields [simp]:
  "ca_context (cache_close pl c) = ca_context c"
  "ca_generation (cache_close pl c) = ca_generation c"
  "ca_retired (cache_close pl c) = ca_retired c"
  "ca_closed (cache_close pl c)"
  "ca_latest (cache_close pl c) = ca_latest c"
  "ca_entries (cache_close pl c) = []"
  by (auto simp: cache_close_def cache_clear_def)

section \<open>Preservation\<close>

text \<open>A step that leaves both caches alone.\<close>

lemma net_ok_idle:
  assumes "net_ok pl codec ts tc n" "server_cache m = server_cache n" "client_cache m = client_cache n"
    and "bn_ledger m = bn_ledger n" "bn_packets m = bn_packets n" "bn_receipts m = bn_receipts n"
    and "bn_fences m = bn_fences n" "bn_resets m = bn_resets n"
  shows "net_ok pl codec ts tc m"
  using assms unfolding net_ok_def caches_ok_def history_ok_def promises_ok_def by simp

context baseline_codec
begin

lemma send_packet_ok:
  assumes hist: "history_ok pl codec n" and cache: "cache_ok pl ts (server_cache n)"
    and enc: "encode_target codec target base (server_cache n) = Inr (pk_encoding pk, pk_bytes pk)"
    and tgt: "pk_target pk = st_receipt target"
    and st: "st \<in> set ledger" "st_receipt st = st_receipt target" "pl_eq pl (st_payload target) (st_payload st)"
    and ledger: "set (bn_ledger n) \<subseteq> set ledger"
  shows "packet_ok pl codec ledger pk"
  using enc
proof (cases rule: encode_target_cases)
  case (full l)
  have "pl_eq pl p (st_payload st)" if "bc_decode_full codec (fst (pk_bytes pk)) l' = Inr p" for l' p
    using full_sound[OF full(2) that] eq_trans st(3) by blast
  then show ?thesis
    using full(1) st tgt unfolding packet_ok_def by auto
next
  case (delta r e l)
  have e: "e \<in> set (ca_entries (server_cache n))" "en_receipt e = r"
    using delta(2) cache_entry_Inr[OF cache] by blast+
  then have "en_state e \<in> set ledger"
    using hist ledger unfolding history_ok_def by blast
  moreover have "pl_eq pl p (st_payload st)"
    if "pl_eq pl b' (st_payload (en_state e))" "bc_decode_delta codec b' (fst (pk_bytes pk)) l' = Inr p" for b' l' p
    using delta_sound[OF delta(3) that] eq_trans st(3) by blast
  ultimately show ?thesis
    using delta(1) e(2) st tgt unfolding packet_ok_def
    by (intro bexI[OF _ st(1)]) (auto intro!: bexI[of _ "en_state e"])
qed

lemma received_copy:
  assumes hist: "history_ok pl codec n" and cache: "cache_ok pl tc (client_cache n)"
    and pk: "packet_ok pl codec (bn_ledger n) pk"
    and payload: "receive_payload codec pk (client_cache n) = Inr payload"
  shows "copy_ok pl (bn_ledger n) \<lparr>st_receipt = pk_target pk, st_payload = payload\<rparr>"
proof (cases "pk_encoding pk")
  case Full
  then show ?thesis
    using pk payload unfolding packet_ok_def copy_ok_def receive_payload_def
    by (auto simp: Let_def split: sum.splits)
next
  case (Delta r)
  then obtain e l where e: "cache_entry r (client_cache n) = Inr e"
      "bc_decode_delta codec (st_payload (en_state e)) (fst (pk_bytes pk)) l = Inr payload"
    using payload unfolding receive_payload_def by (auto simp: Let_def split: if_splits sum.splits)
  then have "e \<in> set (ca_entries (client_cache n))" "en_receipt e = r"
    using cache_entry_Inr[OF cache] by blast+
  then obtain b where b: "b \<in> set (bn_ledger n)" "st_receipt b = r" "pl_eq pl (st_payload (en_state e)) (st_payload b)"
    using hist unfolding history_ok_def copy_ok_def by metis
  obtain st b' where st: "st \<in> set (bn_ledger n)" "st_receipt st = pk_target pk" "b' \<in> set (bn_ledger n)" "st_receipt b' = r"
      "\<And>x l p. pl_eq pl x (st_payload b') \<Longrightarrow> bc_decode_delta codec x (fst (pk_bytes pk)) l = Inr p \<Longrightarrow> pl_eq pl p (st_payload st)"
    using pk Delta unfolding packet_ok_def by auto
  have "b' = b"
    using ledger_unique hist b(1,2) st(3,4) unfolding history_ok_def by metis
  then show ?thesis
    using st(1,2) st(5)[OF _ e(2)] b(3) unfolding copy_ok_def by auto
qed

lemma send_new_history:
  assumes hist: "history_ok pl codec n" and check: "cache_check pl target (server_cache n) = Inr True"
  shows "sorted_wrt follows (bn_ledger n @ [target])"
proof -
  have sorted: "sorted_wrt follows (bn_ledger n)"
    using hist by (simp add: history_ok_def)
  have "follows a target" if a: "a \<in> set (bn_ledger n)" for a
  proof -
    have "ca_latest (server_cache n) = Some (st_receipt (last (bn_ledger n)))"
      using hist a by (auto simp: history_ok_def)
    then have "follows (last (bn_ledger n)) target"
      using cache_check_True(3)[OF check] by (simp add: follows_def)
    then show ?thesis
      using follows_last[OF sorted a] follows_trans by blast
  qed
  with sorted show ?thesis
    by (simp add: sorted_wrt_append)
qed

lemma send_ok:
  assumes ok: "net_ok pl codec ts tc n"
    and sent: "transmit_packet pl codec target base (bn_server n) = Inr (new, pk)"
      "transmit pl codec (\<lambda>_. True) target base (bn_server n) = (res, s)"
  shows "net_ok pl codec ts tc (n\<lparr>bn_server := s, bn_packets := pk # bn_packets n,
      bn_ledger := bn_ledger n @ (if new then [target] else [])\<rparr>)"
proof -
  note t = transmit_sent[OF sent]
  have parts: "caches_ok pl ts tc n" "history_ok pl codec n" "promises_ok n" "cache_ok pl ts (server_cache n)"
    using ok by (simp_all add: net_ok_def caches_ok_def)
  show ?thesis
  proof (cases new)
    case True
    have check: "cache_check pl target (server_cache n) = Inr True"
      using t(1) True by simp
    have sub: "set (bn_ledger n) \<subseteq> set (bn_ledger n @ [target])"
      by auto
    have pk: "packet_ok pl codec (bn_ledger n @ [target]) pk"
      by (rule send_packet_ok[OF parts(2,4) t(4,3), of target]) (auto simp: eq_refl)
    have "caches_ok pl ts tc (n\<lparr>bn_server := s, bn_packets := pk # bn_packets n, bn_ledger := bn_ledger n @ [target]\<rparr>)"
      using parts(1) cache_insert_ok[OF parts(4) check] t(2) True by (simp add: caches_ok_def)
    moreover have "history_ok pl codec (n\<lparr>bn_server := s, bn_packets := pk # bn_packets n, bn_ledger := bn_ledger n @ [target]\<rparr>)"
      using parts(2) send_new_history[OF parts(2) check] pk t(2) True
        packet_ok_mono[OF _ sub] copy_ok_mono[OF _ sub]
      unfolding history_ok_def by auto
    moreover have "promises_ok (n\<lparr>bn_server := s, bn_packets := pk # bn_packets n, bn_ledger := bn_ledger n @ [target]\<rparr>)"
      using parts(3) t(2) True by (auto simp: promises_ok_def)
    ultimately show ?thesis
      using True by (simp add: net_ok_def)
  next
    case False
    then have "cache_check pl target (server_cache n) = Inr False"
      using t(1) by simp
    then obtain e where e: "e \<in> set (ca_entries (server_cache n))" "en_receipt e = st_receipt target"
        "pl_eq pl (st_payload (en_state e)) (st_payload target)"
      using cache_check_False by blast
    have "packet_ok pl codec (bn_ledger n) pk"
      by (rule send_packet_ok[OF parts(2,4) t(4,3), of "en_state e"])
        (use e parts(2) eq_sym in \<open>auto simp: history_ok_def\<close>)
    then show ?thesis
      using ok t(2) False unfolding net_ok_def caches_ok_def history_ok_def promises_ok_def by simp
  qed
qed

lemma deliver_ok:
  assumes ok: "net_ok pl codec ts tc n" and pk: "pk \<in> set (bn_packets n)"
    and rec: "receive pl codec valid pk (bn_client n) = (res, k)"
  shows "net_ok pl codec ts tc (n\<lparr>bn_client := k,
      bn_receipts := (case res of Inl _ \<Rightarrow> bn_receipts n | Inr r \<Rightarrow> r # bn_receipts n)\<rparr>)"
  using rec
proof (cases rule: receive_cases)
  case (refused e)
  then show ?thesis
    by (intro net_ok_idle[OF ok]) simp_all
next
  case (duplicate e)
  then have "promise_ok (client_cache n) (pk_target pk)"
    by (auto simp: promise_ok_def)
  then show ?thesis
    using ok duplicate(1,2) unfolding net_ok_def caches_ok_def history_ok_def promises_ok_def by simp
next
  case (stored payload st)
  have parts: "caches_ok pl ts tc n" "history_ok pl codec n" "promises_ok n" "cache_ok pl tc (client_cache n)"
    using ok by (simp_all add: net_ok_def caches_ok_def)
  have "packet_ok pl codec (bn_ledger n) pk"
    using parts(2) pk by (simp add: history_ok_def)
  then have copy: "copy_ok pl (bn_ledger n) st"
    using received_copy[OF parts(2,4)] stored(2,5) by simp
  have "pk_target pk \<in> st_receipt ` set (bn_ledger n)"
    using copy stored(2) unfolding copy_ok_def by force
  moreover have "cache_ok pl tc (cb_cache k)"
    using cache_insert_ok[OF parts(4) stored(4)] stored(3) by simp
  moreover have "br_generation (pk_target pk) = ca_generation (client_cache n)"
    using cache_check_True(1)[OF stored(4)] stored(2) by (simp add: cache_identity_Inr)
  ultimately show ?thesis
    using parts(1-3) copy stored(1,2,3)
    unfolding net_ok_def caches_ok_def history_ok_def promises_ok_def promise_ok_def by auto
qed

end

lemma acknowledge_ok:
  assumes ok: "net_ok pl codec ts tc n" and r: "r \<in> set (bn_receipts n)"
    and ack: "server_acknowledge r (bn_server n) = (res, s)"
  shows "net_ok pl codec ts tc (n\<lparr>bn_server := s\<rparr>)"
  using ack
proof (cases rule: server_acknowledge_cases)
  case (2 e)
  have marked: "en_state f \<in> set (bn_ledger n) \<and> (en_decoded f \<longrightarrow> en_receipt f \<in> set (bn_receipts n))"
    if f: "f \<in> set (mark_decoded r (ca_entries (server_cache n)))" for f
  proof -
    obtain g where "g \<in> set (ca_entries (server_cache n))" "en_state f = en_state g"
        "en_decoded f \<longrightarrow> en_decoded g \<or> en_receipt g = r"
      using mark_decoded_set[OF f] by blast
    then show ?thesis
      using ok r unfolding net_ok_def history_ok_def promises_ok_def by auto
  qed
  have "cache_ok pl ts (server_cache n)"
    using ok by (simp add: net_ok_def caches_ok_def)
  then show ?thesis
    using ok mark_decoded_ok[of pl ts "server_cache n" r] 2(2) marked
    unfolding net_ok_def caches_ok_def history_ok_def promises_ok_def by simp
qed (use ok in simp)

lemma retire_ok:
  assumes ok: "net_ok pl codec ts tc n" and ret: "server_retire pl req (bn_server n) = (Inr fence, s)"
  shows "net_ok pl codec ts tc (n\<lparr>bn_server := s, bn_fences := fence # bn_fences n\<rparr>)"
proof -
  have cache: "cache_ok pl ts (server_cache n)"
    using ok by (simp add: net_ok_def caches_ok_def)
  show ?thesis
    using ok cache_discard_ok[OF cache] cache_discard_entries[OF cache] server_retire_cache[OF ret]
    unfolding net_ok_def caches_ok_def history_ok_def promises_ok_def by (auto simp: le_max_iff_disj)
qed

lemma fence_ok:
  assumes ok: "net_ok pl codec ts tc n" and f: "fence \<in> set (bn_fences n)"
    and ack: "acknowledge_retirement pl fence (bn_client n) = (res, k)"
  shows "net_ok pl codec ts tc (n\<lparr>bn_client := k\<rparr>)"
  using ack
proof (cases rule: acknowledge_retirement_cases)
  case 2
  have cache: "cache_ok pl tc (client_cache n)"
    using ok by (simp add: net_ok_def caches_ok_def)
  note entries = cache_discard_entries[OF cache, of "rt_through fence"]
  have "promise_ok (cb_cache k) r" if "promise_ok (client_cache n) r" for r
    using that unfolding promise_ok_def 2 by (auto simp: entries le_max_iff_disj not_le)
  then show ?thesis
    using ok f cache_discard_ok[OF cache, of "rt_through fence"] 2
    unfolding net_ok_def caches_ok_def history_ok_def promises_ok_def by (simp add: entries)
qed (use ok in \<open>auto intro: net_ok_idle\<close>)

lemma reset_ok:
  assumes ok: "net_ok pl codec ts tc n" and reset: "begin_reset pl (bn_server n) = (Inr reset, s)"
  shows "net_ok pl codec ts tc (n\<lparr>bn_server := s, bn_resets := reset # bn_resets n\<rparr>)"
proof -
  note b = begin_reset_cache[OF reset]
  have cache: "cache_ok pl ts (sb_cache s)"
    using ok cache_reset_ok[of pl ts "server_cache n" reset] b(1) by (simp add: net_ok_def caches_ok_def)
  from b(1) show ?thesis
  proof (cases rule: cache_reset_cases)
    case same
    then show ?thesis
      using checked_next_less[OF b(2)] by auto
  next
    case fresh
    then have "ca_entries (sb_cache s) = []" "ca_generation (sb_cache s) = rs_generation reset"
        "ca_context (sb_cache s) = ca_context (server_cache n)"
        "ca_retired (sb_cache s) = ca_retired (server_cache n)" "ca_latest (sb_cache s) = ca_latest (server_cache n)"
      by (simp_all add: cache_clear_def)
    then show ?thesis
      using ok cache fresh(3) unfolding net_ok_def caches_ok_def history_ok_def promises_ok_def by auto
  qed
qed

lemma apply_reset_ok:
  assumes ok: "net_ok pl codec ts tc n" and r: "reset \<in> set (bn_resets n)"
    and app: "apply_reset pl reset (bn_client n) = (res, k)"
  shows "net_ok pl codec ts tc (n\<lparr>bn_client := k\<rparr>)"
proof -
  obtain res' where res': "cache_reset pl reset (client_cache n) = (res', cb_cache k)"
    using apply_reset_cache[OF app] .
  have cache: "cache_ok pl tc (cb_cache k)"
    using ok cache_reset_ok[of pl tc "client_cache n" reset] res' by (simp add: net_ok_def caches_ok_def)
  from res' show ?thesis
  proof (cases rule: cache_reset_cases)
    case same
    then show ?thesis
      using ok by (auto intro: net_ok_idle)
  next
    case fresh
    then have f: "ca_entries (cb_cache k) = []" "ca_generation (cb_cache k) = rs_generation reset"
        "ca_context (cb_cache k) = ca_context (client_cache n)" "ca_latest (cb_cache k) = ca_latest (client_cache n)"
        "ca_retired (cb_cache k) = ca_retired (client_cache n)"
      by (simp_all add: cache_clear_def)
    have "promise_ok (cb_cache k) x" if "promise_ok (client_cache n) x" for x
      using that fresh(3) f unfolding promise_ok_def by auto
    then show ?thesis
      using ok cache f r unfolding net_ok_def caches_ok_def history_ok_def promises_ok_def by simp
  qed
qed

lemma net_ok_close:
  assumes ok: "net_ok pl codec ts tc n"
  shows "net_ok pl codec ts tc (n\<lparr>bn_server := server_close pl (bn_server n)\<rparr>)"
    and "net_ok pl codec ts tc (n\<lparr>bn_client := client_close pl (bn_client n)\<rparr>)"
  using ok cache_close_ok[of pl]
  unfolding net_ok_def caches_ok_def history_ok_def promises_ok_def promise_ok_def
  by (simp_all add: server_close_def client_close_def)

context baseline_codec
begin

lemma step_ok:
  assumes "baseline_step pl codec n m" "net_ok pl codec ts tc n"
  shows "net_ok pl codec ts tc m"
  using assms
proof cases
  case (send target base new pk res s)
  show ?thesis
    unfolding send(1) by (rule send_ok[OF assms(2) send(2,3)])
next
  case (propose through req k)
  show ?thesis
    unfolding propose(1) by (rule net_ok_idle[OF assms(2)]) (use propose_cache[OF propose(2)] in simp_all)
next
  case request_reset
  then show ?thesis
    using assms(2) by (auto intro: net_ok_idle simp: request_reset_def)
next
  case (repair now_ms)
  then show ?thesis
    using assms(2) by (auto intro: net_ok_idle simp: repair_request_def)
qed (use assms(2) in \<open>auto intro: send_ok deliver_ok acknowledge_ok retire_ok fence_ok reset_ok apply_reset_ok net_ok_close\<close>)

lemma reachable_ok:
  assumes "(baseline_step pl codec)\<^sup>*\<^sup>* n m" "net_ok pl codec ts tc n"
  shows "net_ok pl codec ts tc m"
  using assms by (induction rule: rtranclp_induct) (simp_all add: step_ok)

end

lemma start_ok:
  assumes "server_baselines_new es cs al context generation limits = Inr s"
    and "client_baselines_new es' cs' al' context generation limits' = Inr k"
  shows "net_ok pl codec (ca_bytes (sb_cache s)) (ca_bytes (cb_cache k)) (baseline_start s k)"
proof -
  have s: "cache_new es cs al context generation limits = Inr (sb_cache s)"
    and k: "cache_new es' cs' al' context generation limits' = Inr (cb_cache k)"
    using assms by (auto simp: server_baselines_new_def client_baselines_new_def res_simps)
  have "context_validate context = Inr ()"
    using s by (auto simp: cache_new_def res_simps)
  then show ?thesis
    using cache_new_ok[OF s, of pl] cache_new_ok[OF k, of pl]
    unfolding net_ok_def caches_ok_def history_ok_def promises_ok_def baseline_start_def by simp
qed

text \<open>A base the server still counts as decoded is retained by a client of the same generation.\<close>

lemma promise_retained:
  assumes ok: "net_ok pl codec ts tc n" and e: "e \<in> set (ca_entries (server_cache n))" "en_decoded e"
    and client: "\<not> ca_closed (client_cache n)" "ca_generation (client_cache n) = ca_generation (server_cache n)"
  obtains f where "f \<in> set (ca_entries (client_cache n))" "en_receipt f = en_receipt e"
    "cache_entry (en_receipt e) (client_cache n) = Inr f"
    "pl_eq pl (st_payload (en_state f)) (st_payload (en_state e))"
proof -
  have parts: "caches_ok pl ts tc n" "history_ok pl codec n" "promises_ok n"
    using ok by (simp_all add: net_ok_def)
  have entry: "br_generation (en_receipt e) = ca_generation (server_cache n)"
      "ca_retired (server_cache n) < en_snapshot e"
    using parts(1) e(1) unfolding caches_ok_def cache_ok_def entry_ok_def by blast+
  have "promise_ok (client_cache n) (en_receipt e)"
    using parts(3) e unfolding promises_ok_def by blast
  moreover have "\<not> en_snapshot e \<le> ca_retired (client_cache n)"
    using parts(1) entry(2) unfolding caches_ok_def by (meson leD order_trans)
  ultimately obtain f where f: "f \<in> set (ca_entries (client_cache n))" "en_receipt f = en_receipt e"
    using client entry(1) unfolding promise_ok_def by auto
  have cache: "cache_ok pl tc (client_cache n)"
    using parts(1) unfolding caches_ok_def by blast
  have "cache_entry (en_receipt e) (client_cache n) = Inr f"
    using cache_entry_Inr[OF cache] f client(1) by simp
  moreover have "pl_eq pl (st_payload (en_state f)) (st_payload (en_state e))"
  proof -
    obtain st where st: "st \<in> set (bn_ledger n)" "st_receipt st = en_receipt f"
        "pl_eq pl (st_payload (en_state f)) (st_payload st)"
      using parts(2) f(1) unfolding history_ok_def copy_ok_def by blast
    moreover have "en_state e \<in> set (bn_ledger n)" "sorted_wrt follows (bn_ledger n)"
      using parts(2) e(1) unfolding history_ok_def by blast+
    ultimately have "st = en_state e"
      using ledger_unique f(2) by metis
    with st(3) show ?thesis
      by simp
  qed
  ultimately show thesis
    using that f by blast
qed

end
