(* ===== verification/Net_Baseline_Props.thy ===== *)
theory Net_Baseline_Props
  imports Net_Baseline_Net
begin

text \<open>
  The properties of the baseline protocol, for the byte-patch codec and any interleaving of calls and
  deliveries.
\<close>

section \<open>Lemmas\<close>

lemma reachable_net_ok:
  assumes "server_baselines_new es cs al context generation limits = Inr s"
    and "client_baselines_new es' cs' al' context generation limits' = Inr k"
    and "(baseline_step vec_payload (byte_patch alloc))\<^sup>*\<^sup>* (baseline_start s k) n"
  shows "net_ok vec_payload (byte_patch alloc) (ca_bytes (sb_cache s)) (ca_bytes (cb_cache k)) n"
  using patch_codec.reachable_ok[OF assms(3) start_ok[OF assms(1,2)]] .

lemma new_limits:
  "server_baselines_new es cs al context generation limits = Inr s \<Longrightarrow> ca_limits (sb_cache s) = limits"
  "client_baselines_new es cs al context generation limits = Inr k \<Longrightarrow> ca_limits (cb_cache k) = limits"
  by (auto simp: server_baselines_new_def client_baselines_new_def res_simps dest: cache_new_ok)

text \<open>What a newly admitted target looks like from the client's side.\<close>

lemma fresh_target:
  assumes ok: "net_ok vec_payload codec ts tc n"
    and check: "cache_check vec_payload target (server_cache n) = Inr True"
    and codec: "baseline_codec vec_payload codec"
    and client: "\<not> ca_closed (client_cache n)" "ca_generation (client_cache n) = ca_generation (server_cache n)"
  shows "cache_identity (st_receipt target) (client_cache n) = Inr ()"
    and "\<And>a. a \<in> set (bn_ledger n) \<Longrightarrow> follows a target"
    and "\<And>l. ca_latest (client_cache n) = Some l \<Longrightarrow> br_snapshot l < br_snapshot (st_receipt target)
      \<and> br_version l \<le> br_version (st_receipt target) \<and> br_end_tick l \<le> br_end_tick (st_receipt target)"
    and "find_snapshot (br_snapshot (st_receipt target)) (client_cache n) = None"
    and "context_validate (br_context (st_receipt target)) = Inr ()" "br_generation (st_receipt target) \<noteq> 0"
proof -
  have parts: "caches_ok vec_payload ts tc n" "history_ok vec_payload codec n"
    using ok by (simp_all add: net_ok_def)
  note id = cache_check_True(1)[OF check, unfolded cache_identity_Inr]
  show "cache_identity (st_receipt target) (client_cache n) = Inr ()"
    using id client parts(1) unfolding cache_identity_Inr caches_ok_def by auto
  show follows: "follows a target" if "a \<in> set (bn_ledger n)" for a
    using baseline_codec.send_new_history[OF codec parts(2) check] that by (simp add: sorted_wrt_append)
  show latest: "br_snapshot l < br_snapshot (st_receipt target)
      \<and> br_version l \<le> br_version (st_receipt target) \<and> br_end_tick l \<le> br_end_tick (st_receipt target)"
    if l: "ca_latest (client_cache n) = Some l" for l
  proof -
    obtain a where "a \<in> set (bn_ledger n)" "l = st_receipt a"
      using parts(2) l unfolding history_ok_def by blast
    then show ?thesis
      using follows by (simp add: follows_def)
  qed
  have "en_snapshot e \<noteq> br_snapshot (st_receipt target)" if e: "e \<in> set (ca_entries (client_cache n))" for e
  proof -
    obtain a where "a \<in> set (bn_ledger n)" "st_receipt a = en_receipt e"
      using parts(2) e unfolding history_ok_def copy_ok_def by blast
    then show ?thesis
      using follows[of a] by (auto simp: follows_def)
  qed
  then show "find_snapshot (br_snapshot (st_receipt target)) (client_cache n) = None"
    by (simp add: find_snapshot_None)
  show "context_validate (br_context (st_receipt target)) = Inr ()" "br_generation (st_receipt target) \<noteq> 0"
    using id parts(1) unfolding caches_ok_def by auto
qed

lemma fresh_gate_open:
  assumes ok: "net_ok vec_payload codec ts tc n" and codec: "baseline_codec vec_payload codec"
    and sent: "transmit_packet vec_payload codec target base (bn_server n) = Inr (True, pk)"
    and client: "\<not> ca_closed (client_cache n)" "ca_generation (client_cache n) = ca_generation (server_cache n)"
    and limits: "ca_limits (client_cache n) = ca_limits (server_cache n)"
  shows "receive_gate codec valid pk (client_cache n) = None"
proof -
  have t: "cache_check vec_payload target (server_cache n) = Inr True" "pk_target pk = st_receipt target"
      "encode_target codec target base (server_cache n) = Inr (pk_encoding pk, pk_bytes pk)"
      "snd (pk_bytes pk) \<le> bl_packet_bytes (ca_limits (server_cache n))"
    using sent by (auto simp: transmit_packet_def res_simps split: if_splits)
  note f = fresh_target[OF ok t(1) codec client]
  have server: "cache_ok vec_payload ts (server_cache n)"
    using ok by (simp add: net_ok_def caches_ok_def)
  have base: "\<not> base_malformed r (st_receipt target)" if "pk_encoding pk = Delta r" for r
    using t(3)
  proof (cases rule: encode_target_cases)
    case (delta r' e l)
    then have e: "e \<in> set (ca_entries (server_cache n))" "en_receipt e = r" "r' = r"
      using that cache_entry_Inr[OF server] by auto
    then have "follows (en_state e) target" "entry_ok (server_cache n) e"
      using ok f(2) server unfolding net_ok_def history_ok_def cache_ok_def by blast+
    moreover have "en_snapshot e \<noteq> 0"
      using \<open>entry_ok (server_cache n) e\<close> unfolding entry_ok_def by (metis word_not_simps(1))
    moreover have "br_context (st_receipt target) = ca_context (server_cache n)"
        "br_generation (st_receipt target) = ca_generation (server_cache n)"
      using cache_check_True(1)[OF t(1)] by (simp_all add: cache_identity_Inr)
    ultimately show ?thesis
      using e(2) by (auto simp: base_malformed_def follows_def entry_ok_def not_le not_less)
  qed (use that in simp)
  have "\<not> contradicts (st_receipt target) l" if "ca_latest (client_cache n) = Some l" for l
    using f(3)[OF that] by (auto simp: contradicts_def)
  moreover have "br_generation (st_receipt target) = ca_generation (client_cache n)"
      "br_snapshot (st_receipt target) \<noteq> 0" "br_version (st_receipt target) \<noteq> 0"
    using f(1) by (simp_all add: cache_identity_Inr)
  moreover have "checked_next (ca_generation (client_cache n)) \<noteq> Some (ca_generation (client_cache n))"
    by (auto dest: checked_next_less)
  ultimately show ?thesis
    using t(2,4) f base limits unfolding receive_gate_def
    by (auto simp: Let_def split: option.split BaselineEncoding.split dest: f(3))
qed

text \<open>The client reconstructs exactly the bytes that were sent.\<close>

lemma fresh_payload:
  assumes ok: "net_ok vec_payload (byte_patch id) ts tc n"
    and sent: "transmit_packet vec_payload (byte_patch id) target base (bn_server n) = Inr (True, pk)"
    and client: "\<not> ca_closed (client_cache n)" "ca_generation (client_cache n) = ca_generation (server_cache n)"
    and fits: "length (fst (st_payload target)) \<le> bl_payload_bytes (ca_limits (client_cache n))"
  shows "receive_payload (byte_patch id) pk (client_cache n) =
    Inr (fst (st_payload target), length (fst (st_payload target)))"
proof -
  have t: "pk_target pk = st_receipt target" "cache_check vec_payload target (server_cache n) = Inr True"
      "encode_target (byte_patch id) target base (server_cache n) = Inr (pk_encoding pk, pk_bytes pk)"
    using sent by (auto simp: transmit_packet_def res_simps split: if_splits)
  have server: "cache_ok vec_payload ts (server_cache n)"
    using ok by (simp add: net_ok_def caches_ok_def)
  from t(3) show ?thesis
  proof (cases rule: encode_target_cases)
    case (full l)
    then have "fst (pk_bytes pk) = fst (st_payload target)"
      by (cases "pk_bytes pk") (auto simp: byte_patch_def patch_encode_full_def patch_decode_full_def split: if_splits)
    then show ?thesis
      using full(1) fits by (simp add: receive_payload_def byte_patch_def patch_decode_full_def)
  next
    case (delta r e l)
    have e: "e \<in> set (ca_entries (server_cache n))" "en_receipt e = r"
      using delta(2) cache_entry_Inr[OF server] by blast+
    have dec: "en_decoded e" "br_snapshot r < br_snapshot (st_receipt target)"
      using t(3) delta(1,2) unfolding encode_target_def Let_def
      by (auto simp: res_simps not_le split: option.splits if_splits sum.splits ReplicationError.splits)
    obtain f where f: "cache_entry r (client_cache n) = Inr f"
        "pl_eq vec_payload (st_payload (en_state f)) (st_payload (en_state e))"
      using promise_retained[OF ok e(1) dec(1) client] e(2) by metis
    have "br_context r = br_context (st_receipt target)" "br_generation r = br_generation (st_receipt target)"
      using server e cache_check_True(1)[OF t(2)] unfolding cache_ok_def entry_ok_def
      by (auto simp: cache_identity_Inr)
    then show ?thesis
      using delta(1) f dec(2) t(1) fits decode_encode_delta[of id "st_payload (en_state e)" "st_payload target" l "pk_bytes pk"
          "st_payload (en_state f)" id] delta(3)
      by (simp add: receive_payload_def byte_patch_def vec_payload_def Let_def not_le)
  qed
qed

section \<open>Properties\<close>

text \<open>
  Delta encoding loses nothing and is bounded.  A delta that is produced fits the packet limit, and
  applying it to any base with the same bytes gives back exactly the encoded bytes, or a capacity error
  when they exceed the receiver's limit; no other result is possible.
\<close>

theorem byte_patch_round_trip:
  assumes "patch_encode_delta alloc base val limit = Inr delta" "fst base' = fst base"
  shows "length (fst delta) \<le> limit
    \<and> patch_decode_delta alloc' base' (fst delta) limit' =
      (if length (fst val) > limit' then Inl Capacity else Inr (fst val, alloc' (length (fst val))))"
proof
  show "length (fst delta) \<le> limit"
    using assms(1) by (cases rule: encode_delta_parts) (simp add: add.commute)
  show "patch_decode_delta alloc' base' (fst delta) limit' =
      (if length (fst val) > limit' then Inl Capacity else Inr (fst val, alloc' (length (fst val))))"
    by (rule decode_encode_delta[OF assms])
qed

theorem byte_patch_round_trip_witness:
  "\<exists>delta. patch_encode_delta id ([1, 2, 3, 4], 4) ([1, 9, 4], 3) 20 = Inr delta
    \<and> patch_decode_delta id ([1, 2, 3, 4], 4) (fst delta) 3 = Inr ([1, 9, 4], 3)"
proof -
  obtain delta where delta: "patch_encode_delta id ([1, 2, 3, 4], 4) ([1, 9, 4], 3) 20 = Inr delta"
    by (simp add: patch_encode_delta_def byte_range_def usize_checked_add_def usize_max_def u32_try_from_def Let_def)
  then show ?thesis
    using byte_patch_round_trip[OF delta refl, of id 3] by simp
qed

text \<open>
  C3: Whatever the network loses, duplicates, delays or reorders, every state the client retains is a
  state the server sent under that very receipt, byte for byte, and the states the server has ever sent
  have strictly increasing snapshots with versions and ticks that never decrease.
\<close>

theorem baseline_states_agree:
  assumes "server_baselines_new es cs al context generation limits = Inr s"
    and "client_baselines_new es' cs' al' context generation limits' = Inr k"
    and "(baseline_step vec_payload (byte_patch alloc))\<^sup>*\<^sup>* (baseline_start s k) n"
  shows "(client_state r (bn_client n) = Inr st \<longrightarrow> (\<exists>sent \<in> set (bn_ledger n). st_receipt sent = r
      \<and> st_receipt st = r \<and> fst (st_payload sent) = fst (st_payload st)))
    \<and> sorted_wrt follows (bn_ledger n)"
proof -
  have ok: "history_ok vec_payload (byte_patch alloc) n"
      "cache_ok vec_payload (ca_bytes (cb_cache k)) (client_cache n)"
    using reachable_net_ok[OF assms] by (simp_all add: net_ok_def caches_ok_def)
  have "\<exists>sent \<in> set (bn_ledger n). st_receipt sent = r \<and> st_receipt st = r
      \<and> fst (st_payload sent) = fst (st_payload st)" if "client_state r (bn_client n) = Inr st"
  proof -
    obtain e where e: "cache_entry r (client_cache n) = Inr e" "st = en_state e"
      using \<open>client_state r (bn_client n) = Inr st\<close> by (auto simp: client_state_def res_simps)
    then have "copy_ok vec_payload (bn_ledger n) st" "st_receipt st = r"
      using ok(1) cache_entry_Inr[OF ok(2)] unfolding history_ok_def by auto
    then show ?thesis
      by (auto simp: copy_ok_def vec_payload_def)
  qed
  then show ?thesis
    using ok(1) unfolding history_ok_def by blast
qed

text \<open>
  C4: A promised base is never lost.  As long as the client is open and in the server's generation, every
  state the server may use as a delta base is retained by the client with the same bytes.
\<close>

theorem baseline_promise_kept:
  assumes "server_baselines_new es cs al context generation limits = Inr s"
    and "client_baselines_new es' cs' al' context generation limits' = Inr k"
    and "(baseline_step vec_payload (byte_patch alloc))\<^sup>*\<^sup>* (baseline_start s k) n"
    and "e \<in> set (ca_entries (sb_cache (bn_server n)))" "en_decoded e"
    and "\<not> ca_closed (cb_cache (bn_client n))"
      "ca_generation (cb_cache (bn_client n)) = ca_generation (sb_cache (bn_server n))"
  shows "\<exists>st. client_state (en_receipt e) (bn_client n) = Inr st
    \<and> fst (st_payload st) = fst (st_payload (en_state e))"
proof -
  obtain f where "cache_entry (en_receipt e) (client_cache n) = Inr f"
      "pl_eq vec_payload (st_payload (en_state f)) (st_payload (en_state e))"
    using promise_retained[OF reachable_net_ok[OF assms(1-3)] assms(4-7)] by blast
  then show ?thesis
    by (auto simp: client_state_def vec_payload_def)
qed

text \<open>
  Both caches stay inside their memory budget whatever arrives: the accounted bytes are exactly the
  table plus the capacities of the retained payloads, never above the resident limit, and no more states
  than slots are retained.
\<close>

theorem baseline_memory_bounded:
  assumes "server_baselines_new es cs al context generation limits = Inr s"
    and "client_baselines_new es' cs' al' context generation limits' = Inr k"
    and "(baseline_step vec_payload (byte_patch alloc))\<^sup>*\<^sup>* (baseline_start s k) n"
  shows "let sc = sb_cache (bn_server n); cc = cb_cache (bn_client n) in
    ca_bytes sc = ca_bytes (sb_cache s) + entries_bytes vec_payload (ca_entries sc)
    \<and> ca_bytes cc = ca_bytes (cb_cache k) + entries_bytes vec_payload (ca_entries cc)
    \<and> ca_bytes sc \<le> bl_resident_bytes (ca_limits sc) \<and> ca_bytes cc \<le> bl_resident_bytes (ca_limits cc)
    \<and> length (ca_entries sc) \<le> bl_slots (ca_limits sc) \<and> length (ca_entries cc) \<le> bl_slots (ca_limits cc)"
  using reachable_net_ok[OF assms] unfolding net_ok_def caches_ok_def cache_ok_def Let_def by blast

text \<open>
  C5: Progress.  When the server transmits a new state, whether in full or as a delta, and the client is
  open, in the same generation, has the same limits, has not seen that version and has room, then
  delivering that packet, whatever was lost before, is accepted, yields the receipt of the state and makes
  it the client's current state byte for byte.
\<close>

theorem baseline_fresh_state_accepted:
  assumes "server_baselines_new es cs al context generation limits = Inr s"
    and "client_baselines_new es' cs' al' context generation limits' = Inr k"
    and "(baseline_step vec_payload (byte_patch id))\<^sup>*\<^sup>* (baseline_start s k) n"
    and sent: "transmit_packet vec_payload (byte_patch id) target base (bn_server n) = Inr (True, pk)"
    and client: "\<not> ca_closed (cb_cache (bn_client n))"
      "ca_generation (cb_cache (bn_client n)) = ca_generation (sb_cache (bn_server n))"
    and limits: "ca_limits (cb_cache (bn_client n)) = ca_limits (sb_cache (bn_server n))"
    and vec: "length (fst (st_payload target)) \<le> snd (st_payload target)"
    and version: "\<And>l. ca_latest (cb_cache (bn_client n)) = Some l \<Longrightarrow> br_version l < br_version (st_receipt target)"
    and valid: "valid (fst (st_payload target), length (fst (st_payload target)))"
    and room: "length (ca_entries (cb_cache (bn_client n))) < bl_slots (ca_limits (cb_cache (bn_client n)))"
      "ca_bytes (cb_cache (bn_client n)) + length (fst (st_payload target))
        \<le> bl_resident_bytes (ca_limits (cb_cache (bn_client n)))"
      "bl_resident_bytes (ca_limits (cb_cache (bn_client n))) \<le> usize_max"
  shows "\<exists>k' st. receive vec_payload (byte_patch id) valid pk (bn_client n) = (Inr (st_receipt target), k')
    \<and> current_state k' = Some st \<and> st_receipt st = st_receipt target \<and> fst (st_payload st) = fst (st_payload target)"
proof -
  note ok = reachable_net_ok[OF assms(1-3)]
  have t: "pk_target pk = st_receipt target" "cache_check vec_payload target (server_cache n) = Inr True"
    using sent by (auto simp: transmit_packet_def res_simps split: if_splits)
  then have fits: "length (fst (st_payload target)) \<le> bl_payload_bytes (ca_limits (client_cache n))"
    using vec limits by (auto simp: cache_check_def res_simps vec_payload_def Let_def split: if_splits)
  note f = fresh_target[OF ok t(2) patch_codec.baseline_codec_axioms client]
  let ?p = "(fst (st_payload target), length (fst (st_payload target)))"
  let ?st = "\<lparr>st_receipt = st_receipt target, st_payload = ?p\<rparr>"
  have "check_latest vec_payload ?st l (client_cache n) = Inr ()" if "ca_latest (client_cache n) = Some l" for l
    using f(3)[OF that] version[OF that] by (auto simp: check_latest_def Let_def)
  then have "cache_check vec_payload ?st (client_cache n) = Inr True"
    using f(1,4) fits room by (auto simp: cache_check_def vec_payload_def usize_checked_add_def split: option.split)
  moreover have "bc_validate (byte_patch id) ?p"
    by (simp add: byte_patch_def)
  ultimately show ?thesis
    using fresh_gate_open[OF ok patch_codec.baseline_codec_axioms sent client limits, of valid]
      fresh_payload[OF ok sent client fits] valid t(1)
    by (simp add: receive_def Let_def current_state_def)
qed

section \<open>An instance\<close>

definition ex_context :: BaselineContext where
  "ex_context = \<lparr>bx_scope = ScopeIdentity 1 (EntityId 5 1) 1 1, bx_schema = 2, bx_group = None\<rparr>"

definition ex_limits :: BaselineLimits where
  "ex_limits = \<lparr>bl_slots = 3, bl_payload_bytes = 64, bl_packet_bytes = 80, bl_resident_bytes = 400,
    bl_peak_bytes = 600, bl_repair_interval_ms = 10\<rparr>"

definition ex_cache :: "vec Cache" where
  "ex_cache = \<lparr>ca_context = ex_context, ca_generation = 1, ca_limits = ex_limits, ca_entries = [],
    ca_bytes = 40, ca_retired = 0, ca_latest = None, ca_closed = False\<rparr>"

definition ex_server :: "vec ServerBaselines" where
  "ex_server = \<lparr>sb_cache = ex_cache\<rparr>"

definition ex_client :: "vec ClientBaselines" where
  "ex_client = \<lparr>cb_cache = ex_cache, cb_proposed = None, cb_repair_pending = False, cb_last_repair_ms = None\<rparr>"

definition ex_receipt :: "u64 \<Rightarrow> BaselineReceipt" where
  "ex_receipt i = \<lparr>br_context = ex_context, br_generation = 1, br_snapshot = i, br_version = i, br_end_tick = i\<rparr>"

definition ex_bytes :: "u8 \<Rightarrow> bytes" where
  "ex_bytes b = [7, 7, 7, 7, 7, 7, 7, 7, 7, 7, 7, 7, 7, 7, 7, b]"

definition ex_state :: "vec BaselineState" where
  "ex_state = \<lparr>st_receipt = ex_receipt 1, st_payload = (ex_bytes 7, 16)\<rparr>"

definition ex_packet :: BaselinePacket where
  "ex_packet = \<lparr>pk_target = ex_receipt 1, pk_encoding = Full, pk_bytes = (ex_bytes 7, 16)\<rparr>"

lemma ex_new:
  "server_baselines_new 10 10 id ex_context 1 ex_limits = Inr ex_server"
  "client_baselines_new 10 10 id ex_context 1 ex_limits = Inr ex_client"
  by (simp_all add: server_baselines_new_def client_baselines_new_def cache_new_def ex_context_def ex_limits_def
      ex_server_def ex_client_def ex_cache_def context_validate_def validate_scope_def table_bytes_def
      usize_checked_mul_def usize_checked_add_def usize_max_def limits_invalid_def)

definition ex_sent :: "vec baseline_net" where
  "ex_sent = (baseline_start ex_server ex_client)\<lparr>
    bn_server := ex_server\<lparr>sb_cache := cache_insert vec_payload ex_state False ex_cache\<rparr>,
    bn_packets := [ex_packet], bn_ledger := [ex_state]\<rparr>"

definition ex_delivered :: "vec baseline_net" where
  "ex_delivered = ex_sent\<lparr>bn_client := ex_client\<lparr>cb_cache := cache_insert vec_payload ex_state True ex_cache\<rparr>,
    bn_receipts := [ex_receipt 1]\<rparr>"

definition ex_acknowledged :: "vec baseline_net" where
  "ex_acknowledged = ex_delivered\<lparr>bn_server := ex_server\<lparr>sb_cache := cache_insert vec_payload ex_state True ex_cache\<rparr>\<rparr>"

lemmas ex_baseline_defs = ex_sent_def ex_delivered_def ex_acknowledged_def ex_packet_def ex_state_def ex_receipt_def
  ex_server_def ex_client_def ex_cache_def ex_limits_def baseline_start_def cache_insert_def vec_payload_def
  byte_patch_def cache_identity_def cache_envelope_def cache_check_def find_snapshot_def cache_entry_def
  ex_bytes_def

lemma ex_send: "baseline_step vec_payload (byte_patch id) (baseline_start ex_server ex_client) ex_sent"
proof -
  have "transmit_packet vec_payload (byte_patch id) ex_state None (bn_server (baseline_start ex_server ex_client))
      = Inr (True, ex_packet)"
    by (simp add: ex_baseline_defs transmit_packet_def encode_target_def patch_encode_full_def
        patch_decode_full_def usize_checked_add_def usize_max_def Let_def)
  from baseline_step.send[OF this surjective_pairing] this show ?thesis
    by (simp add: transmit_def ex_sent_def baseline_start_def ex_server_def)
qed

lemma ex_deliver: "baseline_step vec_payload (byte_patch id) ex_sent ex_delivered"
proof -
  have rec: "receive vec_payload (byte_patch id) (\<lambda>_. True) ex_packet ex_client =
      (Inr (ex_receipt 1), ex_client\<lparr>cb_cache := cache_insert vec_payload ex_state True ex_cache\<rparr>)"
    by (simp add: ex_baseline_defs receive_def receive_gate_def receive_payload_def context_validate_def
        validate_scope_def ex_context_def patch_decode_full_def checked_next_def checked_add_def
        usize_checked_add_def usize_max_def Let_def)
  have pk: "ex_packet \<in> set (bn_packets ex_sent)" and cl: "bn_client ex_sent = ex_client" "bn_receipts ex_sent = []"
    by (simp_all add: ex_sent_def baseline_start_def)
  show ?thesis
    using baseline_step.deliver[OF pk, of vec_payload "byte_patch id" "\<lambda>_. True"] rec
    unfolding cl ex_delivered_def by fastforce
qed

lemma ex_ack: "baseline_step vec_payload (byte_patch id) ex_delivered ex_acknowledged"
proof -
  have ack: "server_acknowledge (ex_receipt 1) (bn_server ex_delivered) = (Inr (), bn_server ex_acknowledged)"
    by (simp add: ex_baseline_defs server_acknowledge_def validate_acknowledgment_def)
  have "ex_receipt 1 \<in> set (bn_receipts ex_delivered)"
    by (simp add: ex_delivered_def)
  from baseline_step.acknowledge[OF this ack] show ?thesis
    by (simp add: ex_acknowledged_def)
qed

lemma ex_reachable:
  "(baseline_step vec_payload (byte_patch id))\<^sup>*\<^sup>* (baseline_start ex_server ex_client) ex_acknowledged"
  using ex_send ex_deliver ex_ack by (meson rtranclp.rtrancl_into_rtrancl rtranclp.rtrancl_refl)

lemma ex_acknowledged_caches:
  "ca_entries (cb_cache (bn_client ex_acknowledged)) = [\<lparr>en_state = ex_state, en_decoded = True\<rparr>]"
  "ca_entries (sb_cache (bn_server ex_acknowledged)) = [\<lparr>en_state = ex_state, en_decoded = True\<rparr>]"
  "\<not> ca_closed (cb_cache (bn_client ex_acknowledged))"
  "ca_generation (cb_cache (bn_client ex_acknowledged)) = 1"
  "ca_generation (sb_cache (bn_server ex_acknowledged)) = 1"
  by (simp_all add: ex_baseline_defs)

theorem baseline_states_agree_witness:
  "\<exists>sent \<in> set (bn_ledger ex_acknowledged). st_receipt sent = ex_receipt 1 \<and> fst (st_payload sent) = ex_bytes 7"
proof -
  have "client_state (ex_receipt 1) (bn_client ex_acknowledged) = Inr ex_state"
    by (simp add: ex_baseline_defs client_state_def)
  then show ?thesis
    using baseline_states_agree[OF ex_new ex_reachable, of "ex_receipt 1" ex_state] by (auto simp: ex_state_def)
qed

theorem baseline_promise_kept_witness:
  "\<exists>st. client_state (ex_receipt 1) (bn_client ex_acknowledged) = Inr st \<and> fst (st_payload st) = ex_bytes 7"
  using baseline_promise_kept[OF ex_new ex_reachable, of "\<lparr>en_state = ex_state, en_decoded = True\<rparr>"]
  by (simp add: ex_acknowledged_caches) (simp add: ex_state_def)

theorem baseline_memory_bounded_witness:
  "ca_bytes (cb_cache (bn_client ex_acknowledged)) = 56 \<and> ca_bytes (sb_cache (bn_server ex_acknowledged)) \<le> 400"
  using baseline_memory_bounded[OF ex_new ex_reachable]
  by (simp add: Let_def ex_baseline_defs)

definition ex_next :: "vec BaselineState" where
  "ex_next = \<lparr>st_receipt = ex_receipt 2, st_payload = (ex_bytes 8, 16)\<rparr>"

lemma ex_delta:
  "\<exists>bytes. transmit_packet vec_payload (byte_patch id) ex_next (Some (ex_receipt 1)) (bn_server ex_acknowledged) =
    Inr (True, \<lparr>pk_target = ex_receipt 2, pk_encoding = Delta (ex_receipt 1), pk_bytes = bytes\<rparr>)"
  by (simp add: ex_baseline_defs ex_next_def transmit_packet_def encode_target_def patch_encode_full_def
      patch_decode_full_def patch_encode_delta_def byte_range_def u32_try_from_def check_latest_def
      usize_checked_add_def usize_max_def Let_def word_le_nat_alt)

theorem baseline_fresh_state_accepted_witness:
  "\<exists>bytes k' st. transmit_packet vec_payload (byte_patch id) ex_next (Some (ex_receipt 1)) (bn_server ex_acknowledged) =
      Inr (True, \<lparr>pk_target = ex_receipt 2, pk_encoding = Delta (ex_receipt 1), pk_bytes = bytes\<rparr>)
    \<and> receive vec_payload (byte_patch id) (\<lambda>_. True)
        \<lparr>pk_target = ex_receipt 2, pk_encoding = Delta (ex_receipt 1), pk_bytes = bytes\<rparr> (bn_client ex_acknowledged)
      = (Inr (ex_receipt 2), k')
    \<and> current_state k' = Some st \<and> fst (st_payload st) = ex_bytes 8"
proof -
  obtain bytes where sent: "transmit_packet vec_payload (byte_patch id) ex_next (Some (ex_receipt 1))
      (bn_server ex_acknowledged) =
      Inr (True, \<lparr>pk_target = ex_receipt 2, pk_encoding = Delta (ex_receipt 1), pk_bytes = bytes\<rparr>)"
    using ex_delta by blast
  show ?thesis
    using baseline_fresh_state_accepted[OF ex_new ex_reachable sent, of "\<lambda>_. True"] sent
    by (auto simp: ex_baseline_defs ex_next_def usize_max_def)
qed

end
