(* ===== verification/Net_Client_Scopes.thy ===== *)
theory Net_Client_Scopes
  imports Net_Replication
begin

text \<open>
  The receiving side of scoped replication: \<open>engine/net/src/replication/client.rs\<close>.

  Records are an ordered map from entity index to one replica, whose flags are high-water fences.  The
  subtractions of retained bytes in \<open>apply_exit\<close> and \<open>apply_destroy\<close> are on naturals; the accounting
  invariant below shows that they never go below zero.
\<close>

section \<open>Data\<close>

record 'p Replica =
  re_scope :: ScopeIdentity
  re_closed :: bool
  re_destroyed :: bool
  re_state :: "'p FullState option"

record ReplicaFence =
  rf_scope :: ScopeIdentity
  rf_closed :: bool
  rf_destroyed :: bool
  rf_publication :: "(StateReceipt \<times> ServerTick) option"

record 'p ClientScopes =
  cs_connection :: ConnectionEpoch
  cs_limits :: ScopeLimits
  cs_records :: "(u64, 'p Replica) bt"
  cs_bytes :: usize

abbreviation scope_index :: "ScopeIdentity \<Rightarrow> u64" where
  "scope_index s \<equiv> eid_index (si_entity s)"

abbreviation scope_generation :: "ScopeIdentity \<Rightarrow> u32" where
  "scope_generation s \<equiv> eid_generation (si_entity s)"

section \<open>Operations\<close>

definition client_scopes_new :: "ConnectionEpoch \<Rightarrow> ScopeLimits \<Rightarrow> ReplicationError + 'p ClientScopes" where
  "client_scopes_new connection limits =
    (if connection = 0 then Inl InvalidIdentity
     else and_then (scope_limits_validate limits) (\<lambda>l.
       Inr \<lparr>cs_connection = connection, cs_limits = l, cs_records = [], cs_bytes = 0\<rparr>))"

definition replica_fence :: "u64 \<Rightarrow> 'p ClientScopes \<Rightarrow> ReplicaFence option" where
  "replica_fence index s = map_option (\<lambda>r. \<lparr>rf_scope = re_scope r, rf_closed = re_closed r,
    rf_destroyed = re_destroyed r,
    rf_publication = map_option (\<lambda>st. (full_receipt st, fs_end_tick st)) (re_state r)\<rparr>) (map_of (cs_records s) index)"

definition published_state :: "EntityId \<Rightarrow> 'p ClientScopes \<Rightarrow> 'p FullState option" where
  "published_state entity s =
    Option.bind (map_of (cs_records s) (eid_index entity)) (\<lambda>r.
    Option.bind (re_state r) (\<lambda>st. if si_entity (fs_scope st) = entity then Some st else None))"

definition capacity_for :: "u64 \<Rightarrow> 'p ClientScopes \<Rightarrow> ReplicationError + unit" where
  "capacity_for index s =
    (if \<not> bt_contains index (cs_records s) \<and> length (cs_records s) \<ge> sl_known_entities (cs_limits s)
     then Inl ResetRequired else Inr ())"

definition state_bytes :: "'p Payload \<Rightarrow> 'p FullState option \<Rightarrow> usize" where
  "state_bytes pl st = (case st of None \<Rightarrow> 0 | Some x \<Rightarrow> pl_retained_bytes pl (fs_payload x))"

text \<open>Against the state published in the same open scope.\<close>

definition check_previous :: "'p Payload \<Rightarrow> 'p FullState \<Rightarrow> 'p FullState \<Rightarrow> ReplicationError + unit" where
  "check_previous pl st previous =
    (if fs_snapshot st = fs_snapshot previous \<and> \<not> full_state_eq pl st previous then Inl Conflict
     else if fs_version st = fs_version previous \<and> \<not> pl_eq pl (fs_payload st) (fs_payload previous)
     then Inl Conflict
     else if fs_snapshot st < fs_snapshot previous
        \<and> fs_baseline_generation st \<le> fs_baseline_generation previous
        \<and> fs_version st \<le> fs_version previous \<and> fs_end_tick st \<le> fs_end_tick previous
     then Inl (Obsolete Publication)
     else if fs_baseline_generation st < fs_baseline_generation previous
        \<or> fs_snapshot st < fs_snapshot previous \<or> fs_version st < fs_version previous
        \<or> fs_end_tick st < fs_end_tick previous
     then Inl Conflict
     else Inr ())"

text \<open>Against the replica recorded for the entity index.\<close>

definition check_replica :: "'p Payload \<Rightarrow> 'p FullState \<Rightarrow> 'p Replica \<Rightarrow> ReplicationError + unit" where
  "check_replica pl st old =
    (let new = fs_scope st; before = re_scope old in
     if scope_generation new < scope_generation before then Inl (Obsolete Scope)
     else if scope_generation new = scope_generation before then
       (if re_destroyed old \<or> si_scope new < si_scope before then Inl (Obsolete Scope)
        else if si_scope new = si_scope before then
          (if new \<noteq> before then Inl Conflict
           else if re_closed old then Inl (Obsolete Scope)
           else case re_state old of None \<Rightarrow> Inr () | Some previous \<Rightarrow> check_previous pl st previous)
        else Inr ())
     else Inr ())"

definition apply_full ::
  "'p Payload \<Rightarrow> ('p \<Rightarrow> bool) \<Rightarrow> 'p FullState \<Rightarrow> 'p ClientScopes \<Rightarrow> (ReplicationError + StateReceipt) \<times> 'p ClientScopes" where
  "apply_full pl valid st s =
    attempt (validate_identity (cs_connection s) st) s (\<lambda>_.
    attempt (capacity_for (scope_index (fs_scope st)) s) s (\<lambda>_.
      let sz = pl_retained_bytes pl (fs_payload st) in
      if sz > sl_payload_bytes (cs_limits s) then (Inl Capacity, s)
      else if \<not> valid (fs_payload st) then (Inl InvalidPayload, s)
      else
        let old = map_of (cs_records s) (scope_index (fs_scope st)) in
        attempt (case old of None \<Rightarrow> Inr () | Some r \<Rightarrow> check_replica pl st r) s (\<lambda>_.
          let replaced = (case old of None \<Rightarrow> 0 | Some r \<Rightarrow> state_bytes pl (re_state r)) in
          attempt (ok_or Capacity (Option.bind (usize_checked_sub (cs_bytes s) replaced)
              (\<lambda>n. usize_checked_add n sz))) s (\<lambda>bytes.
            if sz > sl_payload_bytes (cs_limits s) \<or> bytes > sl_retained_payload_bytes (cs_limits s)
            then (Inl Capacity, s)
            else (Inr (full_receipt st),
              s\<lparr>cs_records := bt_insert (scope_index (fs_scope st))
                  \<lparr>re_scope = fs_scope st, re_closed = False, re_destroyed = False, re_state = Some st\<rparr> (cs_records s),
                cs_bytes := bytes\<rparr>)))))"

definition install_fence :: "'p Payload \<Rightarrow> 'p Replica \<Rightarrow> 'p ClientScopes \<Rightarrow> 'p ClientScopes" where
  "install_fence pl r s =
    s\<lparr>cs_records := bt_insert (scope_index (re_scope r)) r (cs_records s),
      cs_bytes := cs_bytes s - (case map_of (cs_records s) (scope_index (re_scope r)) of
        None \<Rightarrow> 0 | Some old \<Rightarrow> state_bytes pl (re_state old))\<rparr>"

datatype ExitVerdict = Acknowledge | Refuse | Install

definition judge_exit :: "ScopeIdentity \<Rightarrow> 'p Replica option \<Rightarrow> ExitVerdict" where
  "judge_exit scope old =
    (case old of
       None \<Rightarrow> Install
     | Some r \<Rightarrow>
       (if scope_generation scope < scope_generation (re_scope r)
           \<or> (scope_generation scope = scope_generation (re_scope r) \<and> si_scope scope < si_scope (re_scope r))
        then Acknowledge
        else if scope_generation scope = scope_generation (re_scope r) \<and> si_scope scope = si_scope (re_scope r)
          \<and> scope \<noteq> re_scope r
        then Refuse
        else if re_destroyed r \<and> scope_generation scope = scope_generation (re_scope r) then Acknowledge
        else Install))"

definition apply_exit ::
  "'p Payload \<Rightarrow> ScopeExit \<Rightarrow> 'p ClientScopes \<Rightarrow> (ReplicationError + ScopeExit) \<times> 'p ClientScopes" where
  "apply_exit pl exit s =
    attempt (validate_scope (sx_scope exit) (cs_connection s)) s (\<lambda>_.
    attempt (capacity_for (scope_index (sx_scope exit)) s) s (\<lambda>_.
      case judge_exit (sx_scope exit) (map_of (cs_records s) (scope_index (sx_scope exit))) of
        Acknowledge \<Rightarrow> (Inr exit, s)
      | Refuse \<Rightarrow> (Inl Conflict, s)
      | Install \<Rightarrow> (Inr exit, install_fence pl
          \<lparr>re_scope = sx_scope exit, re_closed = True, re_destroyed = False, re_state = None\<rparr> s)))"

definition apply_destroy ::
  "'p Payload \<Rightarrow> Destroy \<Rightarrow> 'p ClientScopes \<Rightarrow> (ReplicationError + Destroy) \<times> 'p ClientScopes" where
  "apply_destroy pl destroy s =
    (if ds_connection destroy \<noteq> cs_connection s then (Inl Stale, s)
     else if eid_generation (ds_entity destroy) = 0 then (Inl InvalidIdentity, s)
     else
       attempt (capacity_for (eid_index (ds_entity destroy)) s) s (\<lambda>_.
         if (case map_of (cs_records s) (eid_index (ds_entity destroy)) of
               None \<Rightarrow> False | Some r \<Rightarrow> scope_generation (re_scope r) > eid_generation (ds_entity destroy))
         then (Inr destroy, s)
         else (Inr destroy, install_fence pl
           \<lparr>re_scope = ScopeIdentity (ds_connection destroy) (ds_entity destroy) 1 1,
            re_closed = True, re_destroyed = True, re_state = None\<rparr> s)))"

definition client_scopes_reset :: "ConnectionEpoch \<Rightarrow> 'p ClientScopes \<Rightarrow> (ReplicationError + unit) \<times> 'p ClientScopes" where
  "client_scopes_reset connection s =
    (if connection \<le> cs_connection s then (Inl Stale, s)
     else (Inr (), s\<lparr>cs_connection := connection, cs_records := [], cs_bytes := 0\<rparr>))"

section \<open>Invariant\<close>

definition replica_ok :: "u64 \<Rightarrow> 'p Replica \<Rightarrow> bool" where
  "replica_ok i r \<longleftrightarrow> scope_index (re_scope r) = i \<and> (re_destroyed r \<longrightarrow> re_closed r)
    \<and> (re_closed r \<longrightarrow> re_state r = None)
    \<and> (\<forall>st. re_state r = Some st \<longrightarrow> fs_scope st = re_scope r)"

definition scopes_ok :: "'p Payload \<Rightarrow> 'p ClientScopes \<Rightarrow> bool" where
  "scopes_ok pl s \<longleftrightarrow> bt_ok (cs_records s)
    \<and> (\<forall>i r. map_of (cs_records s) i = Some r \<longrightarrow> replica_ok i r)
    \<and> cs_bytes s = bt_sum (\<lambda>_ r. state_bytes pl (re_state r)) (cs_records s)
    \<and> cs_bytes s \<le> sl_retained_payload_bytes (cs_limits s)
    \<and> length (cs_records s) \<le> sl_known_entities (cs_limits s)"

text \<open>The order in which the fences of one entity index may move.\<close>

definition publication_le :: "'p FullState option \<Rightarrow> 'p FullState option \<Rightarrow> bool" where
  "publication_le a b \<longleftrightarrow> (\<forall>x. a = Some x \<longrightarrow> (\<exists>y. b = Some y \<and> fs_snapshot x \<le> fs_snapshot y
    \<and> fs_version x \<le> fs_version y \<and> fs_end_tick x \<le> fs_end_tick y
    \<and> fs_baseline_generation x \<le> fs_baseline_generation y))"

definition fence_le :: "'p Replica \<Rightarrow> 'p Replica \<Rightarrow> bool" where
  "fence_le a b \<longleftrightarrow> scope_generation (re_scope a) < scope_generation (re_scope b)
    \<or> scope_generation (re_scope a) = scope_generation (re_scope b)
      \<and> (re_destroyed b \<or> \<not> re_destroyed a \<and> (si_scope (re_scope a) < si_scope (re_scope b)
        \<or> re_scope a = re_scope b \<and> (re_closed b \<or> \<not> re_closed a \<and> publication_le (re_state a) (re_state b))))"

definition scopes_below :: "'p ClientScopes \<Rightarrow> 'p ClientScopes \<Rightarrow> bool" where
  "scopes_below s t \<longleftrightarrow> (\<forall>i r. map_of (cs_records s) i = Some r \<longrightarrow>
    (\<exists>r'. map_of (cs_records t) i = Some r' \<and> fence_le r r'))"

lemma publication_le_trans: "publication_le a b \<Longrightarrow> publication_le b c \<Longrightarrow> publication_le a c"
  unfolding publication_le_def by (fastforce intro: order_trans)

lemma fence_le_refl [simp]: "fence_le r r"
  by (simp add: fence_le_def publication_le_def)

lemma fence_le_trans: "fence_le a b \<Longrightarrow> fence_le b c \<Longrightarrow> fence_le a c"
  unfolding fence_le_def by (auto intro: publication_le_trans)

lemma scopes_below_refl: "scopes_below s s"
  by (simp add: scopes_below_def)

lemma scopes_below_trans: "scopes_below s t \<Longrightarrow> scopes_below t u \<Longrightarrow> scopes_below s u"
  unfolding scopes_below_def by (blast intro: fence_le_trans)

lemma below_insert:
  assumes "bt_ok (cs_records s)" "cs_records t = bt_insert i r (cs_records s)"
    and "\<And>old. map_of (cs_records s) i = Some old \<Longrightarrow> fence_le old r"
  shows "scopes_below s t"
  using assms unfolding scopes_below_def by auto

section \<open>Every call keeps the invariant and advances the fences\<close>

lemma capacity_for_length:
  "bt_ok (cs_records s) \<Longrightarrow> capacity_for i s = Inr () \<Longrightarrow> length (cs_records s) \<le> sl_known_entities (cs_limits s) \<Longrightarrow>
    length (bt_insert i r (cs_records s)) \<le> sl_known_entities (cs_limits s)"
  by (auto simp: capacity_for_def length_bt_insert bt_contains_def split: if_splits)

lemma check_previous_le:
  "check_previous pl st x = Inr () \<Longrightarrow> fs_scope st = fs_scope x \<Longrightarrow> publication_le (Some x) (Some st)"
  by (auto simp: check_previous_def publication_le_def not_less split: if_splits)

lemma check_replica_le:
  assumes "check_replica pl st old = Inr ()"
  shows "fence_le old \<lparr>re_scope = fs_scope st, re_closed = False, re_destroyed = False, re_state = Some st\<rparr>"
proof (cases "scope_generation (fs_scope st) = scope_generation (re_scope old) \<and> si_scope (fs_scope st) = si_scope (re_scope old)")
  case True
  then have same: "fs_scope st = re_scope old" "\<not> re_destroyed old" "\<not> re_closed old"
      "\<And>x. re_state old = Some x \<Longrightarrow> check_previous pl st x = Inr ()"
    using assms by (auto simp: check_replica_def Let_def split: if_splits option.splits)
  have "publication_le (re_state old) (Some st)"
  proof (cases "re_state old")
    case (Some x)
    then show ?thesis
      using same(4)[OF Some] by (auto simp: check_previous_def publication_le_def not_less split: if_splits)
  qed (simp add: publication_le_def)
  then show ?thesis
    using same by (simp add: fence_le_def)
next
  case False
  then show ?thesis
    using assms by (auto simp: check_replica_def Let_def fence_le_def split: if_splits)
qed

lemma apply_full_cases:
  assumes "apply_full pl valid st s = (res, t)"
  obtains (refused) e where "res = Inl e" "t = s"
  | (published) bytes where "res = Inr (full_receipt st)" "capacity_for (scope_index (fs_scope st)) s = Inr ()"
      "\<And>r. map_of (cs_records s) (scope_index (fs_scope st)) = Some r \<Longrightarrow> check_replica pl st r = Inr ()"
      "t = s\<lparr>cs_records := bt_insert (scope_index (fs_scope st))
         \<lparr>re_scope = fs_scope st, re_closed = False, re_destroyed = False, re_state = Some st\<rparr> (cs_records s), cs_bytes := bytes\<rparr>"
      "bytes = cs_bytes s - (case map_of (cs_records s) (scope_index (fs_scope st)) of None \<Rightarrow> 0 | Some r \<Rightarrow> state_bytes pl (re_state r))
         + pl_retained_bytes pl (fs_payload st)"
      "bytes \<le> sl_retained_payload_bytes (cs_limits s)"
proof (cases res)
  case (Inl e)
  then have "t = s"
    using assms unfolding apply_full_def Let_def
    by (cases "map_of (cs_records s) (scope_index (fs_scope st))") (auto simp: res_simps split: if_splits)
  with Inl show thesis
    by (rule refused)
next
  case (Inr r)
  with assms show thesis
    unfolding apply_full_def Let_def
    by (cases "map_of (cs_records s) (scope_index (fs_scope st))")
      (auto simp: res_simps usize_checked_sub_def usize_checked_add_def bind_eq_Some_conv
        split: if_splits intro: published)
qed

lemma replace_bytes:
  assumes ok: "scopes_ok pl s"
  shows "bt_sum (\<lambda>_ r. state_bytes pl (re_state r)) (bt_insert i r (cs_records s)) =
    cs_bytes s - (case map_of (cs_records s) i of None \<Rightarrow> 0 | Some old \<Rightarrow> state_bytes pl (re_state old)) + state_bytes pl (re_state r)"
  using ok btm.replace_total[of "cs_records s" "\<lambda>_ r. state_bytes pl (re_state r)" i r]
  by (cases "map_of (cs_records s) i") (simp_all add: scopes_ok_def)

lemma apply_full_ok:
  assumes ok: "scopes_ok pl s" and step: "apply_full pl valid st s = (res, t)"
  shows "scopes_ok pl t \<and> scopes_below s t"
  using step
proof (cases rule: apply_full_cases)
  case (published bytes)
  have bt: "bt_ok (cs_records s)"
    using ok by (simp add: scopes_ok_def)
  have "length (cs_records t) \<le> sl_known_entities (cs_limits s)"
    using capacity_for_length[OF bt published(2)] ok published(4) by (simp add: scopes_ok_def)
  moreover have "bt_sum (\<lambda>_ r. state_bytes pl (re_state r)) (cs_records t) = cs_bytes t"
    using replace_bytes[OF ok] published(4,5) by (simp add: state_bytes_def)
  ultimately have "scopes_ok pl t"
    using ok bt published(4,6) by (auto simp: scopes_ok_def replica_ok_def)
  moreover have "scopes_below s t"
    by (rule below_insert[OF bt]) (use published(3,4) check_replica_le in auto)
  ultimately show ?thesis
    by blast
qed (use ok scopes_below_refl in auto)

lemma install_fence_ok:
  assumes ok: "scopes_ok pl s" and cap: "capacity_for (scope_index (re_scope r)) s = Inr ()"
    and r: "re_closed r" "re_state r = None"
    and le: "\<And>old. map_of (cs_records s) (scope_index (re_scope r)) = Some old \<Longrightarrow> fence_le old r"
  shows "scopes_ok pl (install_fence pl r s) \<and> scopes_below s (install_fence pl r s)"
proof -
  have bt: "bt_ok (cs_records s)"
    using ok by (simp add: scopes_ok_def)
  have "length (bt_insert (scope_index (re_scope r)) r (cs_records s)) \<le> sl_known_entities (cs_limits s)"
    using capacity_for_length[OF bt cap] ok by (simp add: scopes_ok_def)
  moreover note replace_bytes[OF ok, of "scope_index (re_scope r)" r]
  ultimately have "scopes_ok pl (install_fence pl r s)"
    using ok bt r by (auto simp: scopes_ok_def install_fence_def state_bytes_def replica_ok_def)
  moreover have "scopes_below s (install_fence pl r s)"
    by (rule below_insert[OF bt]) (use le in \<open>auto simp: install_fence_def\<close>)
  ultimately show ?thesis
    by blast
qed

lemma apply_exit_ok:
  assumes ok: "scopes_ok pl s" and step: "apply_exit pl exit s = (res, t)"
  shows "scopes_ok pl t \<and> scopes_below s t"
proof (cases "t = s")
  case False
  let ?r = "\<lparr>re_scope = sx_scope exit, re_closed = True, re_destroyed = False, re_state = None\<rparr>"
  have cap: "capacity_for (scope_index (sx_scope exit)) s = Inr ()"
    and verdict: "judge_exit (sx_scope exit) (map_of (cs_records s) (scope_index (sx_scope exit))) = Install"
    and t: "t = install_fence pl ?r s"
    using step False
    by (cases "validate_scope (sx_scope exit) (cs_connection s)"; cases "capacity_for (scope_index (sx_scope exit)) s";
        auto simp: apply_exit_def split: ExitVerdict.splits)+
  have "fence_le old ?r" if "map_of (cs_records s) (scope_index (sx_scope exit)) = Some old" for old
    using verdict that by (auto simp: judge_exit_def fence_le_def not_less_iff_gr_or_eq split: if_splits)
  then show ?thesis
    using install_fence_ok[OF ok, of ?r] cap t by simp
qed (use ok scopes_below_refl in auto)

lemma apply_destroy_ok:
  assumes ok: "scopes_ok pl s" and step: "apply_destroy pl destroy s = (res, t)"
  shows "scopes_ok pl t \<and> scopes_below s t"
proof (cases "t = s")
  case False
  let ?r = "\<lparr>re_scope = ScopeIdentity (ds_connection destroy) (ds_entity destroy) 1 1,
            re_closed = True, re_destroyed = True, re_state = None\<rparr>"
  have cap: "capacity_for (eid_index (ds_entity destroy)) s = Inr ()" and t: "t = install_fence pl ?r s"
    and newest: "\<And>old. map_of (cs_records s) (eid_index (ds_entity destroy)) = Some old \<Longrightarrow>
      \<not> eid_generation (ds_entity destroy) < scope_generation (re_scope old)"
    using step False
    by (cases "capacity_for (eid_index (ds_entity destroy)) s"; auto simp: apply_destroy_def split: if_splits option.splits)+
  have "fence_le old ?r" if "map_of (cs_records s) (eid_index (ds_entity destroy)) = Some old" for old
    using newest[OF that] by (auto simp: fence_le_def)
  then show ?thesis
    using install_fence_ok[OF ok, of ?r] cap t by simp
qed (use ok scopes_below_refl in auto)

datatype 'p ScopeOp = ApplyFull "'p \<Rightarrow> bool" "'p FullState" | ApplyExit ScopeExit | ApplyDestroy Destroy

fun scope_step :: "'p Payload \<Rightarrow> 'p ScopeOp \<Rightarrow> 'p ClientScopes \<Rightarrow> 'p ClientScopes" where
  "scope_step pl (ApplyFull valid st) s = snd (apply_full pl valid st s)"
| "scope_step pl (ApplyExit exit) s = snd (apply_exit pl exit s)"
| "scope_step pl (ApplyDestroy destroy) s = snd (apply_destroy pl destroy s)"

lemma scope_step_ok: "scopes_ok pl s \<Longrightarrow> scopes_ok pl (scope_step pl op s) \<and> scopes_below s (scope_step pl op s)"
proof (induction op)
  case (ApplyFull valid st)
  then show ?case
    using apply_full_ok[OF ApplyFull] by (cases "apply_full pl valid st s") simp
next
  case (ApplyExit exit)
  then show ?case
    using apply_exit_ok[OF ApplyExit] by (cases "apply_exit pl exit s") simp
next
  case (ApplyDestroy destroy)
  then show ?case
    using apply_destroy_ok[OF ApplyDestroy] by (cases "apply_destroy pl destroy s") simp
qed

interpretation scope_machine: monotone_machine "scope_step pl" "scopes_ok pl" scopes_below for pl
  by unfold_locales (use scope_step_ok scopes_below_refl scopes_below_trans in blast)+

lemma new_scopes_ok: "client_scopes_new connection limits = Inr s \<Longrightarrow> scopes_ok pl s"
  by (auto simp: client_scopes_new_def scopes_ok_def res_simps split: if_splits)

lemma step_limits: "cs_limits (scope_step pl op s) = cs_limits s"
  by (induction op) (auto simp: apply_full_def apply_exit_def apply_destroy_def install_fence_def Let_def attempt_def
      split: sum.split option.split ExitVerdict.split)

lemma run_limits: "cs_limits (fold (scope_step pl) ops s) = cs_limits s"
  by (induction ops arbitrary: s) (simp_all add: step_limits)

section \<open>Properties\<close>

text \<open>
  C22: The fences of a replica only move forward.  Over any sequence of states, exits and destructions, in
  any order, the record of an entity index never goes back to an older generation or scope, a destroyed
  generation stays destroyed, a closed scope stays closed, and inside an open scope snapshot, version, tick
  and baseline generation never decrease; meanwhile the retained bytes are exactly accounted and bounded.
\<close>

theorem replica_fences_never_regress:
  assumes "client_scopes_new connection limits = Inr s"
  shows "let t = fold (scope_step pl) before s; u = fold (scope_step pl) after t in
    (\<forall>i r. map_of (cs_records t) i = Some r \<longrightarrow> (\<exists>r'. map_of (cs_records u) i = Some r' \<and> fence_le r r'))
    \<and> cs_bytes u = bt_sum (\<lambda>_ r. state_bytes pl (re_state r)) (cs_records u)
    \<and> cs_bytes u \<le> sl_retained_payload_bytes limits \<and> length (cs_records u) \<le> sl_known_entities limits"
proof -
  let ?t = "fold (scope_step pl) before s"
  let ?u = "fold (scope_step pl) after ?t"
  have t: "scopes_ok pl ?t"
    by (rule scope_machine.run_inv[OF new_scopes_ok[OF assms]])
  have "scopes_ok pl ?u" "scopes_below ?t ?u"
    using scope_machine.run_inv[OF t] scope_machine.run_below[OF t] by blast+
  moreover have "cs_limits ?u = limits"
    using assms by (auto simp: run_limits client_scopes_new_def scope_limits_validate_def res_simps split: if_splits)
  ultimately show ?thesis
    by (simp add: Let_def scopes_ok_def scopes_below_def)
qed

text \<open>
  C21: Nothing is resurrected.  Once a destruction has been applied, no sequence of further messages lets a
  state of that entity generation, or of an older one at that index, be published again.
\<close>

theorem destroyed_never_resurrected:
  assumes "client_scopes_new connection limits = Inr s0"
    and "s = fold (scope_step pl) before s0" "apply_destroy pl destroy s = (Inr destroy, t)"
    and "scope_index (fs_scope st) = eid_index (ds_entity destroy)"
      "scope_generation (fs_scope st) \<le> eid_generation (ds_entity destroy)"
  shows "\<exists>e. apply_full pl valid st (fold (scope_step pl) after t) = (Inl e, fold (scope_step pl) after t)"
proof -
  let ?u = "fold (scope_step pl) after t"
  have s: "scopes_ok pl s"
    unfolding assms(2) by (rule scope_machine.run_inv[OF new_scopes_ok[OF assms(1)]])
  then have t: "scopes_ok pl t"
    using apply_destroy_ok[OF _ assms(3)] by blast
  obtain r where r: "map_of (cs_records t) (eid_index (ds_entity destroy)) = Some r"
      "eid_generation (ds_entity destroy) < scope_generation (re_scope r)
        \<or> eid_generation (ds_entity destroy) = scope_generation (re_scope r) \<and> re_destroyed r"
    using assms(3) s
    by (auto simp: apply_destroy_def install_fence_def res_simps scopes_ok_def split: if_splits option.splits)
  obtain r' where r': "map_of (cs_records ?u) (eid_index (ds_entity destroy)) = Some r'" "fence_le r r'"
    using scope_machine.run_below[OF t, of after] r(1) unfolding scopes_below_def by blast
  have bad: "check_replica pl st r' \<noteq> Inr ()"
    using r(2) r'(2) assms(5) by (auto simp: check_replica_def fence_le_def Let_def)
  obtain res v where v: "apply_full pl valid st ?u = (res, v)"
    by (cases "apply_full pl valid st ?u")
  from v show ?thesis
  proof (cases rule: apply_full_cases)
    case (refused e)
    then show ?thesis
      using v by simp
  next
    case (published bytes)
    then show ?thesis
      using bad r'(1) assms(4) by auto
  qed
qed

text \<open>
  C24: A delayed exit is not always acknowledged.  When an entity is published in its first scope with a
  representation other than 1 and is then destroyed, the exit of that very scope is refused as a conflict:
  the destruction has replaced the recorded scope by epoch 1 and representation 1.
\<close>

theorem delayed_exit_conflicts_after_destroy:
  assumes "client_scopes_new connection limits = Inr s0" "s = fold (scope_step pl) before s0"
    and "published_state entity s = Some st" "si_scope (fs_scope st) = 1" "si_representation (fs_scope st) \<noteq> 1"
    and "apply_destroy pl \<lparr>ds_connection = connection', ds_entity = entity\<rparr> s = (Inr d, t)"
    and "validate_scope (fs_scope st) (cs_connection s) = Inr ()"
  shows "apply_exit pl \<lparr>sx_scope = fs_scope st\<rparr> t = (Inl Conflict, t)"
proof -
  let ?r = "\<lparr>re_scope = ScopeIdentity connection' entity 1 1, re_closed = True, re_destroyed = True, re_state = None\<rparr>"
  have ok: "scopes_ok pl s"
    unfolding assms(2) by (rule scope_machine.run_inv[OF new_scopes_ok[OF assms(1)]])
  obtain old where old: "map_of (cs_records s) (eid_index entity) = Some old" "re_state old = Some st"
      and entity: "si_entity (fs_scope st) = entity"
    using assms(3) by (auto simp: published_state_def bind_eq_Some_conv split: if_splits)
  then have "re_scope old = fs_scope st"
    using ok unfolding scopes_ok_def replica_ok_def by metis
  then have t: "t = install_fence pl ?r s"
    using assms(6) old(1) entity by (auto simp: apply_destroy_def res_simps split: if_splits)
  then have rec: "map_of (cs_records t) (eid_index entity) = Some ?r" "cs_connection t = cs_connection s"
    using ok by (simp_all add: install_fence_def scopes_ok_def)
  have "capacity_for (eid_index entity) t = Inr ()"
    using rec(1) by (simp add: capacity_for_def bt_contains_def)
  moreover have "fs_scope st \<noteq> ScopeIdentity connection' entity 1 1"
    using assms(5) by auto
  ultimately show ?thesis
    using rec entity assms(4,7) by (simp add: apply_exit_def judge_exit_def)
qed

section \<open>Instances\<close>

definition ex_scopes :: "vec ClientScopes" where
  "ex_scopes = \<lparr>cs_connection = 3, cs_limits = default_scope_limits, cs_records = [], cs_bytes = 0\<rparr>"

definition ex_full :: "vec FullState" where
  "ex_full = \<lparr>fs_scope = ScopeIdentity 3 (EntityId 9 2) 1 1, fs_baseline_generation = 4, fs_snapshot = 4,
    fs_version = 1, fs_end_tick = 20, fs_payload = ([5, 6], 2)\<rparr>"

lemma ex_scopes_new: "client_scopes_new 3 default_scope_limits = Inr ex_scopes"
  by (simp add: client_scopes_new_def ex_scopes_def scope_limits_validate_def default_scope_limits_def)

definition ex_published :: "vec ClientScopes" where
  "ex_published = ex_scopes\<lparr>cs_records := [(9, \<lparr>re_scope = fs_scope ex_full, re_closed = False,
    re_destroyed = False, re_state = Some ex_full\<rparr>)], cs_bytes := 2\<rparr>"

lemma ex_publish: "apply_full vec_payload (\<lambda>_. True) ex_full ex_scopes = (Inr (full_receipt ex_full), ex_published)"
  by (simp add: apply_full_def ex_full_def ex_scopes_def ex_published_def validate_identity_def validate_scope_def
      capacity_for_def default_scope_limits_def vec_payload_def usize_checked_sub_def usize_checked_add_def
      usize_max_def bt_contains_def Let_def)

theorem replica_fences_never_regress_witness:
  "\<exists>r'. map_of (cs_records (scope_step vec_payload (ApplyExit \<lparr>sx_scope = fs_scope ex_full\<rparr>) ex_published)) 9 = Some r'
    \<and> fence_le \<lparr>re_scope = fs_scope ex_full, re_closed = False, re_destroyed = False, re_state = Some ex_full\<rparr> r'"
  using replica_fences_never_regress[OF ex_scopes_new, of vec_payload "[ApplyFull (\<lambda>_. True) ex_full]"
      "[ApplyExit \<lparr>sx_scope = fs_scope ex_full\<rparr>]"]
  by (simp add: ex_publish Let_def) (simp add: ex_published_def)

theorem destroyed_never_resurrected_witness:
  "\<exists>e t. apply_destroy vec_payload \<lparr>ds_connection = 3, ds_entity = EntityId 9 2\<rparr> ex_published =
      (Inr \<lparr>ds_connection = 3, ds_entity = EntityId 9 2\<rparr>, t)
    \<and> apply_full vec_payload (\<lambda>_. True) ex_full t = (Inl e, t)"
proof -
  obtain t where t: "apply_destroy vec_payload \<lparr>ds_connection = 3, ds_entity = EntityId 9 2\<rparr> ex_published =
      (Inr \<lparr>ds_connection = 3, ds_entity = EntityId 9 2\<rparr>, t)"
    by (simp add: apply_destroy_def ex_published_def ex_scopes_def ex_full_def capacity_for_def bt_contains_def)
  have "ex_published = fold (scope_step vec_payload) [ApplyFull (\<lambda>_. True) ex_full] ex_scopes"
    by (simp add: ex_publish)
  from destroyed_never_resurrected[OF ex_scopes_new this t, of ex_full "\<lambda>_. True" "[]"] t show ?thesis
    by (auto simp: ex_full_def)
qed

definition ex_variant :: "vec FullState" where
  "ex_variant = ex_full\<lparr>fs_scope := ScopeIdentity 3 (EntityId 9 2) 1 2\<rparr>"

theorem delayed_exit_conflicts_after_destroy_witness:
  "\<exists>s t. apply_full vec_payload (\<lambda>_. True) ex_variant ex_scopes = (Inr (full_receipt ex_variant), s)
    \<and> apply_destroy vec_payload \<lparr>ds_connection = 3, ds_entity = EntityId 9 2\<rparr> s =
      (Inr \<lparr>ds_connection = 3, ds_entity = EntityId 9 2\<rparr>, t)
    \<and> apply_exit vec_payload \<lparr>sx_scope = fs_scope ex_variant\<rparr> t = (Inl Conflict, t)"
proof -
  obtain s where s: "apply_full vec_payload (\<lambda>_. True) ex_variant ex_scopes = (Inr (full_receipt ex_variant), s)"
    and v: "published_state (EntityId 9 2) s = Some ex_variant" "cs_connection s = 3"
      "capacity_for 9 s = Inr ()" "map_option re_scope (map_of (cs_records s) 9) = Some (fs_scope ex_variant)"
    by (simp add: apply_full_def ex_variant_def ex_full_def ex_scopes_def validate_identity_def validate_scope_def
        capacity_for_def default_scope_limits_def vec_payload_def usize_checked_sub_def usize_checked_add_def
        usize_max_def bt_contains_def published_state_def Let_def)
  obtain t where t: "apply_destroy vec_payload \<lparr>ds_connection = 3, ds_entity = EntityId 9 2\<rparr> s =
      (Inr \<lparr>ds_connection = 3, ds_entity = EntityId 9 2\<rparr>, t)"
    using v by (auto simp: apply_destroy_def ex_variant_def split: option.splits)
  have "s = fold (scope_step vec_payload) [ApplyFull (\<lambda>_. True) ex_variant] ex_scopes"
    by (simp add: s)
  from delayed_exit_conflicts_after_destroy[OF ex_scopes_new this v(1) _ _ t] s t v(2) show ?thesis
    by (auto simp: ex_variant_def validate_scope_def)
qed

end
