(* ===== verification/Net_Grants.thy ===== *)
theory Net_Grants
  imports Net_Types
begin

text \<open>
  Authorisation results of interest management, as the encoder sees them:
  \<open>engine/net/src/interest/model.rs\<close> (grants and reasons) and \<open>gather.rs\<close> (eligible sets).
\<close>

record RepresentationGrant =
  rg_schema_id :: u64
  rg_revision :: RepresentationRevision
  rg_fields :: u64
  rg_prediction_allowed :: bool

type_synonym EligibilityReasons = u8

definition SPATIAL :: EligibilityReasons where "SPATIAL = 1"

definition GLOBAL :: EligibilityReasons where "GLOBAL = 2"

definition OWNER :: EligibilityReasons where "OWNER = 4"

definition SEMANTIC :: EligibilityReasons where "SEMANTIC = 8"

definition REQUIRED :: EligibilityReasons where "REQUIRED = 16"

unbundle bit_operations_syntax

definition reasons_contains :: "EligibilityReasons \<Rightarrow> EligibilityReasons \<Rightarrow> bool" where
  "reasons_contains a b \<longleftrightarrow> a AND b = b"

definition reasons_insert :: "EligibilityReasons \<Rightarrow> EligibilityReasons \<Rightarrow> EligibilityReasons" where
  "reasons_insert a b = a OR b"

definition without_spatial :: "EligibilityReasons \<Rightarrow> EligibilityReasons" where
  "without_spatial a = a AND NOT SPATIAL"

record EligibleEntry =
  ee_entity :: EntityId
  ee_representation :: RepresentationGrant
  ee_reasons :: EligibilityReasons
  ee_state_version :: StateVersion
  ee_scene_revision :: SceneRevision

datatype DependencyError = Missing | Denied | IncompleteRepresentation | EntityLimit | EdgeLimit

datatype PredictionAdmission = NotRequested | Admitted "EntityId list" | NotAdmitted DependencyError

record EligibleSet =
  es_connection :: ConnectionId
  es_world_revision :: u64
  es_policy_revision :: PolicyRevision
  es_frame :: ReplicationFrame
  es_tick :: ServerTick
  es_entries :: "(EntityId, EligibleEntry) bt"
  es_prediction :: PredictionAdmission
  es_candidate_visits :: usize
  es_candidates :: usize

definition eligible_get :: "EntityId \<Rightarrow> EligibleSet \<Rightarrow> EligibleEntry option" where
  "eligible_get entity e = map_of (es_entries e) entity"

definition is_current :: "u64 \<Rightarrow> PolicyRevision \<Rightarrow> EligibleSet \<Rightarrow> bool" where
  "is_current world_revision policy_revision e \<longleftrightarrow>
    es_world_revision e = world_revision \<and> es_policy_revision e = policy_revision"

end
