(* ===== verification/Net_Server_Scopes.thy ===== *)
theory Net_Server_Scopes
  imports Net_Replication Net_Grants
begin

text \<open>
  The sending side of scoped replication: \<open>engine/net/src/replication/server.rs\<close>.

  The projection callback of \<open>offer\<close> and the send callback of \<open>transmit_pending\<close> are functions.  The
  \<open>unwrap\<close> calls follow a lookup of the same key in the same method and cannot fail; the byte
  subtractions are on naturals and exact by the accounting invariant.
\<close>

section \<open>Data\<close>

datatype DeliveryPhase = Entering | Active | DormantKnown | Leaving | Forgotten

record 'p Delivery =
  dl_identity :: ScopeIdentity
  dl_desired :: "'p FullState option"
  dl_sent :: "(SnapshotId, StateReceipt) bt"
  dl_decoded :: "StateReceipt option"
  dl_dormant :: bool
  dl_phase :: DeliveryPhase
  dl_exit_sent :: bool
  dl_destroyed :: bool

record 'p ServerScopes =
  ss_connection :: ConnectionId
  ss_epoch :: ConnectionEpoch
  ss_world_revision :: u64
  ss_policy :: PolicyRevision
  ss_limits :: ScopeLimits
  ss_records :: "(u64, 'p Delivery) bt"
  ss_next_snapshot :: SnapshotId
  ss_bytes :: usize
  ss_reset_required :: bool

definition gone :: "DeliveryPhase \<Rightarrow> bool" where
  "gone p \<longleftrightarrow> p = Leaving \<or> p = Forgotten"

definition in_transition :: "DeliveryPhase \<Rightarrow> bool" where
  "in_transition p \<longleftrightarrow> p = Entering \<or> p = Leaving"

definition desired_bytes :: "'p Payload \<Rightarrow> 'p Delivery \<Rightarrow> usize" where
  "desired_bytes pl d = (case dl_desired d of None \<Rightarrow> 0 | Some st \<Rightarrow> pl_retained_bytes pl (fs_payload st))"

section \<open>Operations\<close>

definition server_scopes_new ::
  "ConnectionId \<Rightarrow> ConnectionEpoch \<Rightarrow> u64 \<Rightarrow> PolicyRevision \<Rightarrow> ScopeLimits \<Rightarrow> ReplicationError + 'p ServerScopes" where
  "server_scopes_new connection epoch world_revision policy limits =
    (if epoch = 0 then Inl InvalidIdentity
     else and_then (scope_limits_validate limits) (\<lambda>l.
       Inr \<lparr>ss_connection = connection, ss_epoch = epoch, ss_world_revision = world_revision, ss_policy = policy,
         ss_limits = l, ss_records = [], ss_next_snapshot = 1, ss_bytes = 0, ss_reset_required = False\<rparr>))"

definition delivery_phase :: "EntityId \<Rightarrow> 'p ServerScopes \<Rightarrow> DeliveryPhase option" where
  "delivery_phase entity s = Option.bind (map_of (ss_records s) (eid_index entity))
    (\<lambda>d. if si_entity (dl_identity d) = entity then Some (dl_phase d) else None)"

definition pending_transitions :: "'p ServerScopes \<Rightarrow> usize" where
  "pending_transitions s = length (filter (\<lambda>(_, d). in_transition (dl_phase d)) (ss_records s))"

definition forget :: "'p Delivery \<Rightarrow> 'p Delivery" where
  "forget d = d\<lparr>dl_desired := None, dl_sent := [], dl_decoded := None, dl_phase := Forgotten\<rparr>"

definition require_reset :: "'p ServerScopes \<Rightarrow> 'p ServerScopes" where
  "require_reset s = s\<lparr>ss_reset_required := True, ss_records := bt_map (\<lambda>_. forget) (ss_records s), ss_bytes := 0\<rparr>"

definition revoke :: "'p Delivery \<Rightarrow> 'p Delivery" where
  "revoke d = (if dl_phase d \<noteq> Forgotten
    then d\<lparr>dl_phase := (if dl_destroyed d then Forgotten else Leaving), dl_exit_sent := False,
      dl_desired := None, dl_sent := [], dl_decoded := None\<rparr>
    else d)"

definition advance_barrier ::
  "u64 \<Rightarrow> PolicyRevision \<Rightarrow> 'p ServerScopes \<Rightarrow> (ReplicationError + unit) \<times> 'p ServerScopes" where
  "advance_barrier world_revision policy s =
    (if ss_reset_required s then (Inl ResetRequired, s)
     else if world_revision < ss_world_revision s \<or> policy < ss_policy s then (Inl Stale, s)
     else if policy \<noteq> ss_policy s
       \<and> length (filter (\<lambda>(_, d). dl_phase d \<noteq> Forgotten) (ss_records s)) > sl_pending_transitions (ss_limits s)
     then (Inl ResetRequired, require_reset s)
     else
       let s1 = (if policy \<noteq> ss_policy s
             then s\<lparr>ss_records := bt_map (\<lambda>_. revoke) (ss_records s), ss_bytes := 0\<rparr> else s) in
       (Inr (), s1\<lparr>ss_world_revision := world_revision, ss_policy := policy\<rparr>))"

definition refresh_phase :: "'p Delivery \<Rightarrow> 'p Delivery" where
  "refresh_phase d = d\<lparr>dl_phase :=
    (if dl_decoded d = None then Entering
     else if dl_dormant d \<and> (case dl_desired d of None \<Rightarrow> False | Some st \<Rightarrow> Some (full_receipt st) = dl_decoded d)
     then DormantKnown
     else Active)\<rparr>"

definition needs_new_scope :: "EntityId \<Rightarrow> RepresentationRevision \<Rightarrow> 'p Delivery option \<Rightarrow> bool" where
  "needs_new_scope entity representation old = (case old of
     None \<Rightarrow> True
   | Some d \<Rightarrow> si_entity (dl_identity d) \<noteq> entity \<or> si_representation (dl_identity d) \<noteq> representation \<or> gone (dl_phase d))"

text \<open>The publication of a payload that passed the checks against the previous one.\<close>

definition publish ::
  "'p Payload \<Rightarrow> EntityId \<Rightarrow> RepresentationRevision \<Rightarrow> StateVersion \<Rightarrow> ServerTick \<Rightarrow> bool \<Rightarrow> 'p \<Rightarrow> bool \<Rightarrow>
   'p ServerScopes \<Rightarrow> (ReplicationError + ScopeIdentity) \<times> 'p ServerScopes" where
  "publish pl entity representation version end_tick dormant payload new_scope s =
    (let old = map_of (ss_records s) (eid_index entity);
         sz = pl_retained_bytes pl payload;
         old_size = (case old of None \<Rightarrow> 0 | Some d \<Rightarrow> desired_bytes pl d) in
     attempt (ok_or Capacity (Option.bind (usize_checked_sub (ss_bytes s) old_size) (\<lambda>n. usize_checked_add n sz))) s (\<lambda>bytes.
       if sz > sl_payload_bytes (ss_limits s) \<or> bytes > sl_retained_payload_bytes (ss_limits s) then (Inl Capacity, s)
       else
         attempt (if new_scope
             then ok_or ResetRequired (case old of None \<Rightarrow> Some 1 | Some d \<Rightarrow> checked_next (si_scope (dl_identity d)))
             else Inr (case old of None \<Rightarrow> 0 | Some d \<Rightarrow> si_scope (dl_identity d))) s (\<lambda>scope.
         attempt (ok_or ResetRequired (checked_next (ss_next_snapshot s))) s (\<lambda>next_snapshot.
           let identity = ScopeIdentity (ss_epoch s) entity scope representation;
               st = \<lparr>fs_scope = identity, fs_baseline_generation = ss_next_snapshot s, fs_snapshot = ss_next_snapshot s,
                 fs_version = version, fs_end_tick = end_tick, fs_payload = payload\<rparr>;
               records = (if new_scope
                 then bt_insert (eid_index entity) \<lparr>dl_identity = identity, dl_desired = Some st, dl_sent = [],
                   dl_decoded = None, dl_dormant = dormant, dl_phase = Entering, dl_exit_sent = False,
                   dl_destroyed = False\<rparr> (ss_records s)
                 else bt_update (eid_index entity)
                   (\<lambda>d. refresh_phase (d\<lparr>dl_desired := Some st, dl_dormant := dormant\<rparr>)) (ss_records s)) in
           (Inr identity, s\<lparr>ss_records := records, ss_bytes := bytes, ss_next_snapshot := next_snapshot\<rparr>)))))"

definition offer_projected ::
  "'p Payload \<Rightarrow> EntityId \<Rightarrow> RepresentationRevision \<Rightarrow> StateVersion \<Rightarrow> ServerTick \<Rightarrow> bool \<Rightarrow> 'p \<Rightarrow>
   'p ServerScopes \<Rightarrow> (ReplicationError + ScopeIdentity) \<times> 'p ServerScopes" where
  "offer_projected pl entity representation version end_tick dormant payload s =
    (if ss_reset_required s then (Inl ResetRequired, s)
     else if eid_generation entity = 0 \<or> representation = 0 \<or> version = 0 then (Inl InvalidIdentity, s)
     else if \<not> bt_contains (eid_index entity) (ss_records s)
        \<and> length (ss_records s) \<ge> sl_known_entities (ss_limits s) then (Inl ResetRequired, s)
     else
       let old = map_of (ss_records s) (eid_index entity) in
       if (case old of None \<Rightarrow> False | Some d \<Rightarrow>
             eid_generation entity < eid_generation (si_entity (dl_identity d))
             \<or> eid_generation entity = eid_generation (si_entity (dl_identity d)) \<and> dl_destroyed d)
       then (Inl Stale, s)
       else
         let new_scope = needs_new_scope entity representation old in
         if new_scope \<and> (case old of None \<Rightarrow> True | Some d \<Rightarrow> \<not> in_transition (dl_phase d))
            \<and> pending_transitions s \<ge> sl_pending_transitions (ss_limits s)
         then (Inl Capacity, s)
         else if new_scope
         then publish pl entity representation version end_tick dormant payload True s
         else case Option.bind old dl_desired of
           None \<Rightarrow> (Inl Unknown, s)
         | Some previous \<Rightarrow>
           (if version < fs_version previous \<or> end_tick < fs_end_tick previous then (Inl Stale, s)
            else if version = fs_version previous then
              (if \<not> pl_eq pl payload (fs_payload previous) then (Inl Conflict, s)
               else (Inr (case old of None \<Rightarrow> fs_scope previous | Some d \<Rightarrow> dl_identity d),
                 s\<lparr>ss_records := bt_update (eid_index entity) (\<lambda>d. refresh_phase (d\<lparr>dl_dormant := dormant\<rparr>)) (ss_records s)\<rparr>))
            else publish pl entity representation version end_tick dormant payload False s))"

definition offer ::
  "'p Payload \<Rightarrow> EligibleSet \<Rightarrow> EntityId \<Rightarrow> bool \<Rightarrow> (RepresentationGrant \<Rightarrow> 'p) \<Rightarrow> 'p ServerScopes \<Rightarrow>
   (ReplicationError + ScopeIdentity) \<times> 'p ServerScopes" where
  "offer pl eligible entity dormant project s =
    (if ss_reset_required s then (Inl ResetRequired, s)
     else if es_connection eligible \<noteq> ss_connection s \<or> \<not> is_current (ss_world_revision s) (ss_policy s) eligible
     then (Inl Unauthorized, s)
     else attempt (ok_or Unauthorized (eligible_get entity eligible)) s (\<lambda>entry.
       let grant = ee_representation entry in
       offer_projected pl entity (rg_revision grant) (ee_state_version entry) (es_tick eligible) dormant (project grant) s))"

definition desired_state :: "EntityId \<Rightarrow> 'p ServerScopes \<Rightarrow> 'p FullState option" where
  "desired_state entity s = Option.bind (map_of (ss_records s) (eid_index entity)) (\<lambda>d.
    if si_entity (dl_identity d) \<noteq> entity \<or> gone (dl_phase d) then None else dl_desired d)"

definition pending_state :: "EntityId \<Rightarrow> 'p ServerScopes \<Rightarrow> 'p FullState option" where
  "pending_state entity s = Option.bind (map_of (ss_records s) (eid_index entity)) (\<lambda>d.
    if si_entity (dl_identity d) \<noteq> entity \<or> gone (dl_phase d) then None
    else Option.bind (dl_desired d) (\<lambda>st. if Some (full_receipt st) \<noteq> dl_decoded d then Some st else None))"

definition record_sent :: "usize \<Rightarrow> StateReceipt \<Rightarrow> 'p Delivery \<Rightarrow> 'p Delivery" where
  "record_sent limit receipt d = d\<lparr>dl_sent := bt_insert (rc_snapshot receipt) receipt
    (if \<not> bt_contains (rc_snapshot receipt) (dl_sent d) \<and> length (dl_sent d) \<ge> limit then tl (dl_sent d) else dl_sent d)\<rparr>"

definition mark_sent :: "StateReceipt \<Rightarrow> 'p ServerScopes \<Rightarrow> (ReplicationError + unit) \<times> 'p ServerScopes" where
  "mark_sent receipt s =
    attempt (ok_or Unknown (map_of (ss_records s) (eid_index (si_entity (rc_scope receipt))))) s (\<lambda>d.
      if dl_identity d \<noteq> rc_scope receipt \<or> gone (dl_phase d)
         \<or> map_option full_receipt (dl_desired d) \<noteq> Some receipt
      then (Inl Stale, s)
      else (Inr (), s\<lparr>ss_records := bt_update (eid_index (si_entity (rc_scope receipt)))
        (record_sent (sl_sent_proofs_per_scope (ss_limits s)) receipt) (ss_records s)\<rparr>))"

definition transmit_pending ::
  "EntityId \<Rightarrow> ('p FullState \<Rightarrow> bool) \<Rightarrow> 'p ServerScopes \<Rightarrow> (ReplicationError + bool) \<times> 'p ServerScopes" where
  "transmit_pending entity send s =
    (if ss_reset_required s then (Inl ResetRequired, s)
     else case pending_state entity s of
       None \<Rightarrow> (Inr False, s)
     | Some st \<Rightarrow>
       (if \<not> send st then (Inr False, s)
        else case mark_sent (full_receipt st) s of
          (Inl e, t) \<Rightarrow> (Inl e, t)
        | (Inr _, t) \<Rightarrow> (Inr True, t)))"

definition validate_ack :: "StateReceipt \<Rightarrow> 'p ServerScopes \<Rightarrow> ReplicationError + unit" where
  "validate_ack receipt s =
    and_then (ok_or Unknown (map_of (ss_records s) (eid_index (si_entity (rc_scope receipt))))) (\<lambda>d.
      if rc_scope receipt \<noteq> dl_identity d \<or> gone (dl_phase d) then Inl Stale
      else if dl_decoded d = Some receipt then Inr ()
      else if map_of (dl_sent d) (rc_snapshot receipt) \<noteq> Some receipt then Inl Unknown
      else if (case dl_decoded d of None \<Rightarrow> False | Some old \<Rightarrow>
          rc_snapshot receipt < rc_snapshot old \<or> rc_version receipt < rc_version old) then Inl Stale
      else Inr ())"

definition record_decoded :: "StateReceipt \<Rightarrow> 'p Delivery \<Rightarrow> 'p Delivery" where
  "record_decoded receipt d = (if dl_decoded d = Some receipt then d
    else refresh_phase (d\<lparr>dl_decoded := Some receipt,
      dl_sent := bt_retain (\<lambda>snapshot _. snapshot \<ge> rc_snapshot receipt) (dl_sent d)\<rparr>))"

definition scope_acknowledge :: "StateReceipt \<Rightarrow> 'p ServerScopes \<Rightarrow> (ReplicationError + unit) \<times> 'p ServerScopes" where
  "scope_acknowledge receipt s =
    attempt (validate_ack receipt s) s (\<lambda>_.
      (Inr (), s\<lparr>ss_records := bt_update (eid_index (si_entity (rc_scope receipt))) (record_decoded receipt) (ss_records s)\<rparr>))"

definition decoded_current :: "EntityId \<Rightarrow> 'p ServerScopes \<Rightarrow> StateReceipt option" where
  "decoded_current entity s = Option.bind (map_of (ss_records s) (eid_index entity)) (\<lambda>d.
    if si_entity (dl_identity d) \<noteq> entity then None
    else Option.bind (dl_desired d) (\<lambda>st. if dl_decoded d = Some (full_receipt st) then Some (full_receipt st) else None))"

definition leave :: "'p Delivery \<Rightarrow> 'p Delivery" where
  "leave d = d\<lparr>dl_phase := Leaving, dl_exit_sent := False, dl_desired := None, dl_sent := [], dl_decoded := None\<rparr>"

definition scope_exit :: "'p Payload \<Rightarrow> EntityId \<Rightarrow> 'p ServerScopes \<Rightarrow> (ReplicationError + ScopeExit) \<times> 'p ServerScopes" where
  "scope_exit pl entity s =
    (if ss_reset_required s then (Inl ResetRequired, s)
     else case map_of (ss_records s) (eid_index entity) of
       None \<Rightarrow> (Inl Unknown, s)
     | Some d \<Rightarrow>
       (if si_entity (dl_identity d) \<noteq> entity then (Inl Unknown, s)
        else if dl_destroyed d then (Inl Conflict, s)
        else if \<not> (dl_phase d = Entering \<or> gone (dl_phase d))
          \<and> pending_transitions s \<ge> sl_pending_transitions (ss_limits s)
        then (Inl ResetRequired, require_reset s)
        else (Inr \<lparr>sx_scope = dl_identity d\<rparr>,
          if gone (dl_phase d) then s
          else s\<lparr>ss_records := bt_update (eid_index entity) leave (ss_records s),
                 ss_bytes := ss_bytes s - desired_bytes pl d\<rparr>)))"

definition exit_list :: "('p Delivery \<Rightarrow> bool) \<Rightarrow> 'p ServerScopes \<Rightarrow> ScopeExit list" where
  "exit_list P s = map (\<lambda>(_, d). \<lparr>sx_scope = dl_identity d\<rparr>)
    (filter (\<lambda>(_, d). dl_phase d = Leaving \<and> \<not> dl_destroyed d \<and> P d) (ss_records s))"

definition pending_exits :: "'p ServerScopes \<Rightarrow> ScopeExit list" where
  "pending_exits s = exit_list (\<lambda>_. True) s"

definition unsent_exits :: "'p ServerScopes \<Rightarrow> ScopeExit list" where
  "unsent_exits s = exit_list (\<lambda>d. \<not> dl_exit_sent d) s"

definition mark_exit_sent :: "ScopeExit \<Rightarrow> 'p ServerScopes \<Rightarrow> (ReplicationError + unit) \<times> 'p ServerScopes" where
  "mark_exit_sent exit s =
    attempt (ok_or Unknown (map_of (ss_records s) (eid_index (si_entity (sx_scope exit))))) s (\<lambda>d.
      if dl_identity d \<noteq> sx_scope exit \<or> dl_destroyed d \<or> dl_phase d \<noteq> Leaving then (Inl Stale, s)
      else (Inr (), s\<lparr>ss_records := bt_update (eid_index (si_entity (sx_scope exit)))
        (\<lambda>d. d\<lparr>dl_exit_sent := True\<rparr>) (ss_records s)\<rparr>))"

definition acknowledge_exit :: "ScopeExit \<Rightarrow> 'p ServerScopes \<Rightarrow> (ReplicationError + unit) \<times> 'p ServerScopes" where
  "acknowledge_exit exit s =
    attempt (ok_or Unknown (map_of (ss_records s) (eid_index (si_entity (sx_scope exit))))) s (\<lambda>d.
      if dl_identity d \<noteq> sx_scope exit \<or> dl_destroyed d \<or> \<not> dl_exit_sent d \<or> \<not> gone (dl_phase d)
      then (Inl Stale, s)
      else (Inr (), s\<lparr>ss_records := bt_update (eid_index (si_entity (sx_scope exit)))
        (\<lambda>d. d\<lparr>dl_phase := Forgotten\<rparr>) (ss_records s)\<rparr>))"

definition scope_destroy :: "'p Payload \<Rightarrow> EntityId \<Rightarrow> 'p ServerScopes \<Rightarrow> (ReplicationError + Destroy) \<times> 'p ServerScopes" where
  "scope_destroy pl entity s =
    (if ss_reset_required s then (Inl ResetRequired, s)
     else case map_of (ss_records s) (eid_index entity) of
       None \<Rightarrow> (Inl Unknown, s)
     | Some d \<Rightarrow>
       (if si_entity (dl_identity d) \<noteq> entity then (Inl Unknown, s)
        else if dl_destroyed d then
          (if dl_phase d = Leaving then (Inr \<lparr>ds_connection = ss_epoch s, ds_entity = entity\<rparr>, s)
           else (Inl Unauthorized, s))
        else if gone (dl_phase d) then (Inl Unauthorized, s)
        else case scope_exit pl entity s of
          (Inl e, t) \<Rightarrow> (Inl e, t)
        | (Inr _, t) \<Rightarrow>
          (Inr \<lparr>ds_connection = ss_epoch t, ds_entity = entity\<rparr>,
           t\<lparr>ss_records := bt_update (eid_index entity) (\<lambda>d. d\<lparr>dl_destroyed := True\<rparr>) (ss_records t)\<rparr>)))"

definition destroy_list :: "('p Delivery \<Rightarrow> bool) \<Rightarrow> 'p ServerScopes \<Rightarrow> Destroy list" where
  "destroy_list P s = map (\<lambda>(_, d). \<lparr>ds_connection = ss_epoch s, ds_entity = si_entity (dl_identity d)\<rparr>)
    (filter (\<lambda>(_, d). dl_phase d = Leaving \<and> dl_destroyed d \<and> P d) (ss_records s))"

definition pending_destroys :: "'p ServerScopes \<Rightarrow> Destroy list" where
  "pending_destroys s = destroy_list (\<lambda>_. True) s"

definition unsent_destroys :: "'p ServerScopes \<Rightarrow> Destroy list" where
  "unsent_destroys s = destroy_list (\<lambda>d. \<not> dl_exit_sent d) s"

definition mark_destroy_sent :: "Destroy \<Rightarrow> 'p ServerScopes \<Rightarrow> (ReplicationError + unit) \<times> 'p ServerScopes" where
  "mark_destroy_sent destroy s =
    (if ds_connection destroy \<noteq> ss_epoch s then (Inl Stale, s)
     else attempt (ok_or Unknown (map_of (ss_records s) (eid_index (ds_entity destroy)))) s (\<lambda>d.
       if si_entity (dl_identity d) \<noteq> ds_entity destroy \<or> \<not> dl_destroyed d \<or> dl_phase d \<noteq> Leaving
       then (Inl Stale, s)
       else (Inr (), s\<lparr>ss_records := bt_update (eid_index (ds_entity destroy))
         (\<lambda>d. d\<lparr>dl_exit_sent := True\<rparr>) (ss_records s)\<rparr>)))"

definition acknowledge_destroy :: "Destroy \<Rightarrow> 'p ServerScopes \<Rightarrow> (ReplicationError + unit) \<times> 'p ServerScopes" where
  "acknowledge_destroy destroy s =
    (if ds_connection destroy \<noteq> ss_epoch s then (Inl Stale, s)
     else attempt (ok_or Unknown (map_of (ss_records s) (eid_index (ds_entity destroy)))) s (\<lambda>d.
       if si_entity (dl_identity d) \<noteq> ds_entity destroy \<or> \<not> dl_destroyed d \<or> \<not> dl_exit_sent d
       then (Inl Stale, s)
       else (Inr (), s\<lparr>ss_records := bt_update (eid_index (ds_entity destroy))
         (\<lambda>d. d\<lparr>dl_phase := Forgotten\<rparr>) (ss_records s)\<rparr>)))"

definition server_scopes_reset :: "ConnectionEpoch \<Rightarrow> 'p ServerScopes \<Rightarrow> (ReplicationError + unit) \<times> 'p ServerScopes" where
  "server_scopes_reset epoch s =
    (if epoch \<le> ss_epoch s then (Inl Stale, s)
     else (Inr (), s\<lparr>ss_epoch := epoch, ss_records := [], ss_bytes := 0, ss_next_snapshot := 1,
       ss_reset_required := False\<rparr>))"

end
