(* ===== verification/Net_Server_Scope_Facts.thy ===== *)
theory Net_Server_Scope_Facts
  imports Net_Server_Scopes
begin

text \<open>
  Correctness of the sending side: exact accounting and capacities, the state machine of each delivery,
  authorisation of everything that can be sent, and acknowledgements only of what was sent.
\<close>

section \<open>Calls\<close>

datatype 'p SrvOp =
    Barrier u64 PolicyRevision
  | Offer EligibleSet EntityId bool "RepresentationGrant \<Rightarrow> 'p"
  | Transmit EntityId "'p FullState \<Rightarrow> bool"
  | MarkSent StateReceipt
  | AckState StateReceipt
  | ExitScope EntityId
  | ExitSent ScopeExit
  | ExitAck ScopeExit
  | Kill EntityId
  | KillSent Destroy
  | KillAck Destroy
  | ResetScopes ConnectionEpoch

text \<open>One call, with the log of receipts that were handed to the transport.\<close>

fun srv_step :: "'p Payload \<Rightarrow> 'p SrvOp \<Rightarrow> 'p ServerScopes \<times> StateReceipt list \<Rightarrow> 'p ServerScopes \<times> StateReceipt list" where
  "srv_step pl (Barrier w p) (s, log) = (snd (advance_barrier w p s), log)"
| "srv_step pl (Offer el e dormant project) (s, log) = (snd (offer pl el e dormant project s), log)"
| "srv_step pl (Transmit e send) (s, log) =
    (case pending_state e s of
       None \<Rightarrow> (snd (transmit_pending e send s), log)
     | Some st \<Rightarrow> (case transmit_pending e send s of (Inr True, t) \<Rightarrow> (t, full_receipt st # log) | (_, t) \<Rightarrow> (t, log)))"
| "srv_step pl (MarkSent r) (s, log) = (case mark_sent r s of (Inr _, t) \<Rightarrow> (t, r # log) | (_, t) \<Rightarrow> (t, log))"
| "srv_step pl (AckState r) (s, log) = (snd (scope_acknowledge r s), log)"
| "srv_step pl (ExitScope e) (s, log) = (snd (scope_exit pl e s), log)"
| "srv_step pl (ExitSent x) (s, log) = (snd (mark_exit_sent x s), log)"
| "srv_step pl (ExitAck x) (s, log) = (snd (acknowledge_exit x s), log)"
| "srv_step pl (Kill e) (s, log) = (snd (scope_destroy pl e s), log)"
| "srv_step pl (KillSent x) (s, log) = (snd (mark_destroy_sent x s), log)"
| "srv_step pl (KillAck x) (s, log) = (snd (acknowledge_destroy x s), log)"
| "srv_step pl (ResetScopes c) (s, log) = (snd (server_scopes_reset c s), log)"

section \<open>Invariant\<close>

definition authorised :: "'p SrvOp set \<Rightarrow> ConnectionId \<Rightarrow> PolicyRevision \<Rightarrow> 'p FullState \<Rightarrow> bool" where
  "authorised seen connection policy st \<longleftrightarrow> (\<exists>el dormant project entry.
    Offer el (si_entity (fs_scope st)) dormant project \<in> seen
    \<and> es_connection el = connection \<and> es_policy_revision el = policy
    \<and> eligible_get (si_entity (fs_scope st)) el = Some entry
    \<and> si_representation (fs_scope st) = rg_revision (ee_representation entry)
    \<and> fs_version st = ee_state_version entry \<and> fs_payload st = project (ee_representation entry))"

definition sent_ok :: "ScopeLimits \<Rightarrow> StateReceipt set \<Rightarrow> 'p Delivery \<Rightarrow> bool" where
  "sent_ok limits log d \<longleftrightarrow> bt_ok (dl_sent d) \<and> length (dl_sent d) \<le> sl_sent_proofs_per_scope limits
    \<and> (\<forall>k r. map_of (dl_sent d) k = Some r \<longrightarrow> rc_snapshot r = k \<and> r \<in> log)
    \<and> (\<forall>r. dl_decoded d = Some r \<longrightarrow> r \<in> log)"

definition phase_ok :: "'p Delivery \<Rightarrow> bool" where
  "phase_ok d \<longleftrightarrow> (gone (dl_phase d) \<longrightarrow> dl_desired d = None \<and> dl_sent d = [] \<and> dl_decoded d = None)
    \<and> (\<not> gone (dl_phase d) \<longrightarrow> \<not> dl_destroyed d \<and> dl_desired d \<noteq> None
        \<and> (dl_phase d = Entering \<longleftrightarrow> dl_decoded d = None))
    \<and> (\<forall>st. dl_desired d = Some st \<longrightarrow> fs_scope st = dl_identity d)"

definition delivery_ok ::
  "'p SrvOp set \<Rightarrow> StateReceipt set \<Rightarrow> 'p ServerScopes \<Rightarrow> u64 \<Rightarrow> 'p Delivery \<Rightarrow> bool" where
  "delivery_ok seen log s i d \<longleftrightarrow> eid_index (si_entity (dl_identity d)) = i \<and> si_connection (dl_identity d) = ss_epoch s \<and> phase_ok d
    \<and> sent_ok (ss_limits s) log d
    \<and> (\<forall>st. dl_desired d = Some st \<longrightarrow> authorised seen (ss_connection s) (ss_policy s) st)"

definition all_deliveries :: "(u64 \<Rightarrow> 'p Delivery \<Rightarrow> bool) \<Rightarrow> (u64, 'p Delivery) bt \<Rightarrow> bool" where
  "all_deliveries P m \<longleftrightarrow> (\<forall>i d. map_of m i = Some d \<longrightarrow> P i d)"

definition transit :: "u64 \<Rightarrow> 'p Delivery \<Rightarrow> nat" where
  "transit i d = (if in_transition (dl_phase d) then 1 else 0)"

definition srv_counts_ok :: "'p Payload \<Rightarrow> 'p ServerScopes \<Rightarrow> bool" where
  "srv_counts_ok pl s \<longleftrightarrow> bt_ok (ss_records s) \<and> 0 < sl_sent_proofs_per_scope (ss_limits s)
    \<and> ss_bytes s = bt_sum (\<lambda>_. desired_bytes pl) (ss_records s)
    \<and> ss_bytes s \<le> sl_retained_payload_bytes (ss_limits s)
    \<and> length (ss_records s) \<le> sl_known_entities (ss_limits s)
    \<and> bt_sum transit (ss_records s) \<le> sl_pending_transitions (ss_limits s)"

definition srv_ok :: "'p Payload \<Rightarrow> 'p SrvOp set \<Rightarrow> StateReceipt set \<Rightarrow> 'p ServerScopes \<Rightarrow> bool" where
  "srv_ok pl seen log s \<longleftrightarrow> srv_counts_ok pl s \<and> all_deliveries (delivery_ok seen log s) (ss_records s)"

section \<open>Bookkeeping lemmas\<close>

lemma pending_transitions_sum: "pending_transitions s = bt_sum transit (ss_records s)"
proof -
  have "length (filter (\<lambda>(_, d). in_transition (dl_phase d)) m) = bt_sum transit m" for m :: "(u64, 'p Delivery) bt"
    by (induction m) (auto simp: transit_def)
  then show ?thesis
    by (simp add: pending_transitions_def)
qed

lemma all_deliveries_update:
  assumes "all_deliveries P m" "\<And>d. map_of m i = Some d \<Longrightarrow> P i d \<Longrightarrow> Q i (f d)"
    and "\<And>j d. map_of m j = Some d \<Longrightarrow> P j d \<Longrightarrow> j \<noteq> i \<Longrightarrow> Q j d"
  shows "all_deliveries Q (bt_update i f m)"
  using assms unfolding all_deliveries_def by (auto split: if_splits)

lemma all_deliveries_insert:
  assumes "all_deliveries P m" "bt_ok m" "Q i d"
    and "\<And>j d. map_of m j = Some d \<Longrightarrow> P j d \<Longrightarrow> Q j d"
  shows "all_deliveries Q (bt_insert i d m)"
  using assms unfolding all_deliveries_def by (auto split: if_splits)

lemma all_deliveries_map:
  assumes "all_deliveries P m" "\<And>i d. P i d \<Longrightarrow> Q i (f d)"
  shows "all_deliveries Q (bt_map (\<lambda>_. f) m)"
  using assms unfolding all_deliveries_def by (auto simp: map_option_case split: option.splits)

lemma delivery_ok_mono:
  "delivery_ok seen log s i d \<Longrightarrow> seen \<subseteq> seen' \<Longrightarrow> log \<subseteq> log' \<Longrightarrow> ss_limits t = ss_limits s \<Longrightarrow>
   ss_connection t = ss_connection s \<Longrightarrow> ss_policy t = ss_policy s \<Longrightarrow> ss_epoch t = ss_epoch s \<Longrightarrow> delivery_ok seen' log' t i d"
  unfolding delivery_ok_def sent_ok_def authorised_def by (simp, blast)

lemma srv_ok_mono: "srv_ok pl seen log s \<Longrightarrow> seen \<subseteq> seen' \<Longrightarrow> log \<subseteq> log' \<Longrightarrow> srv_ok pl seen' log' s"
  unfolding srv_ok_def all_deliveries_def by (blast intro: delivery_ok_mono)

lemma srv_delivery:
  "srv_ok pl seen log s \<Longrightarrow> map_of (ss_records s) i = Some d \<Longrightarrow> delivery_ok seen log s i d"
  by (simp add: srv_ok_def all_deliveries_def)

text \<open>Changing one record without touching its payload or making it busier.\<close>

lemma quiet_update_ok:
  assumes ok: "srv_ok pl seen log s" and log: "log \<subseteq> log'"
    and f: "\<And>d. map_of (ss_records s) i = Some d \<Longrightarrow> delivery_ok seen log s i d \<Longrightarrow>
      delivery_ok seen log' s i (f d) \<and> dl_desired (f d) = dl_desired d
      \<and> (in_transition (dl_phase (f d)) \<longrightarrow> in_transition (dl_phase d))"
  shows "srv_ok pl seen log' (s\<lparr>ss_records := bt_update i f (ss_records s)\<rparr>)"
proof -
  let ?t = "s\<lparr>ss_records := bt_update i f (ss_records s)\<rparr>"
  have bt: "bt_ok (ss_records s)" and counts: "srv_counts_ok pl s"
    and all: "all_deliveries (delivery_ok seen log s) (ss_records s)"
    using ok by (simp_all add: srv_ok_def srv_counts_ok_def)
  note d = f[OF _ srv_delivery[OF ok]]
  have "bt_sum (\<lambda>_. desired_bytes pl) (ss_records ?t) = bt_sum (\<lambda>_. desired_bytes pl) (ss_records s)"
    using bt_sum_update_eq[OF bt, of i "\<lambda>_. desired_bytes pl" f] d by (simp add: desired_bytes_def)
  moreover have "bt_sum transit (ss_records ?t) \<le> bt_sum transit (ss_records s)"
    using bt_sum_update_le[OF bt, of i transit f] d by (simp add: transit_def)
  moreover have "all_deliveries (delivery_ok seen log' ?t) (ss_records ?t)"
    by (simp, rule all_deliveries_update[OF all]) (use d log in \<open>auto intro: delivery_ok_mono\<close>)
  ultimately show ?thesis
    using counts bt by (auto simp: srv_ok_def srv_counts_ok_def)
qed

section \<open>Barriers and resets\<close>

lemma bt_sum_map: "bt_sum f (bt_map g m) = bt_sum (\<lambda>k v. f k (g k v)) m"
  by (induction m) (auto simp: bt_map_def)

lemma bt_sum_zero: "(\<And>k v. (k, v) \<in> set m \<Longrightarrow> f k v = 0) \<Longrightarrow> bt_sum f m = 0"
  by (induction m) auto

lemma bt_sum_no_charge [simp]: "bt_sum (\<lambda>k v. 0) m = 0"
  by (rule bt_sum_zero) simp

lemma require_reset_ok:
  assumes ok: "srv_ok pl seen log s"
  shows "srv_ok pl seen log (require_reset s)"
proof -
  have all: "all_deliveries (delivery_ok seen log s) (ss_records s)"
    using ok by (simp add: srv_ok_def)
  have "all_deliveries (delivery_ok seen log (require_reset s)) (ss_records (require_reset s))"
    unfolding require_reset_def
    by (simp, rule all_deliveries_map[OF all])
      (auto simp: delivery_ok_def phase_ok_def sent_ok_def forget_def gone_def)
  then show ?thesis
    using ok
    by (auto simp: srv_ok_def srv_counts_ok_def require_reset_def bt_sum_map transit_def desired_bytes_def forget_def
        in_transition_def intro!: bt_sum_zero)
qed

lemma revoke_delivery_ok:
  assumes "delivery_ok seen log s i d" "ss_limits t = ss_limits s" "ss_epoch t = ss_epoch s"
  shows "delivery_ok seen log t i (revoke d)"
  using assms by (auto simp: delivery_ok_def phase_ok_def sent_ok_def revoke_def gone_def)

lemma revoke_sums:
  assumes ok: "srv_ok pl seen log s"
    and few: "length (filter (\<lambda>(_, d). dl_phase d \<noteq> Forgotten) (ss_records s)) \<le> n"
  shows "bt_sum (\<lambda>_. desired_bytes pl) (bt_map (\<lambda>_. revoke) (ss_records s)) = 0"
    and "bt_sum transit (bt_map (\<lambda>_. revoke) (ss_records s)) \<le> n"
proof -
  have bt: "bt_ok (ss_records s)"
    using ok by (simp add: srv_ok_def srv_counts_ok_def)
  have "desired_bytes pl (revoke d) = 0" if "(i, d) \<in> set (ss_records s)" for i d
    using srv_delivery[OF ok bt_keys_unique[OF bt that]]
    by (auto simp: desired_bytes_def revoke_def delivery_ok_def phase_ok_def gone_def)
  then show "bt_sum (\<lambda>_. desired_bytes pl) (bt_map (\<lambda>_. revoke) (ss_records s)) = 0"
    unfolding bt_sum_map by (rule bt_sum_zero)
  have "bt_sum transit (bt_map (\<lambda>_. revoke) m) \<le> length (filter (\<lambda>(_, d). dl_phase d \<noteq> Forgotten) m)"
    for m :: "(u64, 'a Delivery) bt"
    unfolding bt_sum_map by (induction m) (auto simp: transit_def revoke_def in_transition_def)
  then show "bt_sum transit (bt_map (\<lambda>_. revoke) (ss_records s)) \<le> n"
    using few by (rule order_trans)
qed

lemma advance_barrier_cases:
  assumes "advance_barrier w p s = (res, t)"
  obtains (same) "t = s" | (reset) "t = require_reset s" "res = Inl ResetRequired"
  | (world) "t = s\<lparr>ss_world_revision := w, ss_policy := p\<rparr>" "p = ss_policy s"
  | (policy) "t = s\<lparr>ss_records := bt_map (\<lambda>_. revoke) (ss_records s), ss_bytes := 0, ss_world_revision := w, ss_policy := p\<rparr>"
      "length (filter (\<lambda>(_, d). dl_phase d \<noteq> Forgotten) (ss_records s)) \<le> sl_pending_transitions (ss_limits s)"
proof (cases "ss_reset_required s \<or> w < ss_world_revision s \<or> p < ss_policy s")
  case True
  then show thesis
    using assms same by (auto simp: advance_barrier_def split: if_splits)
next
  case False
  then show thesis
    using assms reset world policy
    by (cases "p = ss_policy s") (auto simp: advance_barrier_def Let_def split: if_splits)
qed

lemma advance_barrier_ok:
  assumes ok: "srv_ok pl seen log s" and step: "advance_barrier w p s = (res, t)"
  shows "srv_ok pl seen log t"
proof -
  have all: "all_deliveries (delivery_ok seen log s) (ss_records s)" and counts: "srv_counts_ok pl s"
    using ok by (simp_all add: srv_ok_def)
  from step show ?thesis
  proof (cases rule: advance_barrier_cases)
    case world
    have "all_deliveries (delivery_ok seen log t) (ss_records s)"
      using all world unfolding all_deliveries_def by (auto simp: delivery_ok_def)
    then show ?thesis
      using counts world by (simp add: srv_ok_def srv_counts_ok_def)
  next
    case policy
    have "all_deliveries (delivery_ok seen log t) (ss_records t)"
      unfolding policy(1) by (simp, rule all_deliveries_map[OF all]) (rule revoke_delivery_ok, simp_all)
    then show ?thesis
      using counts revoke_sums[OF ok policy(2)] unfolding policy(1) by (simp add: srv_ok_def srv_counts_ok_def)
  qed (use ok require_reset_ok in auto)
qed

section \<open>Offers\<close>

lemma publish_cases:
  assumes "publish pl entity representation version end_tick dormant payload new_scope s = (res, t)"
  obtains (refused) e where "res = Inl e" "t = s"
  | (published) scope st nxt bytes records where
      "st = \<lparr>fs_scope = ScopeIdentity (ss_epoch s) entity scope representation,
         fs_baseline_generation = ss_next_snapshot s, fs_snapshot = ss_next_snapshot s,
         fs_version = version, fs_end_tick = end_tick, fs_payload = payload\<rparr>"
      "t = s\<lparr>ss_records := records, ss_bytes := bytes, ss_next_snapshot := nxt\<rparr>"
      "records = (if new_scope
         then bt_insert (eid_index entity) \<lparr>dl_identity = fs_scope st, dl_desired = Some st, dl_sent = [],
           dl_decoded = None, dl_dormant = dormant, dl_phase = Entering, dl_exit_sent = False,
           dl_destroyed = False\<rparr> (ss_records s)
         else bt_update (eid_index entity) (\<lambda>d. refresh_phase (d\<lparr>dl_desired := Some st, dl_dormant := dormant\<rparr>)) (ss_records s))"
      "bytes = ss_bytes s - (case map_of (ss_records s) (eid_index entity) of None \<Rightarrow> 0 | Some d \<Rightarrow> desired_bytes pl d)
         + pl_retained_bytes pl payload"
      "bytes \<le> sl_retained_payload_bytes (ss_limits s)"
      "\<And>d. \<not> new_scope \<Longrightarrow> map_of (ss_records s) (eid_index entity) = Some d \<Longrightarrow> scope = si_scope (dl_identity d)"
proof (cases res)
  case (Inl e)
  then have "t = s"
    using assms unfolding publish_def Let_def by (auto simp: res_simps split: if_splits)
  with Inl show thesis
    by (rule refused)
next
  case (Inr r)
  with assms show thesis
    unfolding publish_def Let_def
    by (auto simp: res_simps usize_checked_sub_def usize_checked_add_def bind_eq_Some_conv
        split: if_splits option.splits intro!: published)
qed

lemma refresh_phase_fields [simp]:
  "dl_identity (refresh_phase d) = dl_identity d" "dl_desired (refresh_phase d) = dl_desired d"
  "dl_sent (refresh_phase d) = dl_sent d" "dl_decoded (refresh_phase d) = dl_decoded d"
  "dl_destroyed (refresh_phase d) = dl_destroyed d"
  "gone (dl_phase (refresh_phase d)) \<longleftrightarrow> False" "dl_phase (refresh_phase d) \<noteq> Leaving"
  "dl_phase (refresh_phase d) \<noteq> Forgotten"
  "dl_phase (refresh_phase d) = Entering \<longleftrightarrow> dl_decoded d = None"
  "in_transition (dl_phase (refresh_phase d)) \<longleftrightarrow> dl_decoded d = None"
  by (simp_all add: refresh_phase_def gone_def in_transition_def)

lemma publish_new_ok:
  assumes ok: "srv_ok pl seen log s"
    and room: "\<not> bt_contains (eid_index entity) (ss_records s) \<Longrightarrow> length (ss_records s) < sl_known_entities (ss_limits s)"
      "(case map_of (ss_records s) (eid_index entity) of None \<Rightarrow> True | Some d \<Rightarrow> \<not> in_transition (dl_phase d))
        \<Longrightarrow> pending_transitions s < sl_pending_transitions (ss_limits s)"
    and pub: "publish pl entity representation version end_tick dormant payload True s = (res, t)"
    and auth: "\<And>scope. authorised seen (ss_connection s) (ss_policy s)
      \<lparr>fs_scope = ScopeIdentity (ss_epoch s) entity scope representation, fs_baseline_generation = ss_next_snapshot s,
       fs_snapshot = ss_next_snapshot s, fs_version = version, fs_end_tick = end_tick, fs_payload = payload\<rparr>"
  shows "srv_ok pl seen log t"
  using pub
proof (cases rule: publish_cases)
  case (published scope st nxt bytes records)
  let ?i = "eid_index entity"
  let ?d = "\<lparr>dl_identity = fs_scope st, dl_desired = Some st, dl_sent = [],
           dl_decoded = None, dl_dormant = dormant, dl_phase = Entering, dl_exit_sent = False, dl_destroyed = False\<rparr>"
  have bt: "bt_ok (ss_records s)" and counts: "srv_counts_ok pl s"
    and all: "all_deliveries (delivery_ok seen log s) (ss_records s)"
    using ok by (simp_all add: srv_ok_def srv_counts_ok_def)
  have rec: "records = bt_insert ?i ?d (ss_records s)"
    using published(3) by simp
  have new: "delivery_ok seen log s ?i ?d"
    using auth published(1) by (simp add: delivery_ok_def phase_ok_def sent_ok_def gone_def)
  have "all_deliveries (delivery_ok seen log s) records"
    unfolding rec by (rule all_deliveries_insert[OF all bt, of "delivery_ok seen log s"]) (rule new)
  then have "all_deliveries (delivery_ok seen log t) (ss_records t)"
    using published(2) by (simp add: all_deliveries_def delivery_ok_def)
  moreover have "bt_sum (\<lambda>_. desired_bytes pl) records = bytes"
    unfolding rec using btm.replace_total[OF bt, of "\<lambda>_. desired_bytes pl" ?i ?d] counts published(1,4)
    by (cases "map_of (ss_records s) ?i") (simp_all add: srv_counts_ok_def desired_bytes_def)
  moreover have "bt_sum transit records \<le> sl_pending_transitions (ss_limits s)"
  proof (cases "case map_of (ss_records s) ?i of None \<Rightarrow> True | Some d \<Rightarrow> \<not> in_transition (dl_phase d)")
    case True
    then show ?thesis
      unfolding rec using bt_sum_insert[OF bt, of transit ?i ?d] room(2) pending_transitions_sum[of s]
      by (simp add: transit_def in_transition_def)
  next
    case False
    then obtain d where "map_of (ss_records s) ?i = Some d" "transit ?i d = 1"
      by (auto simp: transit_def split: option.splits)
    then show ?thesis
      unfolding rec using bt_sum_insert[OF bt, of transit ?i ?d] counts
      by (simp add: srv_counts_ok_def) (simp add: transit_def in_transition_def)
  qed
  moreover have "length records \<le> sl_known_entities (ss_limits s)"
    unfolding rec using length_bt_insert[OF bt, of ?i ?d] room(1) counts
    by (auto simp: srv_counts_ok_def bt_contains_def split: if_splits)
  ultimately show ?thesis
    using published(2,5) counts bt rec by (simp add: srv_ok_def srv_counts_ok_def)
qed (use ok in simp)

lemma publish_same_ok:
  assumes ok: "srv_ok pl seen log s"
    and old: "map_of (ss_records s) (eid_index entity) = Some d0" "\<not> needs_new_scope entity representation (Some d0)"
    and pub: "publish pl entity representation version end_tick dormant payload False s = (res, t)"
    and auth: "\<And>scope. authorised seen (ss_connection s) (ss_policy s)
      \<lparr>fs_scope = ScopeIdentity (ss_epoch s) entity scope representation, fs_baseline_generation = ss_next_snapshot s,
       fs_snapshot = ss_next_snapshot s, fs_version = version, fs_end_tick = end_tick, fs_payload = payload\<rparr>"
  shows "srv_ok pl seen log t"
  using pub
proof (cases rule: publish_cases)
  case (published scope st nxt bytes records)
  let ?i = "eid_index entity"
  let ?f = "\<lambda>d. refresh_phase (d\<lparr>dl_desired := Some st, dl_dormant := dormant\<rparr>)"
  have bt: "bt_ok (ss_records s)" and counts: "srv_counts_ok pl s"
    and all: "all_deliveries (delivery_ok seen log s) (ss_records s)"
    using ok by (simp_all add: srv_ok_def srv_counts_ok_def)
  have rec: "records = bt_update ?i ?f (ss_records s)"
    using published(3) by simp
  have d0: "delivery_ok seen log s ?i d0"
    using srv_delivery[OF ok old(1)] .
  have st: "authorised seen (ss_connection s) (ss_policy s) st"
    using auth[of scope] published(1) by simp
  have "fs_scope st = dl_identity d0"
    using published(1) published(6)[OF _ old(1)] old(2) d0
    by (cases "dl_identity d0") (auto simp: needs_new_scope_def delivery_ok_def)
  then have new: "delivery_ok seen log s ?i (?f d0)"
    using st d0 old(2) by (simp add: delivery_ok_def phase_ok_def sent_ok_def needs_new_scope_def)
  have "all_deliveries (delivery_ok seen log s) records"
    unfolding rec by (rule all_deliveries_update[OF all]) (use new old(1) in auto)
  then have "all_deliveries (delivery_ok seen log t) (ss_records t)"
    using published(2) by (simp add: all_deliveries_def delivery_ok_def)
  moreover have "bt_sum (\<lambda>_. desired_bytes pl) records = bytes"
    unfolding rec using bt_sum_update[OF bt old(1), of "\<lambda>_. desired_bytes pl" ?f] counts published(1,4) old(1)
      bt_sum_member[OF old(1), of "\<lambda>_. desired_bytes pl"]
    by (simp add: srv_counts_ok_def desired_bytes_def)
  moreover have "bt_sum transit records \<le> bt_sum transit (ss_records s)"
    unfolding rec
    by (rule bt_sum_update_le[OF bt])
      (use d0 old in \<open>auto simp: transit_def delivery_ok_def phase_ok_def needs_new_scope_def in_transition_def\<close>)
  ultimately show ?thesis
    using published(2,5) counts bt rec by (simp add: srv_ok_def srv_counts_ok_def)
qed (use ok in simp)

lemma refresh_update_ok:
  assumes "srv_ok pl seen log s" "map_of (ss_records s) i = Some d0" "\<not> gone (dl_phase d0)"
  shows "srv_ok pl seen log (s\<lparr>ss_records := bt_update i (\<lambda>d. refresh_phase (d\<lparr>dl_dormant := dormant\<rparr>)) (ss_records s)\<rparr>)"
  by (rule quiet_update_ok[OF assms(1)])
    (use assms in \<open>auto simp: delivery_ok_def phase_ok_def sent_ok_def in_transition_def\<close>)

lemma offer_projected_cases:
  assumes "offer_projected pl entity representation version end_tick dormant payload s = (res, t)"
  obtains (same) "t = s" "\<exists>e. res = Inl e"
  | (new) "publish pl entity representation version end_tick dormant payload True s = (res, t)"
      "\<not> bt_contains (eid_index entity) (ss_records s) \<Longrightarrow> length (ss_records s) < sl_known_entities (ss_limits s)"
      "(case map_of (ss_records s) (eid_index entity) of None \<Rightarrow> True | Some d \<Rightarrow> \<not> in_transition (dl_phase d))
        \<Longrightarrow> pending_transitions s < sl_pending_transitions (ss_limits s)"
  | (touch) d where "map_of (ss_records s) (eid_index entity) = Some d" "\<not> gone (dl_phase d)"
      "t = s\<lparr>ss_records := bt_update (eid_index entity) (\<lambda>d. refresh_phase (d\<lparr>dl_dormant := dormant\<rparr>)) (ss_records s)\<rparr>"
  | (again) d where "map_of (ss_records s) (eid_index entity) = Some d" "\<not> needs_new_scope entity representation (Some d)"
      "publish pl entity representation version end_tick dormant payload False s = (res, t)"
proof (cases "needs_new_scope entity representation (map_of (ss_records s) (eid_index entity))")
  case True
  with assms show thesis
    by (auto simp: offer_projected_def Let_def not_le split: if_splits intro: same new)
next
  case False
  then obtain d where d: "map_of (ss_records s) (eid_index entity) = Some d" "\<not> needs_new_scope entity representation (Some d)"
    by (cases "map_of (ss_records s) (eid_index entity)") (auto simp: needs_new_scope_def)
  then have "\<not> gone (dl_phase d)"
    by (simp add: needs_new_scope_def)
  with assms d show thesis
    by (auto simp: offer_projected_def Let_def split: if_splits option.splits intro: same touch again)
qed

lemma offer_ok:
  assumes ok: "srv_ok pl seen log s" and v: "offer pl el entity dormant project s = (res, t)"
    and op: "Offer el entity dormant project \<in> seen"
  shows "srv_ok pl seen log t"
proof (cases "ss_reset_required s \<or> es_connection el \<noteq> ss_connection s
    \<or> \<not> is_current (ss_world_revision s) (ss_policy s) el \<or> eligible_get entity el = None")
  case True
  then show ?thesis
    using v ok by (auto simp: offer_def split: if_splits)
next
  case False
  then obtain entry where entry: "eligible_get entity el = Some entry"
    by blast
  let ?g = "ee_representation entry"
  have call: "offer_projected pl entity (rg_revision ?g) (ee_state_version entry) (es_tick el) dormant (project ?g) s = (res, t)"
    using v False entry by (simp add: offer_def Let_def)
  have auth: "authorised seen (ss_connection s) (ss_policy s)
      \<lparr>fs_scope = ScopeIdentity (ss_epoch s) entity scope (rg_revision ?g), fs_baseline_generation = ss_next_snapshot s,
       fs_snapshot = ss_next_snapshot s, fs_version = ee_state_version entry, fs_end_tick = es_tick el, fs_payload = project ?g\<rparr>" for scope
    unfolding authorised_def using False entry op by (auto simp: is_current_def)
  from call show ?thesis
  proof (cases rule: offer_projected_cases)
    case new
    then show ?thesis
      using publish_new_ok[OF ok new(2,3,1) auth] by blast
  next
    case (touch d)
    then show ?thesis
      using refresh_update_ok[OF ok] by blast
  next
    case (again d)
    then show ?thesis
      using publish_same_ok[OF ok again auth] by blast
  qed (use ok in simp)
qed

section \<open>Transmission and acknowledgement\<close>

lemma record_sent_fields [simp]:
  "dl_identity (record_sent n r d) = dl_identity d" "dl_desired (record_sent n r d) = dl_desired d"
  "dl_decoded (record_sent n r d) = dl_decoded d" "dl_phase (record_sent n r d) = dl_phase d"
  "dl_destroyed (record_sent n r d) = dl_destroyed d" "dl_dormant (record_sent n r d) = dl_dormant d"
  by (simp_all add: record_sent_def)

lemma bt_ok_tl: "bt_ok m \<Longrightarrow> bt_ok (tl m)"
  by (cases m) (auto simp: bt_ok_def)

lemma map_of_tl:
  assumes "bt_ok m" "map_of (tl m) k = Some q"
  shows "map_of m k = Some q"
proof (rule bt_keys_unique[OF assms(1)])
  show "(k, q) \<in> set m"
    using map_of_SomeD[OF assms(2)] by (cases m) auto
qed

lemma record_sent_ok:
  assumes ok: "sent_ok limits log d" and pos: "0 < sl_sent_proofs_per_scope limits" and log: "insert r log \<subseteq> log'"
  shows "sent_ok limits log' (record_sent (sl_sent_proofs_per_scope limits) r d)"
proof -
  let ?n = "sl_sent_proofs_per_scope limits"
  define base where "base = (if \<not> bt_contains (rc_snapshot r) (dl_sent d) \<and> length (dl_sent d) \<ge> ?n then tl (dl_sent d) else dl_sent d)"
  have bt: "bt_ok (dl_sent d)" and len: "length (dl_sent d) \<le> ?n"
    and rec: "\<And>k q. map_of (dl_sent d) k = Some q \<Longrightarrow> rc_snapshot q = k \<and> q \<in> log"
    and dec: "\<And>q. dl_decoded d = Some q \<Longrightarrow> q \<in> log"
    using ok by (simp_all add: sent_ok_def)
  have base_ok: "bt_ok base"
    using bt unfolding base_def by (auto simp: bt_ok_tl)
  have sub: "map_of (dl_sent d) k = Some q" if "map_of base k = Some q" for k q
    using that bt unfolding base_def by (auto split: if_splits intro: map_of_tl)
  have "length (bt_insert (rc_snapshot r) r base) \<le> ?n"
    using length_bt_insert[OF base_ok, of "rc_snapshot r" r] len pos
    by (auto simp: base_def bt_contains_def split: if_splits)
  moreover have "rc_snapshot q = k \<and> q \<in> log'" if "map_of (bt_insert (rc_snapshot r) r base) k = Some q" for k q
    using that rec[OF sub] log base_ok by (auto split: if_splits)
  moreover have "q \<in> log'" if "dl_decoded d = Some q" for q
    using dec[OF that] log by blast
  moreover have "dl_sent (record_sent ?n r d) = bt_insert (rc_snapshot r) r base"
    by (simp add: record_sent_def base_def)
  ultimately show ?thesis
    using bt_ok_insert[OF base_ok] unfolding sent_ok_def record_sent_fields by metis
qed

lemma mark_sent_ok:
  assumes ok: "srv_ok pl seen log s" and v: "mark_sent r s = (res, t)" and log: "insert r log \<subseteq> log'"
  shows "res = Inr () \<Longrightarrow> srv_ok pl seen log' t" and "res \<noteq> Inr () \<Longrightarrow> t = s"
proof -
  show "res \<noteq> Inr () \<Longrightarrow> t = s"
    using v by (auto simp: mark_sent_def attempt_def ok_or_def split: option.splits if_splits)
  assume "res = Inr ()"
  then have t: "t = s\<lparr>ss_records := bt_update (eid_index (si_entity (rc_scope r)))
        (record_sent (sl_sent_proofs_per_scope (ss_limits s)) r) (ss_records s)\<rparr>"
    using v by (auto simp: mark_sent_def attempt_def ok_or_def split: option.splits if_splits)
  have pos: "0 < sl_sent_proofs_per_scope (ss_limits s)"
    using ok by (simp add: srv_ok_def srv_counts_ok_def)
  show "srv_ok pl seen log' t"
    unfolding t
  proof (rule quiet_update_ok[OF ok])
    fix d assume d: "map_of (ss_records s) (eid_index (si_entity (rc_scope r))) = Some d"
      and "delivery_ok seen log s (eid_index (si_entity (rc_scope r))) d"
    then show "delivery_ok seen log' s (eid_index (si_entity (rc_scope r))) (record_sent (sl_sent_proofs_per_scope (ss_limits s)) r d)
      \<and> dl_desired (record_sent (sl_sent_proofs_per_scope (ss_limits s)) r d) = dl_desired d
      \<and> (in_transition (dl_phase (record_sent (sl_sent_proofs_per_scope (ss_limits s)) r d)) \<longrightarrow> in_transition (dl_phase d))"
      using record_sent_ok[OF _ pos log, of d] v \<open>res = Inr ()\<close>
      by (auto simp: delivery_ok_def phase_ok_def mark_sent_def split: if_splits)
  qed (use log in blast)
qed

lemma transmit_cases:
  assumes "transmit_pending e send s = (res, t)"
  obtains (quiet) "t = s" "res \<noteq> Inr True"
  | (sent) st where "pending_state e s = Some st" "mark_sent (full_receipt st) s = (Inr (), t)" "res = Inr True"
proof (cases "pending_state e s")
  case None
  with assms show thesis
    by (auto simp: transmit_pending_def split: if_splits intro: quiet)
next
  case (Some st)
  obtain r u where m: "mark_sent (full_receipt st) s = (r, u)"
    by (cases "mark_sent (full_receipt st) s")
  have "r \<noteq> Inr () \<Longrightarrow> u = s"
    using m by (auto simp: mark_sent_def attempt_def ok_or_def split: option.splits if_splits)
  with assms Some m show thesis
    by (auto simp: transmit_pending_def split: if_splits sum.splits intro: quiet sent)
qed

lemma record_decoded_fields [simp]:
  "dl_identity (record_decoded r d) = dl_identity d" "dl_desired (record_decoded r d) = dl_desired d"
  "dl_decoded (record_decoded r d) = Some r" "dl_destroyed (record_decoded r d) = dl_destroyed d"
  by (simp_all add: record_decoded_def)

lemma record_decoded_ok:
  assumes ok: "sent_ok limits log d" and known: "dl_decoded d = Some r \<or> map_of (dl_sent d) (rc_snapshot r) = Some r"
  shows "sent_ok limits log (record_decoded r d)"
proof (cases "dl_decoded d = Some r")
  case False
  let ?m = "bt_retain (\<lambda>k _. rc_snapshot r \<le> k) (dl_sent d)"
  have bt: "bt_ok (dl_sent d)" and len: "length (dl_sent d) \<le> sl_sent_proofs_per_scope limits"
    and rec: "\<And>k q. map_of (dl_sent d) k = Some q \<Longrightarrow> rc_snapshot q = k \<and> q \<in> log"
    using ok unfolding sent_ok_def by blast+
  have "length ?m \<le> sl_sent_proofs_per_scope limits"
    using len length_bt_retain order_trans by blast
  moreover have "map_of (dl_sent d) k = Some q" if "map_of ?m k = Some q" for k q
    using that bt by (auto simp: map_of_bt_retain split: option.splits if_splits)
  moreover have "r \<in> log"
    using known False rec by blast
  moreover have "dl_sent (record_decoded r d) = ?m"
    using False by (simp add: record_decoded_def)
  ultimately show ?thesis
    using bt_ok_retain[OF bt] rec unfolding sent_ok_def record_decoded_fields by (metis option.inject)
qed (use ok in \<open>simp add: record_decoded_def\<close>)

lemma record_decoded_phase:
  assumes "phase_ok d" "\<not> gone (dl_phase d)"
  shows "phase_ok (record_decoded r d)"
    and "in_transition (dl_phase (record_decoded r d)) \<Longrightarrow> in_transition (dl_phase d)"
  using assms by (auto simp: phase_ok_def record_decoded_def in_transition_def gone_def split: if_splits)

lemma srv_acknowledge_ok:
  assumes ok: "srv_ok pl seen log s" and v: "scope_acknowledge r s = (res, t)"
  shows "srv_ok pl seen log t"
proof (cases res)
  case (Inl e)
  then show ?thesis
    using v ok by (auto simp: scope_acknowledge_def attempt_def split: sum.splits)
next
  case (Inr u)
  then have a: "validate_ack r s = Inr ()"
    and t: "t = s\<lparr>ss_records := bt_update (eid_index (si_entity (rc_scope r))) (record_decoded r) (ss_records s)\<rparr>"
    using v by (auto simp: scope_acknowledge_def attempt_def split: sum.splits)
  show ?thesis
    unfolding t
  proof (rule quiet_update_ok[OF ok order_refl])
    fix d assume d: "map_of (ss_records s) (eid_index (si_entity (rc_scope r))) = Some d"
      and dok: "delivery_ok seen log s (eid_index (si_entity (rc_scope r))) d"
    have live: "\<not> gone (dl_phase d)" and known: "dl_decoded d = Some r \<or> map_of (dl_sent d) (rc_snapshot r) = Some r"
      using a d by (auto simp: validate_ack_def split: if_splits)
    show "delivery_ok seen log s (eid_index (si_entity (rc_scope r))) (record_decoded r d)
      \<and> dl_desired (record_decoded r d) = dl_desired d
      \<and> (in_transition (dl_phase (record_decoded r d)) \<longrightarrow> in_transition (dl_phase d))"
      using dok record_decoded_ok[OF _ known] record_decoded_phase[OF _ live] by (simp add: delivery_ok_def)
  qed
qed

section \<open>Leaving\<close>

lemma leave_fields [simp]:
  "dl_identity (leave d) = dl_identity d" "dl_desired (leave d) = None" "dl_sent (leave d) = []"
  "dl_decoded (leave d) = None" "dl_phase (leave d) = Leaving" "dl_destroyed (leave d) = dl_destroyed d"
  by (simp_all add: leave_def)

lemma scope_exit_cases:
  assumes "scope_exit pl e s = (res, t)"
  obtains (same) "t = s" "\<And>d. map_of (ss_records s) (eid_index e) = Some d \<Longrightarrow> \<not> gone (dl_phase d) \<Longrightarrow> \<exists>x. res = Inl x"
  | (reset) "t = require_reset s" "res = Inl ResetRequired"
  | (left) d where "map_of (ss_records s) (eid_index e) = Some d" "\<not> gone (dl_phase d)"
      "dl_phase d \<noteq> Entering \<Longrightarrow> pending_transitions s < sl_pending_transitions (ss_limits s)"
      "t = s\<lparr>ss_records := bt_update (eid_index e) leave (ss_records s), ss_bytes := ss_bytes s - desired_bytes pl d\<rparr>"
      "res = Inr \<lparr>sx_scope = dl_identity d\<rparr>"
proof (cases "map_of (ss_records s) (eid_index e)")
  case None
  with assms show thesis
    by (intro same) (auto simp: scope_exit_def split: if_splits)
next
  case (Some d)
  let ?full = "\<not> (dl_phase d = Entering \<or> gone (dl_phase d)) \<and> pending_transitions s \<ge> sl_pending_transitions (ss_limits s)"
  consider "ss_reset_required s \<or> si_entity (dl_identity d) \<noteq> e \<or> dl_destroyed d"
    | "\<not> ss_reset_required s" "si_entity (dl_identity d) = e" "\<not> dl_destroyed d" ?full
    | "\<not> ss_reset_required s" "si_entity (dl_identity d) = e" "\<not> dl_destroyed d" "\<not> ?full" "gone (dl_phase d)"
    | "\<not> ss_reset_required s" "si_entity (dl_identity d) = e" "\<not> dl_destroyed d" "\<not> ?full" "\<not> gone (dl_phase d)"
    by blast
  then show thesis
  proof cases
    case 1
    then show thesis
      using assms Some by (intro same) (auto simp: scope_exit_def split: if_splits)
  next
    case 2
    then show thesis
      using assms Some by (intro reset) (auto simp: scope_exit_def)
  next
    case 3
    then show thesis
      using assms Some by (intro same) (auto simp: scope_exit_def)
  next
    case 4
    then show thesis
      using assms Some by (intro left[of d]) (auto simp: scope_exit_def)
  qed
qed

lemma exit_ok:
  assumes ok: "srv_ok pl seen log s" and v: "scope_exit pl e s = (res, t)"
  shows "srv_ok pl seen log t"
  using v
proof (cases rule: scope_exit_cases)
  case reset
  then show ?thesis
    using require_reset_ok[OF ok] by simp
next
  case (left d)
  let ?i = "eid_index e" and ?m = "bt_update (eid_index e) leave (ss_records s)"
  have bt: "bt_ok (ss_records s)" and counts: "srv_counts_ok pl s"
    and all: "all_deliveries (delivery_ok seen log s) (ss_records s)"
    using ok by (simp_all add: srv_ok_def srv_counts_ok_def)
  have "all_deliveries (delivery_ok seen log s) ?m"
    by (rule all_deliveries_update[OF all]) (auto simp: delivery_ok_def phase_ok_def sent_ok_def gone_def)
  then have "all_deliveries (delivery_ok seen log t) (ss_records t)"
    using left(4) by (simp add: all_deliveries_def delivery_ok_def)
  moreover have "bt_sum (\<lambda>_. desired_bytes pl) ?m = ss_bytes s - desired_bytes pl d"
    using bt_sum_update[OF bt left(1), of "\<lambda>_. desired_bytes pl" leave] counts bt_sum_member[OF left(1), of "\<lambda>_. desired_bytes pl"]
    by (simp add: srv_counts_ok_def desired_bytes_def)
  moreover have "bt_sum transit ?m \<le> sl_pending_transitions (ss_limits s)"
    using bt_sum_update[OF bt left(1), of transit leave] bt_sum_member[OF left(1), of transit] counts left(2,3)
      pending_transitions_sum[of s]
    by (cases "dl_phase d = Entering") (auto simp: srv_counts_ok_def transit_def in_transition_def)
  ultimately show ?thesis
    using left(4) counts bt by (auto simp: srv_ok_def srv_counts_ok_def)
qed (use ok in simp)

lemma destroy_cases:
  assumes "scope_destroy pl e s = (res, t)"
  obtains (same) "t = s"
  | (failed) x where "scope_exit pl e s = (Inl x, t)"
  | (killed) u x where "scope_exit pl e s = (Inr x, u)"
      "\<And>d. map_of (ss_records s) (eid_index e) = Some d \<Longrightarrow> \<not> gone (dl_phase d)"
      "t = u\<lparr>ss_records := bt_update (eid_index e) (\<lambda>d. d\<lparr>dl_destroyed := True\<rparr>) (ss_records u)\<rparr>"
proof (cases "map_of (ss_records s) (eid_index e)")
  case None
  with assms show thesis
    by (intro same) (auto simp: scope_destroy_def split: if_splits)
next
  case (Some d)
  show thesis
  proof (cases "ss_reset_required s \<or> si_entity (dl_identity d) \<noteq> e \<or> dl_destroyed d \<or> gone (dl_phase d)")
    case True
    with assms Some show thesis
      by (intro same) (auto simp: scope_destroy_def split: if_splits)
  next
    case False
    obtain r u where x: "scope_exit pl e s = (r, u)"
      by (cases "scope_exit pl e s")
    show thesis
    proof (cases r)
      case (Inl y)
      with assms Some False x show thesis
        by (intro failed[of y]) (auto simp: scope_destroy_def)
    next
      case (Inr y)
      with assms Some False x show thesis
        by (intro killed[of y u]) (auto simp: scope_destroy_def)
    qed
  qed
qed

lemma destroy_ok:
  assumes ok: "srv_ok pl seen log s" and v: "scope_destroy pl e s = (res, t)"
  shows "srv_ok pl seen log t"
  using v
proof (cases rule: destroy_cases)
  case (failed x)
  then show ?thesis
    using exit_ok[OF ok] by blast
next
  case (killed u x)
  have u: "srv_ok pl seen log u"
    using exit_ok[OF ok killed(1)] .
  have "dl_phase d = Leaving" if "map_of (ss_records u) (eid_index e) = Some d" for d
    using killed(1)
  proof (cases rule: scope_exit_cases)
    case same
    then show ?thesis
      using that killed(2) by auto
  next
    case (left d)
    then show ?thesis
      using that by auto
  qed simp
  then show ?thesis
    unfolding killed(3)
    by (intro quiet_update_ok[OF u]) (auto simp: delivery_ok_def phase_ok_def sent_ok_def gone_def)
qed (use ok in simp)

lemma scope_receipt_ok:
  assumes ok: "srv_ok pl seen log s"
  shows "srv_ok pl seen log (snd (mark_exit_sent x s))" "srv_ok pl seen log (snd (mark_destroy_sent y s))"
    "srv_ok pl seen log (snd (acknowledge_exit x s))"
proof -
  have flag: "srv_ok pl seen log (s\<lparr>ss_records := bt_update i (\<lambda>d. d\<lparr>dl_exit_sent := True\<rparr>) (ss_records s)\<rparr>)" for i
    by (rule quiet_update_ok[OF ok]) (auto simp: delivery_ok_def phase_ok_def sent_ok_def)
  then show "srv_ok pl seen log (snd (mark_exit_sent x s))" "srv_ok pl seen log (snd (mark_destroy_sent y s))"
    using ok by (auto simp: mark_exit_sent_def mark_destroy_sent_def attempt_def ok_or_def split: option.splits)
  have "srv_ok pl seen log (s\<lparr>ss_records := bt_update i (\<lambda>d. d\<lparr>dl_phase := Forgotten\<rparr>) (ss_records s)\<rparr>)"
    if "map_of (ss_records s) i = Some d" "gone (dl_phase d)" for i d
    by (rule quiet_update_ok[OF ok]) (use that in \<open>auto simp: delivery_ok_def phase_ok_def sent_ok_def gone_def in_transition_def\<close>)
  then show "srv_ok pl seen log (snd (acknowledge_exit x s))"
    using ok by (auto simp: acknowledge_exit_def attempt_def ok_or_def split: option.splits)
qed

lemma acknowledge_destroy_ok:
  assumes ok: "srv_ok pl seen log s"
  shows "srv_ok pl seen log (snd (acknowledge_destroy y s))"
proof -
  have "srv_ok pl seen log (s\<lparr>ss_records := bt_update i (\<lambda>d. d\<lparr>dl_phase := Forgotten\<rparr>) (ss_records s)\<rparr>)"
    if "map_of (ss_records s) i = Some d" "dl_destroyed d" for i d
    by (rule quiet_update_ok[OF ok]) (use that in \<open>auto simp: delivery_ok_def phase_ok_def sent_ok_def gone_def in_transition_def\<close>)
  then show ?thesis
    using ok by (auto simp: acknowledge_destroy_def attempt_def ok_or_def split: option.splits)
qed

section \<open>Every call\<close>

lemma srv_step_ok:
  assumes "srv_ok pl seen (set log) s" "srv_step pl a (s, log) = (t, log')" "insert a seen \<subseteq> seen'"
  shows "srv_ok pl seen' (set log') t \<and> set log \<subseteq> set log'"
proof -
  have ok: "srv_ok pl seen' (set log) s"
    using srv_ok_mono[OF assms(1)] assms(3) by blast
  show ?thesis
  proof (cases a)
    case (Barrier w p)
    then show ?thesis
      using assms(2) advance_barrier_ok[OF ok] by (cases "advance_barrier w p s") auto
  next
    case (Offer el e dormant project)
    then show ?thesis
      using assms(2,3) offer_ok[OF ok] by (cases "offer pl el e dormant project s") auto
  next
    case (Transmit e send)
    obtain res u where v: "transmit_pending e send s = (res, u)"
      by (cases "transmit_pending e send s")
    from v show ?thesis
    proof (cases rule: transmit_cases)
      case quiet
      then show ?thesis
        using assms(2) v Transmit ok by (auto split: option.splits sum.splits bool.splits)
    next
      case (sent st)
      then show ?thesis
        using assms(2) v Transmit mark_sent_ok(1)[OF ok sent(2) order_refl] by auto
    qed
  next
    case (MarkSent r)
    obtain res u where v: "mark_sent r s = (res, u)"
      by (cases "mark_sent r s")
    then show ?thesis
      using assms(2) MarkSent ok mark_sent_ok[OF ok v, of "insert r (set log)"] by (cases res) auto
  next
    case (AckState r)
    then show ?thesis
      using assms(2) srv_acknowledge_ok[OF ok] by (cases "scope_acknowledge r s") auto
  next
    case (ExitScope e)
    then show ?thesis
      using assms(2) exit_ok[OF ok] by (cases "scope_exit pl e s") auto
  next
    case (Kill e)
    then show ?thesis
      using assms(2) destroy_ok[OF ok] by (cases "scope_destroy pl e s") auto
  next
    case (ResetScopes c)
    then show ?thesis
      using assms(2) ok by (auto simp: server_scopes_reset_def srv_ok_def srv_counts_ok_def all_deliveries_def)
  qed (use assms(2) scope_receipt_ok[OF ok] acknowledge_destroy_ok[OF ok] in auto)
qed

lemma srv_run_ok:
  assumes "srv_ok pl seen (set log) s" "fold (srv_step pl) ops (s, log) = (t, log')"
  shows "srv_ok pl (seen \<union> set ops) (set log') t"
  using assms
proof (induction ops arbitrary: seen s log)
  case (Cons a ops)
  obtain u lu where u: "srv_step pl a (s, log) = (u, lu)"
    by (cases "srv_step pl a (s, log)")
  have "srv_ok pl (insert a seen) (set lu) u"
    using srv_step_ok[OF Cons.prems(1) u order_refl] by blast
  then show ?case
    using Cons.IH[of "insert a seen" lu u] Cons.prems(2) u by simp
qed simp

lemma srv_new_ok:
  assumes "server_scopes_new c e w p l = Inr s"
  shows "srv_ok pl {} {} s"
  using assms
  by (auto simp: server_scopes_new_def srv_ok_def srv_counts_ok_def all_deliveries_def scope_limits_validate_def and_then_Inr_iff
      split: if_splits)

lemma srv_reachable_ok:
  assumes "server_scopes_new c e w p l = Inr s0" "fold (srv_step pl) ops (s0, []) = (s, log)"
  shows "srv_ok pl (set ops) (set log) s"
  using srv_run_ok[of pl "{}" "[]" s0 ops s log] srv_new_ok[OF assms(1)] assms(2) by simp

section \<open>The connection and its limits are fixed\<close>

definition same_peer :: "'p ServerScopes \<Rightarrow> 'p ServerScopes \<Rightarrow> bool" where
  "same_peer s t \<longleftrightarrow> ss_connection t = ss_connection s \<and> ss_limits t = ss_limits s"

lemma same_peer_update [simp]:
  "same_peer s s" "same_peer s (ss_records_update f t) \<longleftrightarrow> same_peer s t" "same_peer s (ss_bytes_update g t) \<longleftrightarrow> same_peer s t"
  "same_peer s (require_reset t) \<longleftrightarrow> same_peer s t"
  by (simp_all add: same_peer_def require_reset_def)

lemma publish_peer: "publish pl e r v k dm p n s = (res, t) \<Longrightarrow> same_peer s t"
  by (erule publish_cases) (auto simp: same_peer_def)

lemma offer_peer: "same_peer s (snd (offer pl el e dm pr s))"
proof -
  have "same_peer s t" if "offer_projected pl e r v k dm p s = (res, t)" for r v k p res t
    using that by (rule offer_projected_cases) (auto dest: publish_peer)
  then have "same_peer s (snd (offer_projected pl e r v k dm p s))" for r v k p
    by (metis prod.collapse)
  then show ?thesis
    by (auto simp: offer_def attempt_def ok_or_def Let_def split: option.splits)
qed

lemma mark_sent_peer: "mark_sent r s = (res, t) \<Longrightarrow> same_peer s t"
  by (auto simp: mark_sent_def attempt_def ok_or_def split: option.splits if_splits)

lemma exit_peer: "scope_exit pl e s = (res, t) \<Longrightarrow> same_peer s t"
  by (erule scope_exit_cases) auto

lemma destroy_peer: "scope_destroy pl e s = (res, t) \<Longrightarrow> same_peer s t"
  by (erule destroy_cases) (auto dest: exit_peer)

lemma transmit_peer: "transmit_pending e send s = (res, t) \<Longrightarrow> same_peer s t"
  by (erule transmit_cases) (auto dest: mark_sent_peer)

lemma advance_barrier_peer: "advance_barrier w p s = (res, t) \<Longrightarrow> same_peer s t"
  by (erule advance_barrier_cases) (auto simp: same_peer_def require_reset_def)

lemma receipt_peer:
  "same_peer s (snd (mark_exit_sent x s))" "same_peer s (snd (mark_destroy_sent y s))"
  "same_peer s (snd (acknowledge_exit x s))" "same_peer s (snd (acknowledge_destroy y s))"
  "same_peer s (snd (scope_acknowledge r s))" "same_peer s (snd (server_scopes_reset c s))"
  by (auto simp: mark_exit_sent_def mark_destroy_sent_def acknowledge_exit_def acknowledge_destroy_def scope_acknowledge_def
      server_scopes_reset_def attempt_def ok_or_def same_peer_def split: option.splits sum.splits)

lemma srv_step_peer: "same_peer s (fst (srv_step pl a (s, log)))"
proof (cases a)
  case (Barrier w p)
  then show ?thesis
    using advance_barrier_peer by (cases "advance_barrier w p s") auto
next
  case (Transmit e send)
  then show ?thesis
    using transmit_peer by (cases "transmit_pending e send s") (auto split: option.splits sum.splits bool.splits)
next
  case (MarkSent r)
  then show ?thesis
    using mark_sent_peer by (cases "mark_sent r s") (auto split: sum.splits)
next
  case (ExitScope e)
  then show ?thesis
    using exit_peer by (cases "scope_exit pl e s") auto
next
  case (Kill e)
  then show ?thesis
    using destroy_peer by (cases "scope_destroy pl e s") auto
qed (simp_all add: offer_peer receipt_peer)

lemma srv_run_peer: "fold (srv_step pl) ops (s, log) = (t, log') \<Longrightarrow> same_peer s t"
proof (induction ops arbitrary: s log)
  case (Cons a ops)
  then show ?case
    using srv_step_peer[of s pl a log] by (cases "srv_step pl a (s, log)") (auto simp: same_peer_def)
qed simp

lemma srv_reachable_peer:
  assumes "server_scopes_new c e w p l = Inr s0" "fold (srv_step pl) ops (s0, []) = (s, log)"
  shows "ss_connection s = c \<and> ss_limits s = l"
  using srv_run_peer[OF assms(2)] assms(1)
  by (auto simp: same_peer_def server_scopes_new_def and_then_Inr_iff scope_limits_validate_def split: if_splits)

lemma sendable_authorised:
  assumes "server_scopes_new c e w p l = Inr s0" "fold (srv_step pl) ops (s0, []) = (s, log)"
    and "desired_state entity s = Some st \<or> pending_state entity s = Some st"
  shows "authorised (set ops) c (ss_policy s) st" "si_entity (fs_scope st) = entity" "si_connection (fs_scope st) = ss_epoch s"
proof -
  have ok: "srv_ok pl (set ops) (set log) s"
    using srv_reachable_ok[OF assms(1,2)] .
  obtain d where d: "map_of (ss_records s) (eid_index entity) = Some d" "si_entity (dl_identity d) = entity" "dl_desired d = Some st"
    using assms(3) by (auto simp: desired_state_def pending_state_def bind_eq_Some_conv split: if_splits)
  have dok: "delivery_ok (set ops) (set log) s (eid_index entity) d"
    using srv_delivery[OF ok d(1)] .
  then have scope: "fs_scope st = dl_identity d" "si_connection (dl_identity d) = ss_epoch s"
    using d(3) by (simp_all add: delivery_ok_def phase_ok_def)
  then show "si_entity (fs_scope st) = entity" "si_connection (fs_scope st) = ss_epoch s"
    using d(2) by simp_all
  show "authorised (set ops) c (ss_policy s) st"
    using dok d(3) srv_reachable_peer[OF assms(1,2)] by (simp add: delivery_ok_def)
qed

end
