(* ===== verification/Net_Server_Scope_Props.thy ===== *)
theory Net_Server_Scope_Props
  imports Net_Server_Scope_Facts
begin

text \<open>
  Properties of \<open>ServerScopes\<close> (\<open>engine/net/src/replication/server.rs\<close>) for every sequence of calls, with
  the log of receipts that were handed to the transport.
\<close>

section \<open>Concrete calls\<close>

definition ex_scope_limits :: ScopeLimits where
  "ex_scope_limits = \<lparr>sl_known_entities = 2, sl_pending_transitions = 2, sl_retained_payload_bytes = 8,
    sl_payload_bytes = 4, sl_sent_proofs_per_scope = 1\<rparr>"

definition ex_srv_payload :: "u8 Payload" where
  "ex_srv_payload = \<lparr>pl_eq = (=), pl_retained_bytes = (\<lambda>_. 1)\<rparr>"

definition ex_srv_entity :: EntityId where
  "ex_srv_entity = EntityId 3 1"

definition ex_grant :: RepresentationGrant where
  "ex_grant = \<lparr>rg_schema_id = 1, rg_revision = 1, rg_fields = 5, rg_prediction_allowed = False\<rparr>"

definition ex_eligible :: EligibleSet where
  "ex_eligible = \<lparr>es_connection = 9, es_world_revision = 1, es_policy_revision = 1, es_frame = 1, es_tick = 1,
    es_entries = [(ex_srv_entity, \<lparr>ee_entity = ex_srv_entity, ee_representation = ex_grant, ee_reasons = GLOBAL,
      ee_state_version = 1, ee_scene_revision = 1\<rparr>)],
    es_prediction = NotRequested, es_candidate_visits = 1, es_candidates = 1\<rparr>"

definition ex_srv_state :: "u8 FullState" where
  "ex_srv_state = \<lparr>fs_scope = ScopeIdentity 1 ex_srv_entity 1 1, fs_baseline_generation = 1, fs_snapshot = 1,
    fs_version = 1, fs_end_tick = 1, fs_payload = 7\<rparr>"

definition ex_srv_ops :: "u8 SrvOp list" where
  "ex_srv_ops = [Offer ex_eligible ex_srv_entity False (\<lambda>_. 7), Transmit ex_srv_entity (\<lambda>_. True)]"

definition ex_srv_start :: "u8 ServerScopes" where
  "ex_srv_start = \<lparr>ss_connection = 9, ss_epoch = 1, ss_world_revision = 1, ss_policy = 1, ss_limits = ex_scope_limits,
    ss_records = [], ss_next_snapshot = 1, ss_bytes = 0, ss_reset_required = False\<rparr>"

definition ex_srv_end :: "u8 ServerScopes" where
  "ex_srv_end = ex_srv_start\<lparr>ss_records := [(3, \<lparr>dl_identity = ScopeIdentity 1 ex_srv_entity 1 1, dl_desired = Some ex_srv_state,
      dl_sent = [(1, full_receipt ex_srv_state)], dl_decoded = None, dl_dormant = False, dl_phase = Entering,
      dl_exit_sent = False, dl_destroyed = False\<rparr>)], ss_next_snapshot := 2, ss_bytes := 1\<rparr>"


lemmas ex_srv_defs = ex_scope_limits_def ex_srv_payload_def ex_srv_entity_def ex_grant_def ex_eligible_def
  ex_srv_state_def ex_srv_ops_def ex_srv_start_def ex_srv_end_def

lemma ex_srv_new: "server_scopes_new 9 1 1 1 ex_scope_limits = Inr ex_srv_start"
  by (simp add: server_scopes_new_def scope_limits_validate_def ex_srv_defs)

lemma ex_srv_run: "fold (srv_step ex_srv_payload) ex_srv_ops (ex_srv_start, []) = (ex_srv_end, [full_receipt ex_srv_state])"
  by (simp add: ex_srv_defs offer_def is_current_def eligible_get_def offer_projected_def bt_contains_def needs_new_scope_def
      pending_transitions_def publish_def usize_checked_sub_def usize_checked_add_def usize_max_def checked_next_def checked_add_def
      transmit_pending_def pending_state_def gone_def mark_sent_def full_receipt_def record_sent_def bt_update_def bt_map_def Let_def)

section \<open>Bounds\<close>

text \<open>
  C23: whatever the calls, a server connection never exceeds its limits: the payload byte counter is exactly
  the sum of the retained payloads and within the configured total, the known entities, the scopes in
  transition and the remembered sent receipts of every scope stay within their limits, and the connection
  and limits never change.
\<close>

theorem server_scopes_within_limits:
  assumes "server_scopes_new c e w p l = Inr s0" "fold (srv_step pl) ops (s0, []) = (s, log)"
  shows "ss_connection s = c \<and> ss_limits s = l
    \<and> ss_bytes s = (\<Sum>(i, d) \<leftarrow> ss_records s. desired_bytes pl d) \<and> ss_bytes s \<le> sl_retained_payload_bytes l
    \<and> length (ss_records s) \<le> sl_known_entities l \<and> pending_transitions s \<le> sl_pending_transitions l
    \<and> list_all (\<lambda>(i, d). length (dl_sent d) \<le> sl_sent_proofs_per_scope l) (ss_records s)"
proof -
  have peer: "ss_connection s = c" "ss_limits s = l"
    using srv_reachable_peer[OF assms] by simp_all
  have ok: "srv_ok pl (set ops) (set log) s"
    using srv_reachable_ok[OF assms] .
  have sum: "bt_sum (\<lambda>_. desired_bytes pl) m = (\<Sum>(i, d) \<leftarrow> m. desired_bytes pl d)" for m :: "(u64, 'a Delivery) bt"
    by (induction m) auto
  have "length (dl_sent d) \<le> sl_sent_proofs_per_scope l" if "(i, d) \<in> set (ss_records s)" for i d
    using srv_delivery[OF ok bt_keys_unique[OF _ that]] ok peer
    by (simp add: srv_ok_def srv_counts_ok_def delivery_ok_def sent_ok_def)
  then show ?thesis
    using ok peer by (auto simp: srv_ok_def srv_counts_ok_def sum pending_transitions_sum list_all_iff)
qed

theorem server_scopes_within_limits_witness:
  "server_scopes_new 9 1 1 1 ex_scope_limits = Inr ex_srv_start
    \<and> fold (srv_step ex_srv_payload) ex_srv_ops (ex_srv_start, []) = (ex_srv_end, [full_receipt ex_srv_state])
    \<and> ss_bytes ex_srv_end = 1 \<and> ss_bytes ex_srv_end \<le> sl_retained_payload_bytes ex_scope_limits"
  using server_scopes_within_limits[OF ex_srv_new ex_srv_run] ex_srv_new ex_srv_run by (simp add: ex_srv_end_def)

section \<open>Authorisation\<close>

text \<open>
  a state that can be read or sent for an entity is authorised: some \<open>offer\<close> call carried an eligible
  set of this very connection, at the policy revision that is still in force, granting that entity, and
  the payload is the caller's projection of exactly that grant, with the grant's representation revision
  and state version.
\<close>

theorem sendable_state_authorised:
  assumes "server_scopes_new c e w p l = Inr s0" "fold (srv_step pl) ops (s0, []) = (s, log)"
    and "desired_state entity s = Some st \<or> pending_state entity s = Some st"
  shows "\<exists>el dormant project entry. Offer el entity dormant project \<in> set ops
    \<and> es_connection el = c \<and> es_policy_revision el = ss_policy s \<and> eligible_get entity el = Some entry
    \<and> fs_payload st = project (ee_representation entry) \<and> fs_version st = ee_state_version entry
    \<and> si_representation (fs_scope st) = rg_revision (ee_representation entry)
    \<and> si_entity (fs_scope st) = entity \<and> si_connection (fs_scope st) = ss_epoch s"
  using sendable_authorised[OF assms] unfolding authorised_def by metis

lemma ex_srv_desired: "desired_state ex_srv_entity ex_srv_end = Some ex_srv_state"
  by (simp add: desired_state_def ex_srv_defs gone_def)

theorem sendable_state_authorised_witness:
  "desired_state ex_srv_entity ex_srv_end = Some ex_srv_state
    \<and> (\<exists>el dormant project entry. Offer el ex_srv_entity dormant project \<in> set ex_srv_ops
      \<and> es_connection el = 9 \<and> eligible_get ex_srv_entity el = Some entry
      \<and> fs_payload ex_srv_state = project (ee_representation entry))"
  using sendable_state_authorised[OF ex_srv_new ex_srv_run, of ex_srv_entity ex_srv_state] ex_srv_desired by blast

text \<open>
  C10: a policy change withdraws everything at once: after a successful barrier with a new policy revision no
  state of any entity can be read, sent or counted as decoded, and every scope that had one is queued as an exit.
\<close>

theorem policy_change_revokes_all:
  assumes "server_scopes_new c e w p l = Inr s0" "fold (srv_step pl) ops (s0, []) = (s, log)"
    and "advance_barrier w' p' s = (Inr (), t)" "p' \<noteq> ss_policy s"
  shows "desired_state entity t = None \<and> pending_state entity t = None \<and> decoded_current entity t = None
    \<and> (\<forall>st. desired_state entity s = Some st \<longrightarrow> \<lparr>sx_scope = fs_scope st\<rparr> \<in> set (pending_exits t))"
proof -
  have ok: "srv_ok pl (set ops) (set log) s"
    using srv_reachable_ok[OF assms(1,2)] .
  have t: "t = s\<lparr>ss_records := bt_map (\<lambda>_. revoke) (ss_records s), ss_bytes := 0, ss_world_revision := w', ss_policy := p'\<rparr>"
    using assms(3,4) by (auto simp: advance_barrier_def Let_def split: if_splits)
  have gone: "gone (dl_phase (revoke d))" for d :: "'a Delivery"
    by (simp add: revoke_def gone_def)
  have empty: "dl_desired (revoke d) = None" if "map_of (ss_records s) i = Some d" for i d
    using srv_delivery[OF ok that] by (auto simp: revoke_def delivery_ok_def phase_ok_def gone_def)
  have "\<lparr>sx_scope = fs_scope st\<rparr> \<in> set (pending_exits t)" if st: "desired_state entity s = Some st" for st
  proof -
    obtain d where d: "map_of (ss_records s) (eid_index entity) = Some d" "\<not> gone (dl_phase d)" "dl_desired d = Some st"
      using st by (auto simp: desired_state_def bind_eq_Some_conv split: if_splits)
    then have "fs_scope st = dl_identity d" "\<not> dl_destroyed d"
      using srv_delivery[OF ok d(1)] by (auto simp: delivery_ok_def phase_ok_def)
    moreover have "(eid_index entity, revoke d) \<in> set (ss_records t)"
      using map_of_SomeD[OF d(1)] t by (force simp: bt_map_def)
    ultimately show ?thesis
      using d(2) unfolding pending_exits_def exit_list_def
      by (force simp: revoke_def gone_def)
  qed
  moreover have "desired_state entity t = None \<and> pending_state entity t = None \<and> decoded_current entity t = None"
    using gone empty[of "eid_index entity"]
    by (cases "map_of (ss_records s) (eid_index entity)") (simp_all add: t desired_state_def pending_state_def decoded_current_def)
  ultimately show ?thesis
    by blast
qed

lemma ex_srv_barrier: "\<exists>t. advance_barrier 1 2 ex_srv_end = (Inr (), t)"
  by (simp add: advance_barrier_def ex_srv_defs Let_def)

theorem policy_change_revokes_all_witness:
  "\<exists>t. advance_barrier 1 2 ex_srv_end = (Inr (), t) \<and> (2::PolicyRevision) \<noteq> ss_policy ex_srv_end
    \<and> desired_state ex_srv_entity t = None \<and> \<lparr>sx_scope = fs_scope ex_srv_state\<rparr> \<in> set (pending_exits t)"
proof -
  obtain t where t: "advance_barrier 1 2 ex_srv_end = (Inr (), t)"
    using ex_srv_barrier by blast
  have "(2::PolicyRevision) \<noteq> ss_policy ex_srv_end"
    by (simp add: ex_srv_defs)
  then show ?thesis
    using policy_change_revokes_all[OF ex_srv_new ex_srv_run t, of ex_srv_entity] ex_srv_desired t by blast
qed

section \<open>Acknowledgements\<close>





end
