(* ===== verification/Net_Interest.thy ===== *)
theory Net_Interest
  imports Net_Grants
begin

text \<open>
  Vocabulary of interest management: \<open>engine/net/src/interest/model.rs\<close>.

  Coordinates are \<open>f64\<close>.  The development fixes no rounding: the operations of the floating-point type
  are the fields of a record \<open>F64\<close>, every definition takes that record, and the theorems hold for any
  interpretation of it.  Where a result depends on the arithmetic, the laws are the named hypothesis
  \<open>f64_zero_blind\<close>: numbers that compare equal without being identical (the two zeros) are not told
  apart by the operations that are used.  Comparisons are separate operations, because a NaN is neither
  below, equal to nor above anything.  The policy and authoriser traits are records of functions;
  \<open>dp_revision\<close> is the answer to the successive calls of \<open>revision\<close>.
\<close>

section \<open>Floating point\<close>

record 'f F64 =
  f_lit :: "int \<Rightarrow> 'f"
  f_add :: "'f \<Rightarrow> 'f \<Rightarrow> 'f"
  f_sub :: "'f \<Rightarrow> 'f \<Rightarrow> 'f"
  f_mul :: "'f \<Rightarrow> 'f \<Rightarrow> 'f"
  f_div :: "'f \<Rightarrow> 'f \<Rightarrow> 'f"
  f_hypot :: "'f \<Rightarrow> 'f \<Rightarrow> 'f"
  f_abs :: "'f \<Rightarrow> 'f"
  f_finite :: "'f \<Rightarrow> bool"
  f_eq :: "'f \<Rightarrow> 'f \<Rightarrow> bool"
  f_lt :: "'f \<Rightarrow> 'f \<Rightarrow> bool"
  f_le :: "'f \<Rightarrow> 'f \<Rightarrow> bool"
  f_floor_i64 :: "'f \<Rightarrow> int"

definition f_same :: "'f F64 \<Rightarrow> 'f \<Rightarrow> 'f \<Rightarrow> bool" where
  "f_same F a b \<longleftrightarrow> a = b \<or> f_eq F a b"

definition f64_zero_blind :: "'f F64 \<Rightarrow> bool" where
  "f64_zero_blind F \<longleftrightarrow>
    (\<forall>a a' b b'. f_same F a a' \<longrightarrow> f_same F b b' \<longrightarrow>
      f_same F (f_add F a b) (f_add F a' b') \<and> f_same F (f_sub F a b) (f_sub F a' b')
      \<and> (f_lt F a b \<longleftrightarrow> f_lt F a' b') \<and> (f_le F a b \<longleftrightarrow> f_le F a' b'))
    \<and> (\<forall>a a' b. f_same F a a' \<longrightarrow> f_same F (f_div F a b) (f_div F a' b) \<and> f_same F (f_abs F a) (f_abs F a')
      \<and> (f_finite F a \<longleftrightarrow> f_finite F a') \<and> f_floor_i64 F a = f_floor_i64 F a')"

type_synonym 'f point = "'f \<times> 'f \<times> 'f"

section \<open>Registrations\<close>

type_synonym SemanticId = u64

record 'f Bounds =
  bd_center :: "'f point"
  bd_radius :: 'f

datatype SpatialRoute = Static | Dynamic | DormancyDriven

record Routes =
  ro_spatial :: "SpatialRoute option"
  ro_global :: bool
  ro_owner :: "ConnectionId option"
  ro_semantic :: "SemanticId list"

datatype Visibility = Public | Owner ConnectionId | Semantic SemanticId | Never

record 'f EntityRegistration =
  er_id :: EntityId
  er_bounds :: "'f Bounds"
  er_cull_radius :: 'f
  er_routes :: Routes
  er_visibility :: Visibility
  er_dependencies :: "EntityId list"
  er_state_version :: StateVersion
  er_scene_revision :: SceneRevision
  er_dormant :: bool

record 'f ObserverGrant =
  og_position :: "'f point"
  og_scene_revision :: SceneRevision

record 'f ConnectionView =
  cv_observers :: "'f ObserverGrant list"
  cv_semantic_grants :: "SemanticId list"
  cv_ready_scenes :: "SceneRevision list"

type_synonym 'f ConnectionAuthorizer = "ConnectionId \<Rightarrow> 'f ConnectionView \<Rightarrow> bool"

record 'f DisclosurePolicy =
  dp_revision :: "nat \<Rightarrow> PolicyRevision"
  dp_representation :: "ConnectionId \<Rightarrow> 'f EntityRegistration \<Rightarrow> RepresentationGrant option"
  dp_permits_dependency :: "ConnectionId \<Rightarrow> EntityId \<Rightarrow> EntityId \<Rightarrow> bool"

section \<open>Limits\<close>

record 'f Limits =
  li_cell_size :: 'f
  li_leave_margin :: 'f
  li_prefetch :: 'f
  li_max_coordinate :: 'f
  li_max_entities :: usize
  li_max_cells_per_entity :: usize
  li_max_cells :: usize
  li_max_memberships :: usize
  li_max_route_memberships :: usize
  li_max_semantic_routes_per_entity :: usize
  li_max_connections :: usize
  li_max_observers :: usize
  li_max_semantic_grants :: usize
  li_max_ready_scenes :: usize
  li_max_candidates :: usize
  li_max_candidate_visits :: usize
  li_max_required :: usize
  li_max_dependency_edges :: usize

definition default_limits :: "'f F64 \<Rightarrow> 'f Limits" where
  "default_limits F = \<lparr>li_cell_size = f_lit F 32, li_leave_margin = f_lit F 10, li_prefetch = f_lit F 8,
    li_max_coordinate = f_lit F 1000000000, li_max_entities = 100000, li_max_cells_per_entity = 256,
    li_max_cells = 65536, li_max_memberships = 2000000, li_max_route_memberships = 400000,
    li_max_semantic_routes_per_entity = 8, li_max_connections = 1024, li_max_observers = 2,
    li_max_semantic_grants = 16, li_max_ready_scenes = 64, li_max_candidates = 4096,
    li_max_candidate_visits = 32768, li_max_required = 128, li_max_dependency_edges = 16384\<rparr>"

end
