(* ===== verification/Net_Graph.thy ===== *)
theory Net_Graph
  imports Net_Interest
begin

text \<open>
  The persistent replication graph: \<open>engine/net/src/interest/graph.rs\<close>.

  Cells are pairs of integers.  The configuration check of \<open>new\<close> keeps cell coordinates far inside
  \<open>i64\<close>, so the differences in \<open>footprint_span\<close> do not overflow; a negative extent is cast to a huge
  \<open>u128\<close>.  Subtractions of counters are on naturals and exact by the invariant of \<open>Net_Graph_Facts\<close>.
\<close>

section \<open>Data\<close>

type_synonym Cell = "int \<times> int"

datatype GraphError =
    InvalidConfiguration | InvalidBounds | InvalidIdentity | GenerationConflict | RegressedStateVersion
  | NonMonotonicTick | NonMonotonicFrame | NonMonotonicPolicy | RevisionExhausted | UnauthorizedView
  | InvalidObserver | Limit string

datatype 'f Change = Upsert "'f EntityRegistration" | Remove EntityId

type_synonym 'k reverse_index = "('k, EntityId list) bt"

record 'f Graph =
  gr_limits :: "'f Limits"
  gr_entities :: "(EntityId, 'f EntityRegistration) bt"
  gr_indices :: "(u64, EntityId) bt"
  gr_dynamic :: "EntityId list"
  gr_cells :: "Cell reverse_index"
  gr_footprints :: "(EntityId, Cell list) bt"
  gr_globals :: "EntityId list"
  gr_owners :: "ConnectionId reverse_index"
  gr_semantics :: "SemanticId reverse_index"
  gr_connections :: "(ConnectionId, 'f ConnectionView) bt"
  gr_memberships :: usize
  gr_route_memberships :: usize
  gr_observers :: usize
  gr_world_revision :: u64
  gr_last_tick :: "ServerTick option"
  gr_last_frame :: "ReplicationFrame option"
  gr_last_policy :: "PolicyRevision option"
  gr_prepare_calls :: u64

record Accounting =
  ac_entities :: usize
  ac_dynamic_entities :: usize
  ac_cells :: usize
  ac_memberships :: usize
  ac_route_memberships :: usize
  ac_connections :: usize
  ac_observers :: usize
  ac_prepare_calls :: u64
  ac_world_revision :: u64

section \<open>Construction\<close>

definition limits_refused :: "'f F64 \<Rightarrow> 'f Limits \<Rightarrow> bool" where
  "limits_refused F l \<longleftrightarrow>
    \<not> f_finite F (li_cell_size l) \<or> f_le F (li_cell_size l) (f_lit F 0)
    \<or> \<not> f_finite F (li_max_coordinate l) \<or> f_le F (li_max_coordinate l) (f_lit F 0)
    \<or> list_ex (\<lambda>v. \<not> f_finite F v \<or> f_lt F v (f_lit F 0)) [li_leave_margin l, li_prefetch l]
    \<or> f_lt F (li_max_coordinate l) (f_add F (li_leave_margin l) (li_prefetch l))
    \<or> f_le F (f_lit F ((2 ^ 63 - 1) div 4)) (f_div F (f_mul F (f_lit F 2) (li_max_coordinate l)) (li_cell_size l))
    \<or> list_ex (\<lambda>n. n = 0) [li_max_entities l, li_max_cells_per_entity l, li_max_cells l, li_max_memberships l,
        li_max_route_memberships l, li_max_semantic_routes_per_entity l, li_max_connections l,
        li_max_observers l, li_max_semantic_grants l, li_max_ready_scenes l, li_max_candidates l,
        li_max_candidate_visits l, li_max_required l, li_max_dependency_edges l]
    \<or> li_max_cells_per_entity l > li_max_memberships l
    \<or> li_max_required l > li_max_candidates l
    \<or> li_max_candidates l > li_max_candidate_visits l"

definition graph_new :: "'f F64 \<Rightarrow> 'f Limits \<Rightarrow> GraphError + 'f Graph" where
  "graph_new F limits =
    (if limits_refused F limits then Inl InvalidConfiguration
     else Inr \<lparr>gr_limits = limits, gr_entities = [], gr_indices = [], gr_dynamic = [], gr_cells = [],
       gr_footprints = [], gr_globals = [], gr_owners = [], gr_semantics = [], gr_connections = [],
       gr_memberships = 0, gr_route_memberships = 0, gr_observers = 0, gr_world_revision = 0,
       gr_last_tick = None, gr_last_frame = None, gr_last_policy = None, gr_prepare_calls = 0\<rparr>)"

definition accounting :: "'f Graph \<Rightarrow> Accounting" where
  "accounting g = \<lparr>ac_entities = length (gr_entities g), ac_dynamic_entities = length (gr_dynamic g),
    ac_cells = length (gr_cells g), ac_memberships = gr_memberships g,
    ac_route_memberships = gr_route_memberships g, ac_connections = length (gr_connections g),
    ac_observers = gr_observers g, ac_prepare_calls = gr_prepare_calls g,
    ac_world_revision = gr_world_revision g\<rparr>"

section \<open>Geometry\<close>

definition validate_tick :: "ServerTick \<Rightarrow> 'f Graph \<Rightarrow> GraphError + u64" where
  "validate_tick tick g =
    (if (case gr_last_tick g of None \<Rightarrow> False | Some previous \<Rightarrow> tick < previous) then Inl NonMonotonicTick
     else ok_or RevisionExhausted (checked_add (gr_world_revision g) 1))"

definition committed :: "ServerTick \<Rightarrow> u64 \<Rightarrow> 'f Graph \<Rightarrow> 'f Graph" where
  "committed tick revision g = g\<lparr>gr_last_tick := Some tick, gr_world_revision := revision\<rparr>"

definition valid_position :: "'f F64 \<Rightarrow> 'f Limits \<Rightarrow> 'f point \<Rightarrow> bool" where
  "valid_position F l p = (case p of (x, y, z) \<Rightarrow>
    list_all (\<lambda>v. f_finite F v \<and> f_le F (f_abs F v) (li_max_coordinate l)) [x, y, z])"

definition cell_at :: "'f F64 \<Rightarrow> 'f Limits \<Rightarrow> 'f \<Rightarrow> 'f \<Rightarrow> Cell" where
  "cell_at F l x z = (f_floor_i64 F (f_div F x (li_cell_size l)), f_floor_i64 F (f_div F z (li_cell_size l)))"

definition cell_of :: "'f F64 \<Rightarrow> 'f Limits \<Rightarrow> 'f point \<Rightarrow> Cell" where
  "cell_of F l p = (case p of (x, y, z) \<Rightarrow> cell_at F l x z)"

definition influence :: "'f F64 \<Rightarrow> 'f Limits \<Rightarrow> 'f EntityRegistration \<Rightarrow> 'f" where
  "influence F l e = f_add F (f_add F (f_add F (bd_radius (er_bounds e)) (er_cull_radius e)) (li_leave_margin l)) (li_prefetch l)"

definition footprint_span :: "'f F64 \<Rightarrow> 'f Limits \<Rightarrow> 'f EntityRegistration \<Rightarrow> GraphError + (Cell \<times> Cell) option" where
  "footprint_span F l e =
    (if \<not> valid_position F l (bd_center (er_bounds e))
        \<or> list_ex (\<lambda>v. \<not> f_finite F v \<or> f_lt F v (f_lit F 0)) [bd_radius (er_bounds e), er_cull_radius e]
     then Inl InvalidBounds
     else
       let radius = influence F l e in
       if \<not> f_finite F radius \<or> f_lt F (li_max_coordinate l) radius then Inl InvalidBounds
       else if ro_spatial (er_routes e) = None then Inr None
       else
         case bd_center (er_bounds e) of (x, y, z) \<Rightarrow>
         let low = cell_at F l (f_sub F x radius) (f_sub F z radius);
             high = cell_at F l (f_add F x radius) (f_add F z radius);
             count = nat ((fst high - fst low + 1) mod 2 ^ 128) * nat ((snd high - snd low + 1) mod 2 ^ 128) in
         if count > li_max_cells_per_entity l then Inl (Limit ''cells per entity'')
         else Inr (Some (low, high)))"

definition span_cells :: "(Cell \<times> Cell) option \<Rightarrow> Cell list" where
  "span_cells span = (case span of
     None \<Rightarrow> []
   | Some (low, high) \<Rightarrow> concat (map (\<lambda>x. map (\<lambda>z. (x, z)) [snd low..snd high]) [fst low..fst high]))"

definition needs_refresh :: "'f EntityRegistration \<Rightarrow> bool" where
  "needs_refresh e \<longleftrightarrow> ro_spatial (er_routes e) = Some Dynamic
    \<or> ro_spatial (er_routes e) = Some DormancyDriven \<and> \<not> er_dormant e"

definition route_count :: "'f EntityRegistration \<Rightarrow> usize" where
  "route_count e = (if ro_global (er_routes e) then 1 else 0)
    + (if ro_owner (er_routes e) \<noteq> None then 1 else 0) + length (ro_semantic (er_routes e))"

section \<open>Reverse indices\<close>

definition add_member :: "EntityId \<Rightarrow> 'k::linorder \<Rightarrow> 'k reverse_index \<Rightarrow> 'k reverse_index" where
  "add_member eid key index =
    bt_insert key (bs_insert eid (case map_of index key of None \<Rightarrow> [] | Some ids \<Rightarrow> ids)) index"

definition members :: "'k reverse_index \<Rightarrow> 'k \<Rightarrow> EntityId list" where
  "members index key = (case map_of index key of None \<Rightarrow> [] | Some ids \<Rightarrow> ids)"

definition remove_member :: "EntityId \<Rightarrow> 'k::linorder \<Rightarrow> 'k reverse_index \<Rightarrow> 'k reverse_index" where
  "remove_member eid key index = (case map_of index key of
     None \<Rightarrow> index
   | Some ids \<Rightarrow>
     (let rest = bs_remove eid ids in if rest = [] then bt_remove key index else bt_insert key rest index))"

definition remove_indices :: "EntityId \<Rightarrow> 'f Graph \<Rightarrow> 'f Graph" where
  "remove_indices eid g = (case map_of (gr_entities g) eid of
     None \<Rightarrow> g
   | Some e \<Rightarrow>
     (let cells = (case map_of (gr_footprints g) eid of None \<Rightarrow> [] | Some cs \<Rightarrow> cs) in
      g\<lparr>gr_entities := bt_remove eid (gr_entities g),
        gr_indices := bt_remove (eid_index eid) (gr_indices g),
        gr_dynamic := bs_remove eid (gr_dynamic g),
        gr_footprints := bt_remove eid (gr_footprints g),
        gr_memberships := gr_memberships g - length cells,
        gr_cells := fold (remove_member eid) cells (gr_cells g),
        gr_route_memberships := gr_route_memberships g - route_count e,
        gr_globals := bs_remove eid (gr_globals g),
        gr_owners := (case ro_owner (er_routes e) of None \<Rightarrow> gr_owners g | Some c \<Rightarrow> remove_member eid c (gr_owners g)),
        gr_semantics := fold (remove_member eid) (ro_semantic (er_routes e)) (gr_semantics g)\<rparr>))"

definition add_indices :: "'f EntityRegistration \<Rightarrow> Cell list \<Rightarrow> usize \<Rightarrow> usize \<Rightarrow> 'f Graph \<Rightarrow> 'f Graph" where
  "add_indices e footprint memberships routes g =
    (let eid = er_id e in
     g\<lparr>gr_cells := fold (add_member eid) footprint (gr_cells g),
       gr_globals := (if ro_global (er_routes e) then bs_insert eid (gr_globals g) else gr_globals g),
       gr_owners := (case ro_owner (er_routes e) of None \<Rightarrow> gr_owners g | Some c \<Rightarrow> add_member eid c (gr_owners g)),
       gr_semantics := fold (add_member eid) (ro_semantic (er_routes e)) (gr_semantics g),
       gr_dynamic := (if needs_refresh e then bs_insert eid (gr_dynamic g) else gr_dynamic g),
       gr_indices := bt_insert (eid_index eid) eid (gr_indices g),
       gr_footprints := bt_insert eid footprint (gr_footprints g),
       gr_entities := bt_insert eid e (gr_entities g),
       gr_memberships := memberships,
       gr_route_memberships := routes\<rparr>)"

section \<open>Changes\<close>

definition touch_entity :: "'f EntityRegistration \<Rightarrow> 'f EntityRegistration \<Rightarrow> 'f Graph \<Rightarrow> 'f Graph" where
  "touch_entity old e g =
    g\<lparr>gr_dynamic := (if needs_refresh old \<noteq> needs_refresh e
          then if needs_refresh e then bs_insert (er_id e) (gr_dynamic g) else bs_remove (er_id e) (gr_dynamic g)
          else gr_dynamic g),
      gr_entities := bt_update (er_id e) (\<lambda>_. e) (gr_entities g)\<rparr>"

definition freed_cells :: "Cell list \<Rightarrow> Cell list option \<Rightarrow> 'f Graph \<Rightarrow> usize" where
  "freed_cells footprint previous g = (case previous of
     None \<Rightarrow> 0
   | Some cells \<Rightarrow> length (filter (\<lambda>c. c \<notin> set footprint
       \<and> (case map_of (gr_cells g) c of None \<Rightarrow> False | Some ids \<Rightarrow> length ids = 1)) cells))"

definition reindex :: "'f EntityRegistration \<Rightarrow> Cell list \<Rightarrow> 'f Graph \<Rightarrow> GraphError + 'f Graph" where
  "reindex e footprint g =
    (let previous = map_of (gr_footprints g) (er_id e);
         memberships = gr_memberships g - (case previous of None \<Rightarrow> 0 | Some cs \<Rightarrow> length cs) + length footprint;
         allocated = length (filter (\<lambda>c. \<not> bt_contains c (gr_cells g)) footprint);
         freed = freed_cells footprint previous g in
     if memberships > li_max_memberships (gr_limits g) then Inl (Limit ''grid memberships'')
     else if length (gr_cells g) - freed + allocated > li_max_cells (gr_limits g) then Inl (Limit ''grid cells'')
     else
       let routes = gr_route_memberships g
             - (case map_of (gr_entities g) (er_id e) of None \<Rightarrow> 0 | Some old \<Rightarrow> route_count old) + route_count e in
       if routes > li_max_route_memberships (gr_limits g) then Inl (Limit ''route memberships'')
       else Inr (add_indices e footprint memberships routes (remove_indices (er_id e) g)))"

definition same_geometry :: "'f F64 \<Rightarrow> 'f EntityRegistration \<Rightarrow> 'f EntityRegistration \<Rightarrow> bool" where
  "same_geometry F a b \<longleftrightarrow>
    (case (bd_center (er_bounds a), bd_center (er_bounds b)) of ((x, y, z), (x', y', z')) \<Rightarrow>
      f_eq F x x' \<and> f_eq F y y' \<and> f_eq F z z')
    \<and> f_eq F (bd_radius (er_bounds a)) (bd_radius (er_bounds b)) \<and> f_eq F (er_cull_radius a) (er_cull_radius b)"

definition upsert :: "'f F64 \<Rightarrow> 'f EntityRegistration \<Rightarrow> 'f Graph \<Rightarrow> GraphError + 'f Graph" where
  "upsert F e g =
    (if eid_generation (er_id e) = 0 \<or> er_state_version e = 0
        \<or> list_ex (\<lambda>i. eid_generation i = 0) (er_dependencies e)
     then Inl InvalidIdentity
     else if (case map_of (gr_indices g) (eid_index (er_id e)) of None \<Rightarrow> False | Some i \<Rightarrow> i \<noteq> er_id e)
     then Inl GenerationConflict
     else case map_of (gr_entities g) (er_id e) of
       None \<Rightarrow>
         (if length (gr_entities g) \<ge> li_max_entities (gr_limits g) then Inl (Limit ''entities'')
          else if length (er_dependencies e) > li_max_required (gr_limits g) then Inl (Limit ''declared dependencies'')
          else if length (ro_semantic (er_routes e)) > li_max_semantic_routes_per_entity (gr_limits g)
          then Inl (Limit ''semantic routes'')
          else and_then (footprint_span F (gr_limits g) e) (\<lambda>span. reindex e (span_cells span) g))
     | Some old \<Rightarrow>
         (if er_state_version e < er_state_version old then Inl RegressedStateVersion
          else if length (er_dependencies e) > li_max_required (gr_limits g) then Inl (Limit ''declared dependencies'')
          else if length (ro_semantic (er_routes e)) > li_max_semantic_routes_per_entity (gr_limits g)
          then Inl (Limit ''semantic routes'')
          else if er_routes old = er_routes e \<and> same_geometry F old e then Inr (touch_entity old e g)
          else and_then (footprint_span F (gr_limits g) e) (\<lambda>span.
            if er_routes old = er_routes e
            then and_then (footprint_span F (gr_limits g) old) (\<lambda>before.
              if before = span then Inr (touch_entity old e g) else reindex e (span_cells span) g)
            else reindex e (span_cells span) g)))"

definition apply_change :: "'f F64 \<Rightarrow> ServerTick \<Rightarrow> 'f Change \<Rightarrow> 'f Graph \<Rightarrow> (GraphError + unit) \<times> 'f Graph" where
  "apply_change F tick change g =
    attempt (validate_tick tick g) g (\<lambda>revision.
    attempt (case change of Remove eid \<Rightarrow> Inr (remove_indices eid g) | Upsert e \<Rightarrow> upsert F e g) g (\<lambda>t.
      (Inr (), committed tick revision t)))"

section \<open>Connections and frames\<close>

definition set_connection ::
  "'f F64 \<Rightarrow> 'f ConnectionAuthorizer \<Rightarrow> ServerTick \<Rightarrow> ConnectionId \<Rightarrow> 'f ConnectionView \<Rightarrow> 'f Graph \<Rightarrow>
   (GraphError + unit) \<times> 'f Graph" where
  "set_connection F authorize tick connection view g =
    attempt (validate_tick tick g) g (\<lambda>revision.
      if \<not> bt_contains connection (gr_connections g)
         \<and> length (gr_connections g) \<ge> li_max_connections (gr_limits g) then (Inl (Limit ''connections''), g)
      else if length (cv_observers view) > li_max_observers (gr_limits g)
         \<or> length (cv_semantic_grants view) > li_max_semantic_grants (gr_limits g)
         \<or> length (cv_ready_scenes view) > li_max_ready_scenes (gr_limits g)
      then (Inl (Limit ''connection grants''), g)
      else if list_ex (\<lambda>ob. \<not> valid_position F (gr_limits g) (og_position ob)
          \<or> og_scene_revision ob \<notin> set (cv_ready_scenes view)) (cv_observers view)
      then (Inl InvalidObserver, g)
      else if \<not> authorize connection view then (Inl UnauthorizedView, g)
      else
        let old_observers = (case map_of (gr_connections g) connection of None \<Rightarrow> 0 | Some v \<Rightarrow> length (cv_observers v)) in
        (Inr (), committed tick revision
          (g\<lparr>gr_observers := gr_observers g - old_observers + length (cv_observers view),
             gr_connections := bt_insert connection view (gr_connections g)\<rparr>)))"

definition remove_connection :: "ServerTick \<Rightarrow> ConnectionId \<Rightarrow> 'f Graph \<Rightarrow> (GraphError + unit) \<times> 'f Graph" where
  "remove_connection tick connection g =
    attempt (validate_tick tick g) g (\<lambda>revision.
      (Inr (), committed tick revision (case map_of (gr_connections g) connection of
         None \<Rightarrow> g
       | Some view \<Rightarrow> g\<lparr>gr_connections := bt_remove connection (gr_connections g),
           gr_observers := gr_observers g - length (cv_observers view)\<rparr>)))"

record 'f PreparedGraph =
  pg_graph :: "'f Graph"
  pg_frame :: ReplicationFrame
  pg_tick :: ServerTick
  pg_policy_revision :: PolicyRevision

definition prepare ::
  "ReplicationFrame \<Rightarrow> ServerTick \<Rightarrow> PolicyRevision \<Rightarrow> 'f Graph \<Rightarrow> (GraphError + 'f PreparedGraph) \<times> 'f Graph" where
  "prepare frame tick policy_revision g =
    (if (case gr_last_frame g of None \<Rightarrow> False | Some previous \<Rightarrow> frame \<le> previous) then (Inl NonMonotonicFrame, g)
     else if (case gr_last_tick g of None \<Rightarrow> False | Some previous \<Rightarrow> tick < previous) then (Inl NonMonotonicTick, g)
     else if (case gr_last_policy g of None \<Rightarrow> False | Some previous \<Rightarrow> policy_revision < previous)
     then (Inl NonMonotonicPolicy, g)
     else attempt (ok_or RevisionExhausted (checked_add (gr_prepare_calls g) 1)) g (\<lambda>calls.
       let t = g\<lparr>gr_last_frame := Some frame, gr_last_tick := Some tick, gr_last_policy := Some policy_revision,
             gr_prepare_calls := calls\<rparr> in
       (Inr \<lparr>pg_graph = t, pg_frame = frame, pg_tick = tick, pg_policy_revision = policy_revision\<rparr>, t)))"

end
