(* ===== verification/Net_Gather.thy ===== *)
theory Net_Gather
  imports Net_Graph
begin

text \<open>
  Gathering of eligible entities: \<open>engine/net/src/interest/gather.rs\<close>.

  The closures \<open>add\<close> and the \<open>filter_map\<close> body are functions of their own; nested loops over lists of
  lists run over the concatenation, in the same order.  The index expression \<open>graph.entities[&id]\<close>
  is the only place that can panic.  The work list of \<open>required\<close> is an ordered set, as in the source.
\<close>

datatype GatherError = UnknownConnection | StalePolicy | CandidateLimit | CandidateVisitLimit | PreviousEligibilityLimit

section \<open>Candidates\<close>

type_synonym candidates = "(EntityId, EligibilityReasons) bt \<times> usize"

definition add_candidate :: "'f Limits \<Rightarrow> EligibilityReasons \<Rightarrow> EntityId \<Rightarrow> candidates \<Rightarrow> GatherError + candidates" where
  "add_candidate l reason eid c = (case c of (found, visits) \<Rightarrow>
    if visits \<ge> li_max_candidate_visits l then Inl CandidateVisitLimit
    else case map_of found eid of
      Some reasons \<Rightarrow> Inr (bt_insert eid (reasons_insert reasons reason) found, visits + 1)
    | None \<Rightarrow>
      (if length found \<ge> li_max_candidates l then Inl CandidateLimit
       else Inr (bt_insert eid reason found, visits + 1)))"

fun add_candidates :: "'f Limits \<Rightarrow> EligibilityReasons \<Rightarrow> EntityId list \<Rightarrow> candidates \<Rightarrow> GatherError + candidates" where
  "add_candidates l reason [] c = Inr c"
| "add_candidates l reason (eid # ids) c = and_then (add_candidate l reason eid c) (add_candidates l reason ids)"

definition semantic_ids :: "'f ConnectionView \<Rightarrow> 'f Graph \<Rightarrow> EntityId list" where
  "semantic_ids view g = concat (map (members (gr_semantics g)) (cv_semantic_grants view))"

definition observed_ids :: "'f F64 \<Rightarrow> 'f ConnectionView \<Rightarrow> 'f Graph \<Rightarrow> EntityId list" where
  "observed_ids F view g = concat (map (\<lambda>ob. members (gr_cells g) (cell_of F (gr_limits g) (og_position ob))) (cv_observers view))"

definition collect_candidates :: "'f F64 \<Rightarrow> ConnectionId \<Rightarrow> 'f ConnectionView \<Rightarrow> 'f Graph \<Rightarrow> GatherError + candidates" where
  "collect_candidates F connection view g =
    and_then (add_candidates (gr_limits g) GLOBAL (gr_globals g) ([], 0)) (\<lambda>c.
    and_then (add_candidates (gr_limits g) OWNER (members (gr_owners g) connection) c) (\<lambda>c.
    and_then (add_candidates (gr_limits g) SEMANTIC (semantic_ids view g) c) (\<lambda>c.
    add_candidates (gr_limits g) SPATIAL (observed_ids F view g) c)))"

section \<open>Authorisation\<close>

definition permitted ::
  "ConnectionId \<Rightarrow> 'f ConnectionView \<Rightarrow> 'f EntityRegistration \<Rightarrow> 'f DisclosurePolicy \<Rightarrow> RepresentationGrant option" where
  "permitted connection view e policy =
    (let visible = (case er_visibility e of
         Public \<Rightarrow> True
       | Owner owner \<Rightarrow> owner = connection
       | Semantic semantic \<Rightarrow> semantic \<in> set (cv_semantic_grants view)
       | Never \<Rightarrow> False) in
     if \<not> visible \<or> er_scene_revision e \<notin> set (cv_ready_scenes view) then None
     else case dp_representation policy connection e of
       None \<Rightarrow> None
     | Some grant \<Rightarrow> if rg_schema_id grant \<noteq> 0 \<and> rg_fields grant \<noteq> 0 then Some grant else None)"

definition eligible_entry :: "'f EntityRegistration \<Rightarrow> RepresentationGrant \<Rightarrow> EligibilityReasons \<Rightarrow> EligibleEntry" where
  "eligible_entry e representation reasons = \<lparr>ee_entity = er_id e, ee_representation = representation, ee_reasons = reasons,
    ee_state_version = er_state_version e, ee_scene_revision = er_scene_revision e\<rparr>"

definition spatially_eligible :: "'f F64 \<Rightarrow> 'f Limits \<Rightarrow> 'f EntityRegistration \<Rightarrow> 'f ConnectionView \<Rightarrow> bool \<Rightarrow> bool" where
  "spatially_eligible F l e view previous =
    (let radius = f_add F (f_add F (f_add F (bd_radius (er_bounds e)) (er_cull_radius e)) (li_prefetch l))
           (if previous then li_leave_margin l else f_lit F 0) in
     list_ex (\<lambda>ob. case (bd_center (er_bounds e), og_position ob) of ((p0, p1, p2), (q0, q1, q2)) \<Rightarrow>
       og_scene_revision ob = er_scene_revision e
       \<and> f_le F (f_hypot F (f_hypot F (f_sub F p0 q0) (f_sub F p1 q1)) (f_sub F p2 q2)) radius) (cv_observers view))"

definition judge_candidate ::
  "'f F64 \<Rightarrow> 'f Graph \<Rightarrow> ConnectionId \<Rightarrow> 'f ConnectionView \<Rightarrow> EntityId list \<Rightarrow> 'f DisclosurePolicy \<Rightarrow>
   EntityId \<Rightarrow> EligibilityReasons \<Rightarrow> GatherError failure + (EntityId \<times> EligibleEntry) option" where
  "judge_candidate F g connection view previous policy eid reasons = (case map_of (gr_entities g) eid of
     None \<Rightarrow> Inl (Panic ''no entry found for key'')
   | Some e \<Rightarrow> Inr (case permitted connection view e policy of
       None \<Rightarrow> None
     | Some representation \<Rightarrow>
       (let kept = (if reasons_contains reasons SPATIAL
             \<and> \<not> spatially_eligible F (gr_limits g) e view (eid \<in> set previous)
           then without_spatial reasons else reasons) in
        if kept \<noteq> 0 then Some (eid, eligible_entry e representation kept) else None)))"

fun judge_candidates ::
  "(EntityId \<Rightarrow> EligibilityReasons \<Rightarrow> GatherError failure + (EntityId \<times> EligibleEntry) option) \<Rightarrow>
   (EntityId, EligibilityReasons) bt \<Rightarrow> GatherError failure + (EntityId, EligibleEntry) bt" where
  "judge_candidates judge [] = Inr []"
| "judge_candidates judge ((eid, reasons) # found) =
    and_then (judge eid reasons) (\<lambda>verdict.
    and_then (judge_candidates judge found) (\<lambda>entries.
      Inr (case verdict of None \<Rightarrow> entries | Some entry \<Rightarrow> entry # entries)))"

section \<open>The prediction group\<close>

fun push_dependencies ::
  "'f Limits \<Rightarrow> (EntityId \<Rightarrow> bool) \<Rightarrow> (EntityId, EligibleEntry) bt \<Rightarrow> EntityId list \<Rightarrow> EntityId list \<times> usize \<Rightarrow>
   DependencyError + EntityId list \<times> usize" where
  "push_dependencies l permits visited [] (pending, edges) = Inr (pending, edges)"
| "push_dependencies l permits visited (target # targets) (pending, edges) =
    (if edges \<ge> li_max_dependency_edges l then Inl EdgeLimit
     else if \<not> permits target then Inl Denied
     else if \<not> bt_contains target visited \<and> target \<notin> set pending then
       (if length visited + length pending \<ge> li_max_required l then Inl EntityLimit
        else push_dependencies l permits visited targets (bs_insert target pending, edges + 1))
     else push_dependencies l permits visited targets (pending, edges + 1))"

definition unvisited :: "'f Graph \<Rightarrow> (EntityId, EligibleEntry) bt \<Rightarrow> EntityId set" where
  "unvisited g visited = fst ` set (gr_entities g) - fst ` set visited"

definition stale_pending :: "EntityId list \<Rightarrow> (EntityId, EligibleEntry) bt \<Rightarrow> usize" where
  "stale_pending pending visited = length (filter (\<lambda>i. bt_contains i visited) pending)"

lemma stale_bs_insert:
  "\<not> bt_contains i visited \<Longrightarrow> stale_pending (bs_insert i pending) visited = stale_pending pending visited"
  by (induction pending) (auto simp: stale_pending_def)

lemma push_dependencies_stale:
  "push_dependencies l permits visited targets (pending, edges) = Inr (pending', edges') \<Longrightarrow>
   stale_pending pending' visited = stale_pending pending visited"
  by (induction l permits visited targets "(pending, edges)" arbitrary: pending edges rule: push_dependencies.induct)
    (auto simp: stale_bs_insert split: if_splits)

lemma unvisited_less:
  assumes "map_of (gr_entities g) i = Some e" "\<not> bt_contains i visited"
  shows "card (unvisited g (bt_insert i x visited)) < card (unvisited g visited)"
proof (rule psubset_card_mono)
  show "finite (unvisited g visited)"
    by (simp add: unvisited_def)
  have "i \<in> fst ` set (gr_entities g)" "i \<notin> fst ` set visited"
    using assms by (auto simp: bt_contains_def map_of_eq_None_iff dest: map_of_SomeD intro: rev_image_eqI)
  then show "unvisited g (bt_insert i x visited) \<subset> unvisited g visited"
    by (auto simp: unvisited_def)
qed

function required_loop ::
  "'f Graph \<Rightarrow> ConnectionId \<Rightarrow> 'f ConnectionView \<Rightarrow> 'f DisclosurePolicy \<Rightarrow> EntityId list \<Rightarrow>
   (EntityId, EligibleEntry) bt \<Rightarrow> usize \<Rightarrow> DependencyError + (EntityId, EligibleEntry) bt" where
  "required_loop g connection view policy [] visited edges = Inr visited"
| "required_loop g connection view policy (eid # pending) visited edges =
    (case map_of (gr_entities g) eid of
       None \<Rightarrow> Inl Missing
     | Some e \<Rightarrow>
       (case permitted connection view e policy of
          None \<Rightarrow> Inl Denied
        | Some representation \<Rightarrow>
          (if \<not> rg_prediction_allowed representation then Inl IncompleteRepresentation
           else
             case push_dependencies (gr_limits g) (dp_permits_dependency policy connection eid)
                 (bt_insert eid (eligible_entry e representation REQUIRED) visited) (er_dependencies e) (pending, edges) of
               Inl error \<Rightarrow> Inl error
             | Inr (pending', edges') \<Rightarrow>
               required_loop g connection view policy pending'
                 (bt_insert eid (eligible_entry e representation REQUIRED) visited) edges')))"
  by pat_completeness auto

termination
proof (relation "inv_image (less_than <*lex*> less_than)
    (\<lambda>(g, connection, view, policy, pending, visited, edges). (card (unvisited g visited), stale_pending pending visited))")
  fix g :: "'f Graph" and connection view policy eid pending visited edges e representation pending' edges' and p :: "EntityId list \<times> usize"
  assume e: "map_of (gr_entities g) eid = Some e"
    and p: "push_dependencies (gr_limits g) (dp_permits_dependency policy connection eid)
        (bt_insert eid (eligible_entry e representation REQUIRED) visited) (er_dependencies e) (pending, edges) = Inr p" "(pending', edges') = p"
  let ?v = "bt_insert eid (eligible_entry e representation REQUIRED) visited"
  show "((g, connection, view, policy, pending', ?v, edges'), (g, connection, view, policy, eid # pending, visited, edges))
    \<in> inv_image (less_than <*lex*> less_than)
    (\<lambda>(g, connection, view, policy, pending, visited, edges). (card (unvisited g visited), stale_pending pending visited))"
  proof (cases "bt_contains eid visited")
    case False
    then show ?thesis
      using unvisited_less[OF e] by simp
  next
    case True
    have "fst ` set ?v = fst ` set visited"
      using True by (auto simp: bt_contains_def dest: map_of_SomeD intro: rev_image_eqI)
    then have "unvisited g ?v = unvisited g visited" "bt_contains i ?v = bt_contains i visited" for i
      by (auto simp: unvisited_def bt_contains_def map_of_eq_None_iff simp flip: not_None_eq)
    then show ?thesis
      using push_dependencies_stale[OF p(1)[folded p(2)]] True by (simp add: stale_pending_def)
  qed
qed (intro wf_inv_image wf_lex_prod wf_less_than)

declare required_loop.simps(2) [simp del]

definition required ::
  "'f Graph \<Rightarrow> ConnectionId \<Rightarrow> 'f ConnectionView \<Rightarrow> EntityId list \<Rightarrow> 'f DisclosurePolicy \<Rightarrow>
   DependencyError + (EntityId, EligibleEntry) bt" where
  "required g connection view roots policy =
    (if length roots > li_max_required (gr_limits g) then Inl EntityLimit
     else required_loop g connection view policy roots [] 0)"

definition merge_required :: "EntityId \<times> EligibleEntry \<Rightarrow> (EntityId, EligibleEntry) bt \<Rightarrow> (EntityId, EligibleEntry) bt" where
  "merge_required r entries = (case r of (eid, entry) \<Rightarrow>
    if bt_contains eid entries
    then bt_update eid (\<lambda>x. x\<lparr>ee_reasons := reasons_insert (ee_reasons x) REQUIRED\<rparr>) entries
    else bt_insert eid entry entries)"

definition admit_prediction ::
  "'f Graph \<Rightarrow> ConnectionId \<Rightarrow> 'f ConnectionView \<Rightarrow> EntityId list \<Rightarrow> 'f DisclosurePolicy \<Rightarrow> (EntityId, EligibleEntry) bt \<Rightarrow>
   PredictionAdmission \<times> (EntityId, EligibleEntry) bt" where
  "admit_prediction g connection view roots policy entries =
    (if roots = [] then (NotRequested, entries)
     else case required g connection view roots policy of
       Inl error \<Rightarrow> (NotAdmitted error, entries)
     | Inr required_group \<Rightarrow>
       (let additional = length (filter (\<lambda>i. \<not> bt_contains i entries) (map fst required_group)) in
        if length entries + additional > li_max_candidates (gr_limits g) then (NotAdmitted EntityLimit, entries)
        else (Admitted (map fst required_group), fold merge_required required_group entries)))"

section \<open>Gathering\<close>

definition gather ::
  "'f F64 \<Rightarrow> ConnectionId \<Rightarrow> EntityId list \<Rightarrow> EntityId list \<Rightarrow> 'f DisclosurePolicy \<Rightarrow> 'f PreparedGraph \<Rightarrow>
   GatherError failure + EligibleSet" where
  "gather F connection previous prediction_roots policy p =
    (if dp_revision policy 0 \<noteq> pg_policy_revision p then Inl (Err StalePolicy)
     else let g = pg_graph p in
     case map_of (gr_connections g) connection of
       None \<Rightarrow> Inl (Err UnknownConnection)
     | Some view \<Rightarrow>
       (if length previous > li_max_candidates (gr_limits g) then Inl (Err PreviousEligibilityLimit)
        else case collect_candidates F connection view g of
          Inl error \<Rightarrow> Inl (Err error)
        | Inr (found, visits) \<Rightarrow>
          and_then (judge_candidates (judge_candidate F g connection view previous policy) found) (\<lambda>eligible.
          case admit_prediction g connection view prediction_roots policy eligible of (prediction, entries) \<Rightarrow>
            if dp_revision policy 1 \<noteq> pg_policy_revision p then Inl (Err StalePolicy)
            else Inr \<lparr>es_connection = connection, es_world_revision = gr_world_revision g,
              es_policy_revision = pg_policy_revision p, es_frame = pg_frame p, es_tick = pg_tick p,
              es_entries = entries, es_prediction = prediction, es_candidate_visits = visits,
              es_candidates = length found\<rparr>)))"

end
