(* ===== verification/Net_Graph_Facts.thy ===== *)
theory Net_Graph_Facts
  imports Net_Graph
begin

text \<open>
  The replication graph keeps its reverse indices exact: every list of entities is the image of the
  registrations, whatever the sequence of changes, and the counters are the sizes they stand for.
\<close>

section \<open>Reverse indices\<close>

fun ids_exact :: "EntityId list option \<Rightarrow> EntityId set \<Rightarrow> bool" where
  "ids_exact None S \<longleftrightarrow> S = {}"
| "ids_exact (Some ids) S \<longleftrightarrow> bs_ok ids \<and> ids \<noteq> [] \<and> set ids = S"

definition index_exact :: "('k::linorder) reverse_index \<Rightarrow> ('k \<Rightarrow> EntityId set) \<Rightarrow> bool" where
  "index_exact index R \<longleftrightarrow> bt_ok index \<and> (\<forall>k. ids_exact (map_of index k) (R k))"

lemma index_exact_at: "index_exact index R \<Longrightarrow> ids_exact (map_of index k) (R k)"
  by (simp add: index_exact_def)

lemma index_exact_ids:
  "index_exact index R \<Longrightarrow> set (case map_of index k of None \<Rightarrow> [] | Some ids \<Rightarrow> ids) = R k"
  using index_exact_at[of index R k] by (cases "map_of index k") auto

lemma index_exact_None: "index_exact index R \<Longrightarrow> map_of index k = None \<longleftrightarrow> R k = {}"
  using index_exact_at[of index R k] by (cases "map_of index k") auto

lemma index_exact_Some: "index_exact index R \<Longrightarrow> map_of index k = Some ids \<Longrightarrow> bs_ok ids \<and> ids \<noteq> [] \<and> set ids = R k"
  using index_exact_at[of index R k] by simp

lemma index_exact_upd:
  assumes "index_exact index R" "bt_ok index'" "map_of index' = (map_of index)(k := ids)" "ids_exact ids S"
  shows "index_exact index' (R(k := S))"
  using assms by (simp add: index_exact_def)

lemma add_member_exact:
  assumes "index_exact index R"
  shows "index_exact (add_member i k index) (R(k := insert i (R k)))"
proof -
  have ok: "bt_ok index"
    using assms by (simp add: index_exact_def)
  have "bs_insert i ids \<noteq> []" for ids :: "EntityId list"
    by (cases ids) auto
  then have "ids_exact (Some (bs_insert i (case map_of index k of None \<Rightarrow> [] | Some ids \<Rightarrow> ids))) (insert i (R k))"
    using index_exact_at[OF assms, of k] by (cases "map_of index k") (auto simp: bs_ok_Cons)
  from index_exact_upd[OF assms _ _ this, of "add_member i k index" k] show ?thesis
    using ok by (simp add: add_member_def)
qed

lemma remove_member_exact:
  assumes "index_exact index R"
  shows "index_exact (remove_member i k index) (R(k := R k - {i}))"
proof -
  have ok: "bt_ok index"
    using assms by (simp add: index_exact_def)
  show ?thesis
  proof (cases "map_of index k")
    case None
    have "map_of index = (map_of index)(k := None)"
      using None by (auto simp: fun_eq_iff)
    then show ?thesis
      using index_exact_upd[OF assms ok, of k None "R k - {i}"] index_exact_None[OF assms, of k] None
      by (simp add: remove_member_def)
  next
    case (Some ids)
    have ids: "bs_ok ids" "set ids = R k"
      using index_exact_Some[OF assms Some] by simp_all
    let ?rest = "bs_remove i ids"
    have "set ?rest = R k - {i}" "bs_ok ?rest"
      using ids by simp_all
    then have "ids_exact (if ?rest = [] then None else Some ?rest) (R k - {i})"
      by (cases "?rest = []") (simp_all del: set_bs_remove)
    from index_exact_upd[OF assms _ _ this, of "remove_member i k index" k] show ?thesis
      using ok Some by (auto simp: remove_member_def Let_def)
  qed
qed

lemma fold_add_member_exact:
  assumes "index_exact index R"
  shows "index_exact (fold (add_member i) ks index) (\<lambda>k. if k \<in> set ks then insert i (R k) else R k)"
  using assms
proof (induction ks arbitrary: index R)
  case (Cons a ks)
  have "(\<lambda>k. if k \<in> set ks then insert i ((R(a := insert i (R a))) k) else (R(a := insert i (R a))) k)
      = (\<lambda>k. if k \<in> set (a # ks) then insert i (R k) else R k)"
    by (auto simp: fun_eq_iff)
  then show ?case
    using Cons.IH[OF add_member_exact[OF Cons.prems, of i a]] by (simp only: fold_simps)
qed simp

lemma fold_remove_member_exact:
  assumes "index_exact index R"
  shows "index_exact (fold (remove_member i) ks index) (\<lambda>k. if k \<in> set ks then R k - {i} else R k)"
  using assms
proof (induction ks arbitrary: index R)
  case (Cons a ks)
  have "(\<lambda>k. if k \<in> set ks then (R(a := R a - {i})) k - {i} else (R(a := R a - {i})) k)
      = (\<lambda>k. if k \<in> set (a # ks) then R k - {i} else R k)"
    by (auto simp: fun_eq_iff)
  then show ?case
    using Cons.IH[OF remove_member_exact[OF Cons.prems, of i a]] by (simp only: fold_simps)
qed simp

lemma index_exact_keys: "index_exact index R \<Longrightarrow> fst ` set index = {k. R k \<noteq> {}}"
  using index_exact_None[of index R] by (auto simp: dom_map_of_conv_image_fst[symmetric] dom_def)

lemma index_exact_length:
  assumes "index_exact index R"
  shows "length index = card {k. R k \<noteq> {}}" "finite {k. R k \<noteq> {}}"
proof -
  have "bt_ok index"
    using assms by (simp add: index_exact_def)
  then have "length index = card (fst ` set index)"
    using bt_ok_distinct[of index] by (metis distinct_card length_map list.set_map)
  then show "length index = card {k. R k \<noteq> {}}" "finite {k. R k \<noteq> {}}"
    using index_exact_keys[OF assms] by (simp_all, metis List.finite_set finite_imageI)
qed

section \<open>Footprints\<close>

lemma span_cells_distinct: "distinct (span_cells span)"
proof -
  have "distinct (concat (map (\<lambda>x. map (Pair x) zs) xs))" if "distinct xs" "distinct zs" for xs zs :: "int list"
    using that by (induction xs) (auto simp: distinct_map inj_on_def)
  from this[of "[a..b]" "[c..d]" for a b c d] show ?thesis
    by (auto simp: span_cells_def split: option.split prod.split)
qed

lemma set_span_cells:
  "set (span_cells (Some (low, high))) = {fst low..fst high} \<times> {snd low..snd high}"
  by (auto simp: span_cells_def)

lemma zero_blind_ops:
  assumes "f64_zero_blind F" "f_same F a a'" "f_same F b b'"
  shows "f_same F (f_add F a b) (f_add F a' b')" "f_same F (f_sub F a b) (f_sub F a' b')"
    "f_lt F a b \<longleftrightarrow> f_lt F a' b'" "f_le F a b \<longleftrightarrow> f_le F a' b'"
    "f_same F (f_div F a c) (f_div F a' c)" "f_same F (f_abs F a) (f_abs F a')"
    "f_finite F a \<longleftrightarrow> f_finite F a'" "f_floor_i64 F a = f_floor_i64 F a'"
  using assms unfolding f64_zero_blind_def by blast+

lemma f_same_refl [simp]: "f_same F a a"
  by (simp add: f_same_def)

lemma cell_at_same:
  assumes "f64_zero_blind F" "f_same F x x'" "f_same F z z'"
  shows "cell_at F l x z = cell_at F l x' z'"
  unfolding cell_at_def
  using zero_blind_ops(5)[OF assms(1,2) f_same_refl, of "li_cell_size l"] zero_blind_ops(5)[OF assms(1,3) f_same_refl, of "li_cell_size l"]
    zero_blind_ops(8)[OF assms(1) _ f_same_refl] by blast

text \<open>A registration with the same routes and equal geometry covers the same cells.\<close>

lemma same_geometry_span:
  assumes zb: "f64_zero_blind F" and geo: "same_geometry F a b" and routes: "er_routes a = er_routes b"
  shows "footprint_span F l a = footprint_span F l b"
proof -
  obtain x y z where ca: "bd_center (er_bounds a) = (x, y, z)"
    by (cases "bd_center (er_bounds a)")
  obtain x' y' z' where cb: "bd_center (er_bounds b) = (x', y', z')"
    by (cases "bd_center (er_bounds b)")
  have s: "f_same F x x'" "f_same F y y'" "f_same F z z'"
      "f_same F (bd_radius (er_bounds a)) (bd_radius (er_bounds b))" "f_same F (er_cull_radius a) (er_cull_radius b)"
    using geo ca cb by (simp_all add: same_geometry_def f_same_def)
  note ops = zero_blind_ops[OF zb]
  have r: "f_same F (influence F l a) (influence F l b)"
    unfolding influence_def using s(4,5) by (intro ops(1) f_same_refl)
  have coord: "f_finite F v \<and> f_le F (f_abs F v) m \<longleftrightarrow> f_finite F v' \<and> f_le F (f_abs F v') m" if "f_same F v v'" for v v' m
    using ops(7)[OF that f_same_refl] ops(4)[OF ops(6)[OF that f_same_refl] f_same_refl] by blast
  have "valid_position F l (x, y, z) = valid_position F l (x', y', z')"
    unfolding valid_position_def using coord[OF s(1)] coord[OF s(2)] coord[OF s(3)] by auto
  moreover have "(\<not> f_finite F v \<or> f_lt F v (f_lit F 0)) = (\<not> f_finite F v' \<or> f_lt F v' (f_lit F 0))" if "f_same F v v'" for v v'
    using ops(7)[OF that f_same_refl] ops(3)[OF that f_same_refl] by blast
  note small = this[OF s(4)] this[OF s(5)]
  moreover have "f_finite F (influence F l a) = f_finite F (influence F l b)"
      "f_lt F (li_max_coordinate l) (influence F l a) = f_lt F (li_max_coordinate l) (influence F l b)"
    using ops(7)[OF r f_same_refl] ops(3)[OF f_same_refl r] by simp_all
  moreover have "cell_at F l (f_sub F x (influence F l a)) (f_sub F z (influence F l a))
      = cell_at F l (f_sub F x' (influence F l b)) (f_sub F z' (influence F l b))"
    "cell_at F l (f_add F x (influence F l a)) (f_add F z (influence F l a))
      = cell_at F l (f_add F x' (influence F l b)) (f_add F z' (influence F l b))"
    by (rule cell_at_same[OF zb]; rule ops(1,2); fact s r)+
  ultimately show ?thesis
    using ca cb routes by (simp add: footprint_span_def Let_def)
qed

section \<open>Invariant\<close>

definition registered :: "'f Graph \<Rightarrow> ('f EntityRegistration \<Rightarrow> bool) \<Rightarrow> EntityId set" where
  "registered g P = {i. \<exists>e. map_of (gr_entities g) i = Some e \<and> P e}"

definition covering :: "'f Graph \<Rightarrow> Cell \<Rightarrow> EntityId set" where
  "covering g c = {i. \<exists>cells. map_of (gr_footprints g) i = Some cells \<and> c \<in> set cells}"

definition entities_ok :: "'f Graph \<Rightarrow> bool" where
  "entities_ok g \<longleftrightarrow> bt_ok (gr_entities g) \<and> bt_ok (gr_indices g)
    \<and> (\<forall>i e. map_of (gr_entities g) i = Some e \<longrightarrow> er_id e = i)
    \<and> (\<forall>n i. map_of (gr_indices g) n = Some i \<longleftrightarrow> map_of (gr_entities g) i \<noteq> None \<and> eid_index i = n)"

definition routes_ok :: "'f Graph \<Rightarrow> bool" where
  "routes_ok g \<longleftrightarrow> bs_ok (gr_dynamic g) \<and> set (gr_dynamic g) = registered g needs_refresh
    \<and> bs_ok (gr_globals g) \<and> set (gr_globals g) = registered g (\<lambda>e. ro_global (er_routes e))
    \<and> index_exact (gr_owners g) (\<lambda>c. registered g (\<lambda>e. ro_owner (er_routes e) = Some c))
    \<and> index_exact (gr_semantics g) (\<lambda>m. registered g (\<lambda>e. m \<in> set (ro_semantic (er_routes e))))
    \<and> gr_route_memberships g = bt_sum (\<lambda>_. route_count) (gr_entities g)"

fun footprint_matches :: "'f F64 \<Rightarrow> 'f Limits \<Rightarrow> 'f EntityRegistration option \<Rightarrow> Cell list option \<Rightarrow> bool" where
  "footprint_matches F l None cells \<longleftrightarrow> cells = None"
| "footprint_matches F l (Some e) cells \<longleftrightarrow> (\<exists>span. footprint_span F l e = Inr span \<and> cells = Some (span_cells span))"

definition cells_ok :: "'f F64 \<Rightarrow> 'f Graph \<Rightarrow> bool" where
  "cells_ok F g \<longleftrightarrow> bt_ok (gr_footprints g)
    \<and> (\<forall>i. footprint_matches F (gr_limits g) (map_of (gr_entities g) i) (map_of (gr_footprints g) i))
    \<and> index_exact (gr_cells g) (covering g)
    \<and> gr_memberships g = bt_sum (\<lambda>_. length) (gr_footprints g)"

definition connections_ok :: "'f Graph \<Rightarrow> bool" where
  "connections_ok g \<longleftrightarrow> bt_ok (gr_connections g)
    \<and> gr_observers g = bt_sum (\<lambda>_ v. length (cv_observers v)) (gr_connections g)
    \<and> length (gr_connections g) \<le> li_max_connections (gr_limits g)
    \<and> (\<forall>c v. map_of (gr_connections g) c = Some v \<longrightarrow> length (cv_observers v) \<le> li_max_observers (gr_limits g))"

definition capacities_ok :: "'f Graph \<Rightarrow> bool" where
  "capacities_ok g \<longleftrightarrow> length (gr_entities g) \<le> li_max_entities (gr_limits g)
    \<and> length (gr_cells g) \<le> li_max_cells (gr_limits g) \<and> gr_memberships g \<le> li_max_memberships (gr_limits g)
    \<and> gr_route_memberships g \<le> li_max_route_memberships (gr_limits g)"

definition graph_ok :: "'f F64 \<Rightarrow> 'f Graph \<Rightarrow> bool" where
  "graph_ok F g \<longleftrightarrow> entities_ok g \<and> routes_ok g \<and> cells_ok F g \<and> connections_ok g \<and> capacities_ok g"

section \<open>Removing an entity\<close>

lemma registered_remove:
  "registered (g\<lparr>gr_entities := bt_remove i (gr_entities g)\<rparr>) P = registered g P - {i}"
  by (auto simp: registered_def)

lemma registered_cong:
  "gr_entities g = gr_entities h \<Longrightarrow> registered g P = registered h P"
  by (simp add: registered_def)

lemma remove_absent: "map_of (gr_entities g) i = None \<Longrightarrow> remove_indices i g = g"
  by (simp add: remove_indices_def)

lemma remove_indices_fields:
  assumes "map_of (gr_entities g) i = Some e" "map_of (gr_footprints g) i = Some cells"
  shows "gr_entities (remove_indices i g) = bt_remove i (gr_entities g)"
    "gr_indices (remove_indices i g) = bt_remove (eid_index i) (gr_indices g)"
    "gr_dynamic (remove_indices i g) = bs_remove i (gr_dynamic g)"
    "gr_footprints (remove_indices i g) = bt_remove i (gr_footprints g)"
    "gr_memberships (remove_indices i g) = gr_memberships g - length cells"
    "gr_cells (remove_indices i g) = fold (remove_member i) cells (gr_cells g)"
    "gr_route_memberships (remove_indices i g) = gr_route_memberships g - route_count e"
    "gr_globals (remove_indices i g) = bs_remove i (gr_globals g)"
    "gr_owners (remove_indices i g) = (case ro_owner (er_routes e) of None \<Rightarrow> gr_owners g | Some c \<Rightarrow> remove_member i c (gr_owners g))"
    "gr_semantics (remove_indices i g) = fold (remove_member i) (ro_semantic (er_routes e)) (gr_semantics g)"
  using assms by (simp_all add: remove_indices_def Let_def)

lemma remove_indices_frame [simp]:
  "gr_limits (remove_indices i g) = gr_limits g" "gr_connections (remove_indices i g) = gr_connections g"
  "gr_observers (remove_indices i g) = gr_observers g"
  by (simp_all add: remove_indices_def Let_def split: option.split)

lemma entities_index_unique:
  assumes "entities_ok g" "map_of (gr_entities g) i = Some e" "map_of (gr_entities g) j = Some d" "eid_index i = eid_index j"
  shows "i = j"
proof -
  have "map_of (gr_indices g) (eid_index i) = Some i" "map_of (gr_indices g) (eid_index j) = Some j"
    using assms(1-3) unfolding entities_ok_def by blast+
  then show ?thesis
    unfolding assms(4) by (metis option.inject)
qed

lemma remove_entities_ok:
  assumes "entities_ok g" "map_of (gr_entities g) i = Some e" "map_of (gr_footprints g) i = Some cells"
  shows "entities_ok (remove_indices i g)"
proof -
  have "map_of (gr_indices g) n = Some j \<longleftrightarrow> map_of (gr_entities g) j \<noteq> None \<and> eid_index j = n" for n j
    using assms(1) unfolding entities_ok_def by blast
  moreover have "eid_index j \<noteq> eid_index i" if "map_of (gr_entities g) j = Some d" "j \<noteq> i" for j d
    using entities_index_unique[OF assms(1,2) that(1)] that(2) by auto
  ultimately show ?thesis
    using assms(1) by (auto simp: entities_ok_def remove_indices_fields[OF assms(2,3)])
qed

lemma index_exact_cong: "index_exact index R \<Longrightarrow> (\<And>k. R k = S k) \<Longrightarrow> index_exact index S"
  by (simp add: index_exact_def)

lemma remove_routes_ok:
  assumes ok: "routes_ok g" "entities_ok g" and e: "map_of (gr_entities g) i = Some e" "map_of (gr_footprints g) i = Some cells"
  shows "routes_ok (remove_indices i g)"
proof -
  note f = remove_indices_fields[OF e]
  have reg: "registered (remove_indices i g) P = registered g P - {i}" for P
    by (auto simp: registered_def f)
  have at: "i \<in> registered g P \<longleftrightarrow> P e" for P
    using e(1) by (simp add: registered_def)
  have own: "index_exact (gr_owners (remove_indices i g)) (\<lambda>c. registered (remove_indices i g) (\<lambda>e. ro_owner (er_routes e) = Some c))"
  proof (cases "ro_owner (er_routes e)")
    case None
    have "index_exact (gr_owners g) (\<lambda>c. registered g (\<lambda>e. ro_owner (er_routes e) = Some c))"
      using ok(1) by (simp add: routes_ok_def)
    then show ?thesis
      unfolding f reg None option.case by (rule index_exact_cong) (use at None in auto)
  next
    case (Some c)
    have "index_exact (remove_member i c (gr_owners g)) ((\<lambda>c. registered g (\<lambda>e. ro_owner (er_routes e) = Some c))
        (c := registered g (\<lambda>e. ro_owner (er_routes e) = Some c) - {i}))"
      using ok(1) by (intro remove_member_exact) (simp add: routes_ok_def)
    then show ?thesis
      unfolding f reg Some option.case by (rule index_exact_cong) (use at Some in auto)
  qed
  have "index_exact (fold (remove_member i) (ro_semantic (er_routes e)) (gr_semantics g))
      (\<lambda>m. if m \<in> set (ro_semantic (er_routes e)) then registered g (\<lambda>e. m \<in> set (ro_semantic (er_routes e))) - {i}
        else registered g (\<lambda>e. m \<in> set (ro_semantic (er_routes e))))"
    using ok(1) by (intro fold_remove_member_exact) (simp add: routes_ok_def)
  then have sem: "index_exact (gr_semantics (remove_indices i g)) (\<lambda>m. registered (remove_indices i g) (\<lambda>e. m \<in> set (ro_semantic (er_routes e))))"
    unfolding f reg by (rule index_exact_cong) (use at in auto)
  have "gr_route_memberships (remove_indices i g) = bt_sum (\<lambda>_. route_count) (gr_entities (remove_indices i g))"
    using ok btm.remove_total[of "gr_entities g" "\<lambda>_. route_count" i] e(1) by (simp add: f routes_ok_def entities_ok_def)
  then show ?thesis
    using ok(1) own sem unfolding routes_ok_def reg by (simp add: f)
qed

lemma footprint_of_entity:
  assumes "cells_ok F g" "map_of (gr_entities g) i = Some e"
  obtains span where "footprint_span F (gr_limits g) e = Inr span" "map_of (gr_footprints g) i = Some (span_cells span)"
proof -
  have "footprint_matches F (gr_limits g) (Some e) (map_of (gr_footprints g) i)"
    using assms unfolding cells_ok_def by metis
  then show thesis
    using that by auto
qed

lemma no_entity_no_footprint:
  assumes "cells_ok F g" "map_of (gr_entities g) i = None"
  shows "map_of (gr_footprints g) i = None"
proof -
  have "footprint_matches F (gr_limits g) None (map_of (gr_footprints g) i)"
    using assms unfolding cells_ok_def by metis
  then show ?thesis
    by simp
qed

lemma remove_cells_ok:
  assumes ok: "cells_ok F g" and e: "map_of (gr_entities g) i = Some e" "map_of (gr_footprints g) i = Some cells"
  shows "cells_ok F (remove_indices i g)" "covering (remove_indices i g) c = covering g c - {i}"
proof -
  note f = remove_indices_fields[OF e]
  have cov: "covering (remove_indices i g) c = covering g c - {i}" for c
    by (auto simp: covering_def f)
  then show "covering (remove_indices i g) c = covering g c - {i}" .
  have at: "i \<in> covering g c \<longleftrightarrow> c \<in> set cells" for c
    using e(2) by (simp add: covering_def)
  have "index_exact (fold (remove_member i) cells (gr_cells g)) (\<lambda>c. if c \<in> set cells then covering g c - {i} else covering g c)"
    using ok by (intro fold_remove_member_exact) (simp add: cells_ok_def)
  then have "index_exact (gr_cells (remove_indices i g)) (covering (remove_indices i g))"
    unfolding f by (rule index_exact_cong) (use at cov in auto)
  moreover have "gr_memberships (remove_indices i g) = bt_sum (\<lambda>_. length) (gr_footprints (remove_indices i g))"
    using ok btm.remove_total[of "gr_footprints g" "\<lambda>_. length" i] e(2) by (simp add: f cells_ok_def)
  moreover have "footprint_matches F (gr_limits g) (map_of (gr_entities (remove_indices i g)) j) (map_of (gr_footprints (remove_indices i g)) j)" for j
    using ok by (cases "j = i") (simp_all add: f cells_ok_def)
  ultimately show "cells_ok F (remove_indices i g)"
    using ok by (simp add: cells_ok_def f)
qed

lemma remove_indices_ok:
  assumes ok: "graph_ok F g"
  shows "graph_ok F (remove_indices i g)"
proof (cases "map_of (gr_entities g) i")
  case (Some e)
  have parts: "entities_ok g" "routes_ok g" "cells_ok F g" "connections_ok g" "capacities_ok g"
    using ok by (simp_all add: graph_ok_def)
  obtain span where fp: "map_of (gr_footprints g) i = Some (span_cells span)"
    using footprint_of_entity[OF parts(3) Some] by blast
  note f = remove_indices_fields[OF Some fp]
  have cells: "cells_ok F (remove_indices i g)" and cov: "covering (remove_indices i g) c = covering g c - {i}" for c
    using remove_cells_ok[OF parts(3) Some fp] by blast+
  have "length (gr_cells (remove_indices i g)) \<le> length (gr_cells g)"
  proof -
    have new: "index_exact (gr_cells (remove_indices i g)) (covering (remove_indices i g))"
      and old: "index_exact (gr_cells g) (covering g)"
      using cells parts(3) by (simp_all add: cells_ok_def)
    have "card {c. covering (remove_indices i g) c \<noteq> {}} \<le> card {c. covering g c \<noteq> {}}"
      using index_exact_length(2)[OF old] cov by (intro card_mono) auto
    then show ?thesis
      using index_exact_length(1)[OF new] index_exact_length(1)[OF old] by simp
  qed
  moreover have "length (gr_entities (remove_indices i g)) \<le> length (gr_entities g)"
    by (simp add: f)
  ultimately have "capacities_ok (remove_indices i g)"
    using parts(5) f(5,7) unfolding capacities_ok_def remove_indices_frame by linarith
  moreover have "connections_ok (remove_indices i g)"
    using parts(4) by (simp add: connections_ok_def)
  ultimately show ?thesis
    using remove_entities_ok[OF parts(1) Some fp] remove_routes_ok[OF parts(2,1) Some fp] cells by (simp add: graph_ok_def)
qed (simp add: remove_absent ok)

section \<open>Adding an entity\<close>

lemma add_indices_fields:
  "gr_entities (add_indices e cells m r g) = bt_insert (er_id e) e (gr_entities g)"
  "gr_indices (add_indices e cells m r g) = bt_insert (eid_index (er_id e)) (er_id e) (gr_indices g)"
  "gr_dynamic (add_indices e cells m r g) = (if needs_refresh e then bs_insert (er_id e) (gr_dynamic g) else gr_dynamic g)"
  "gr_footprints (add_indices e cells m r g) = bt_insert (er_id e) cells (gr_footprints g)"
  "gr_memberships (add_indices e cells m r g) = m"
  "gr_cells (add_indices e cells m r g) = fold (add_member (er_id e)) cells (gr_cells g)"
  "gr_route_memberships (add_indices e cells m r g) = r"
  "gr_globals (add_indices e cells m r g) = (if ro_global (er_routes e) then bs_insert (er_id e) (gr_globals g) else gr_globals g)"
  "gr_owners (add_indices e cells m r g) = (case ro_owner (er_routes e) of None \<Rightarrow> gr_owners g | Some c \<Rightarrow> add_member (er_id e) c (gr_owners g))"
  "gr_semantics (add_indices e cells m r g) = fold (add_member (er_id e)) (ro_semantic (er_routes e)) (gr_semantics g)"
  "gr_limits (add_indices e cells m r g) = gr_limits g" "gr_connections (add_indices e cells m r g) = gr_connections g"
  "gr_observers (add_indices e cells m r g) = gr_observers g"
  by (simp_all add: add_indices_def Let_def)

lemma add_entities_ok:
  assumes "entities_ok g" "map_of (gr_entities g) (er_id e) = None" "map_of (gr_indices g) (eid_index (er_id e)) = None"
  shows "entities_ok (add_indices e cells m r g)"
proof -
  have ind: "map_of (gr_indices g) n = Some j \<longleftrightarrow> map_of (gr_entities g) j \<noteq> None \<and> eid_index j = n" for n j
    using assms(1) unfolding entities_ok_def by blast
  have other: "eid_index j \<noteq> eid_index (er_id e)" if "map_of (gr_entities g) j = Some d" for j d
  proof -
    have "map_of (gr_indices g) (eid_index j) = Some j"
      using ind[of "eid_index j" j] that by simp
    then show ?thesis
      using assms(3) by auto
  qed
  have "map_of (gr_indices (add_indices e cells m r g)) n = Some j \<longleftrightarrow>
      map_of (gr_entities (add_indices e cells m r g)) j \<noteq> None \<and> eid_index j = n" for n j
    using assms(1) ind[of n j] other[of j] by (auto simp: entities_ok_def add_indices_fields)
  then show ?thesis
    using assms(1) by (auto simp: entities_ok_def add_indices_fields)
qed

lemma add_routes_ok:
  assumes ok: "routes_ok g" "entities_ok g" and new: "map_of (gr_entities g) (er_id e) = None"
  shows "routes_ok (add_indices e cells m (gr_route_memberships g + route_count e) g)"
proof -
  let ?i = "er_id e" and ?h = "add_indices e cells m (gr_route_memberships g + route_count e) g"
  note f = add_indices_fields
  have bt: "bt_ok (gr_entities g)"
    using ok(2) by (simp add: entities_ok_def)
  have reg: "registered ?h P = (if P e then insert ?i (registered g P) else registered g P)" for P
    using bt new by (auto simp: registered_def f)
  have own: "index_exact (gr_owners ?h) (\<lambda>c. registered ?h (\<lambda>e. ro_owner (er_routes e) = Some c))"
  proof -
    have old: "index_exact (gr_owners g) (\<lambda>c. registered g (\<lambda>e. ro_owner (er_routes e) = Some c))"
      using ok(1) by (simp add: routes_ok_def)
    show ?thesis
    proof (cases "ro_owner (er_routes e)")
      case None
      show ?thesis
        unfolding f reg None option.case by (rule index_exact_cong[OF old]) simp
    next
      case (Some c)
      show ?thesis
        unfolding f reg Some option.case by (rule index_exact_cong[OF add_member_exact[OF old]]) auto
    qed
  qed
  have "index_exact (gr_semantics g) (\<lambda>k. registered g (\<lambda>e. k \<in> set (ro_semantic (er_routes e))))"
    using ok(1) by (simp add: routes_ok_def)
  then have sem: "index_exact (gr_semantics ?h) (\<lambda>k. registered ?h (\<lambda>e. k \<in> set (ro_semantic (er_routes e))))"
    unfolding f reg by (rule fold_add_member_exact)
  have "gr_route_memberships ?h = bt_sum (\<lambda>_. route_count) (gr_entities ?h)"
    using ok(1) btm.fresh_total[OF bt new, of "\<lambda>_. route_count" e] by (simp add: f routes_ok_def)
  moreover have "bs_ok (gr_dynamic ?h)" "set (gr_dynamic ?h) = registered ?h needs_refresh"
      "bs_ok (gr_globals ?h)" "set (gr_globals ?h) = registered ?h (\<lambda>e. ro_global (er_routes e))"
    using ok(1) unfolding reg by (simp_all add: f routes_ok_def)
  ultimately show ?thesis
    using own sem unfolding routes_ok_def by blast
qed

lemma add_cells_ok:
  assumes ok: "cells_ok F g" "entities_ok g" and new: "map_of (gr_entities g) (er_id e) = None"
    and span: "footprint_span F (gr_limits g) e = Inr span"
  shows "cells_ok F (add_indices e (span_cells span) (gr_memberships g + length (span_cells span)) r g)"
    and "covering (add_indices e (span_cells span) m r g) c = (if c \<in> set (span_cells span) then insert (er_id e) (covering g c) else covering g c)"
proof -
  let ?i = "er_id e" and ?m = "gr_memberships g + length (span_cells span)"
  note f = add_indices_fields
  have bt: "bt_ok (gr_footprints g)" "bt_ok (gr_entities g)"
    using ok by (simp_all add: cells_ok_def entities_ok_def)
  have nofp: "map_of (gr_footprints g) ?i = None"
    using no_entity_no_footprint[OF ok(1) new] .
  show cov: "covering (add_indices e (span_cells span) m r g) c = (if c \<in> set (span_cells span) then insert ?i (covering g c) else covering g c)" for m c
    using bt nofp by (auto simp: covering_def f)
  have "index_exact (gr_cells g) (covering g)"
    using ok(1) by (simp add: cells_ok_def)
  then have "index_exact (gr_cells (add_indices e (span_cells span) ?m r g)) (covering (add_indices e (span_cells span) ?m r g))"
    unfolding f by (rule index_exact_cong[OF fold_add_member_exact]) (simp add: cov)
  moreover have "?m = bt_sum (\<lambda>_. length) (gr_footprints (add_indices e (span_cells span) ?m r g))"
    using ok(1) btm.fresh_total[OF bt(1) nofp, of "\<lambda>_. length" "span_cells span"] by (simp add: f cells_ok_def)
  moreover have "footprint_matches F (gr_limits g) (map_of (gr_entities (add_indices e (span_cells span) ?m r g)) j)
      (map_of (gr_footprints (add_indices e (span_cells span) ?m r g)) j)" for j
    using ok(1) bt span by (cases "j = ?i") (simp_all add: f cells_ok_def)
  ultimately show "cells_ok F (add_indices e (span_cells span) ?m r g)"
    using bt by (simp add: cells_ok_def f)
qed

end
