(* ===== verification/Net_Graph_Props.thy ===== *)
theory Net_Graph_Props
  imports Net_Graph_Facts
begin

text \<open>
  Every operation of the replication graph keeps its indices exact and its sizes within the limits.
\<close>

section \<open>Re-indexing\<close>

text \<open>The number of cells that \<open>apply\<close> predicts before it commits is the number it ends up with.\<close>

lemma new_cell_count:
  assumes old: "index_exact cells R" and new: "index_exact cells' R'"
    and R': "\<And>c. R' c = (if c \<in> set footprint then insert i (R c - {i}) else R c - {i})"
    and prev: "\<And>c. i \<in> R c \<longleftrightarrow> c \<in> set previous" and d: "distinct footprint" "distinct previous"
  shows "length cells' = length cells
      - length (filter (\<lambda>c. c \<notin> set footprint \<and> (case map_of cells c of None \<Rightarrow> False | Some ids \<Rightarrow> length ids = 1)) previous)
      + length (filter (\<lambda>c. \<not> bt_contains c cells) footprint)"
proof -
  let ?K = "{c. R c \<noteq> {}}"
  let ?F = "{c \<in> set previous. c \<notin> set footprint \<and> R c = {i}}"
  have sole: "(case map_of cells c of None \<Rightarrow> False | Some ids \<Rightarrow> length ids = 1) \<longleftrightarrow> R c = {i}" if c: "c \<in> set previous" for c
  proof -
    have "map_of cells c \<noteq> None"
      using index_exact_None[OF old, of c] prev[of c] c by auto
    then obtain ids where ids: "map_of cells c = Some ids"
      by blast
    then have "bs_ok ids" "set ids = R c"
      using index_exact_Some[OF old ids] by simp_all
    then have "length ids = 1 \<longleftrightarrow> card (R c) = 1"
      using distinct_card[OF bs_ok_distinct, of ids] by simp
    also have "\<dots> \<longleftrightarrow> R c = {i}"
      using prev[of c] c by (auto simp: card_1_singleton_iff)
    finally show ?thesis
      using ids by simp
  qed
  have "length (filter (\<lambda>c. c \<notin> set footprint \<and> (case map_of cells c of None \<Rightarrow> False | Some ids \<Rightarrow> length ids = 1)) previous)
      = length (filter (\<lambda>c. c \<notin> set footprint \<and> R c = {i}) previous)"
    by (rule arg_cong[where f = length], rule filter_cong) (simp_all add: sole)
  also have "\<dots> = card ?F"
    using d(2) distinct_card[of "filter (\<lambda>c. c \<notin> set footprint \<and> R c = {i}) previous"] by simp
  finally have freed: "length (filter (\<lambda>c. c \<notin> set footprint \<and> (case map_of cells c of None \<Rightarrow> False | Some ids \<Rightarrow> length ids = 1)) previous) = card ?F" .
  have "filter (\<lambda>c. \<not> bt_contains c cells) footprint = filter (\<lambda>c. R c = {}) footprint"
    using index_exact_None[OF old] by (intro filter_cong) (auto simp: bt_contains_def)
  moreover have "set footprint - ?K = set (filter (\<lambda>c. R c = {}) footprint)"
    by auto
  ultimately have alloc: "length (filter (\<lambda>c. \<not> bt_contains c cells) footprint) = card (set footprint - ?K)"
    using d(1) distinct_card[of "filter (\<lambda>c. R c = {}) footprint"] by simp
  have "{c. R' c \<noteq> {}} = (?K - ?F) \<union> (set footprint - ?K)"
    using R' prev by auto
  moreover have "finite ?K" "?F \<subseteq> ?K"
    using index_exact_length(2)[OF old] by auto
  ultimately have "card {c. R' c \<noteq> {}} = card ?K - card ?F + card (set footprint - ?K)"
    using card_Un_disjoint[of "?K - ?F" "set footprint - ?K"] card_Diff_subset[of ?F ?K] finite_subset[of ?F ?K] by auto
  then show ?thesis
    using index_exact_length(1)[OF old] index_exact_length(1)[OF new] freed alloc by simp
qed

lemma bt_sum_length: "bt_sum (\<lambda>_ _. Suc 0) m = length m"
  by (induction m) auto

lemma reindex_slot_free:
  assumes ok: "entities_ok g"
    and slot: "map_of (gr_indices g) (eid_index i) = None \<or> map_of (gr_indices g) (eid_index i) = Some i"
  shows "map_of (gr_indices (remove_indices i g)) (eid_index i) = None"
proof (cases "map_of (gr_entities g) i")
  case None
  then have "map_of (gr_indices g) (eid_index i) \<noteq> Some i"
    using ok unfolding entities_ok_def by blast
  then show ?thesis
    using slot None by (simp add: remove_absent)
qed (simp add: remove_indices_def Let_def)

lemma covering_remove:
  assumes "cells_ok F g"
  shows "covering (remove_indices i g) c = covering g c - {i}"
proof (cases "map_of (gr_entities g) i")
  case None
  then show ?thesis
    using no_entity_no_footprint[OF assms None] by (auto simp: remove_absent covering_def)
next
  case (Some e)
  obtain span where "map_of (gr_footprints g) i = Some (span_cells span)"
    using footprint_of_entity[OF assms Some] by blast
  then show ?thesis
    using remove_cells_ok(2)[OF assms Some] by blast
qed

lemma reindex_cell_count:
  assumes ok: "graph_ok F g" and new: "cells_ok F t"
    and t: "t = add_indices e (span_cells span) m r (remove_indices (er_id e) g)"
    and span: "footprint_span F (gr_limits g) e = Inr span"
  shows "length (gr_cells t) = length (gr_cells g) - freed_cells (span_cells span) (map_of (gr_footprints g) (er_id e)) g
    + length (filter (\<lambda>c. \<not> bt_contains c (gr_cells g)) (span_cells span))"
proof -
  let ?i = "er_id e" and ?h = "remove_indices (er_id e) g"
  let ?previous = "case map_of (gr_footprints g) ?i of None \<Rightarrow> [] | Some cs \<Rightarrow> cs"
  have parts: "cells_ok F g" "cells_ok F ?h" "entities_ok ?h"
    using ok remove_indices_ok[OF ok] by (simp_all add: graph_ok_def)
  have absent: "map_of (gr_entities ?h) ?i = None"
    by (simp add: remove_indices_def Let_def split: option.split)
  have cov: "covering t c = (if c \<in> set (span_cells span) then insert ?i (covering g c - {?i}) else covering g c - {?i})" for c
    unfolding t using add_cells_ok(2)[OF parts(2,3) absent, of span] span covering_remove[OF parts(1)] by simp
  have prev: "?i \<in> covering g c \<longleftrightarrow> c \<in> set ?previous" for c
    by (cases "map_of (gr_footprints g) ?i") (simp_all add: covering_def)
  have "distinct ?previous"
  proof (cases "map_of (gr_entities g) ?i")
    case (Some old)
    then obtain before where "map_of (gr_footprints g) ?i = Some (span_cells before)"
      using footprint_of_entity[OF parts(1) Some] by blast
    then show ?thesis
      by (simp add: span_cells_distinct)
  qed (simp add: no_entity_no_footprint[OF parts(1)])
  from new_cell_count[OF _ _ cov prev span_cells_distinct this, of "gr_cells g" "gr_cells t"] show ?thesis
    using parts(1) new unfolding cells_ok_def freed_cells_def by (simp split: option.splits)
qed

lemma reindex_entity_count:
  assumes "graph_ok F g"
  shows "length (bt_insert (er_id e) e (gr_entities (remove_indices (er_id e) g)))
    = (if map_of (gr_entities g) (er_id e) = None then Suc (length (gr_entities g)) else length (gr_entities g))"
proof -
  have bt: "bt_ok (gr_entities g)"
    using assms by (simp add: graph_ok_def entities_ok_def)
  show ?thesis
  proof (cases "map_of (gr_entities g) (er_id e)")
    case None
    then show ?thesis
      using bt by (simp add: remove_absent length_bt_insert)
  next
    case (Some d)
    have "length (bt_remove (er_id e) (gr_entities g)) + 1 = length (gr_entities g)"
      using bt_sum_remove[OF bt, of "\<lambda>_ _. Suc 0" "er_id e"] Some by (simp add: bt_sum_length)
    then show ?thesis
      using bt Some by (simp add: remove_indices_def Let_def length_bt_insert)
  qed
qed

lemma reindex_ok:
  assumes ok: "graph_ok F g" and v: "reindex e (span_cells span) g = Inr t"
    and span: "footprint_span F (gr_limits g) e = Inr span"
    and slot: "map_of (gr_indices g) (eid_index (er_id e)) = None \<or> map_of (gr_indices g) (eid_index (er_id e)) = Some (er_id e)"
    and room: "map_of (gr_entities g) (er_id e) = None \<Longrightarrow> length (gr_entities g) < li_max_entities (gr_limits g)"
  shows "graph_ok F t"
proof -
  let ?i = "er_id e" and ?h = "remove_indices (er_id e) g" and ?fp = "span_cells span"
  let ?previous = "case map_of (gr_footprints g) ?i of None \<Rightarrow> [] | Some cs \<Rightarrow> cs"
  let ?routes = "case map_of (gr_entities g) ?i of None \<Rightarrow> 0 | Some old \<Rightarrow> route_count old"
  have h: "graph_ok F ?h"
    by (rule remove_indices_ok[OF ok])
  have parts: "entities_ok ?h" "routes_ok ?h" "cells_ok F ?h" "connections_ok ?h"
    using h by (simp_all add: graph_ok_def)
  have old: "entities_ok g" "routes_ok g" "cells_ok F g" "capacities_ok g"
    using ok by (simp_all add: graph_ok_def)
  have absent: "map_of (gr_entities ?h) ?i = None"
    by (simp add: remove_indices_def Let_def split: option.split)
  have free: "map_of (gr_indices ?h) (eid_index ?i) = None"
    using reindex_slot_free[OF old(1) slot] .
  have m: "gr_memberships ?h = gr_memberships g - length ?previous" and r: "gr_route_memberships ?h = gr_route_memberships g - ?routes"
    using no_entity_no_footprint[OF old(3), of ?i] by (simp_all add: remove_indices_def Let_def split: option.split)
  have lens: "length ?previous = (case map_of (gr_footprints g) ?i of None \<Rightarrow> 0 | Some cs \<Rightarrow> length cs)"
    by (simp split: option.split)
  let ?m = "gr_memberships ?h + length ?fp" and ?r = "gr_route_memberships ?h + route_count e"
  have t: "t = add_indices e ?fp ?m ?r ?h"
    and fit: "?m \<le> li_max_memberships (gr_limits g)" "?r \<le> li_max_route_memberships (gr_limits g)"
      "length (gr_cells g) - freed_cells ?fp (map_of (gr_footprints g) ?i) g
        + length (filter (\<lambda>c. \<not> bt_contains c (gr_cells g)) ?fp) \<le> li_max_cells (gr_limits g)"
    using v unfolding reindex_def Let_def m r lens by (auto split: if_splits)
  have cells: "cells_ok F t"
    unfolding t by (rule add_cells_ok(1)[OF parts(3,1) absent]) (simp add: span)
  have "length (gr_cells t) \<le> li_max_cells (gr_limits g)"
    using fit(3) reindex_cell_count[OF ok cells t span] by simp
  moreover have "length (gr_entities t) \<le> li_max_entities (gr_limits g)"
    using reindex_entity_count[OF ok, of e] room old(4) by (auto simp: t add_indices_fields capacities_ok_def split: if_splits)
  ultimately have "capacities_ok t"
    using fit by (simp add: capacities_ok_def t add_indices_fields)
  moreover have "connections_ok t"
    using parts(4) by (simp add: connections_ok_def t add_indices_fields)
  ultimately show ?thesis
    using cells add_entities_ok[OF parts(1) absent free] add_routes_ok[OF parts(2,1) absent]
    unfolding graph_ok_def t by blast
qed

section \<open>Changes\<close>

lemma touch_entity_ok:
  assumes ok: "graph_ok F g" and old: "map_of (gr_entities g) (er_id e) = Some old"
    and routes: "er_routes old = er_routes e" and span: "footprint_span F (gr_limits g) e = footprint_span F (gr_limits g) old"
  shows "graph_ok F (touch_entity old e g)"
proof -
  let ?i = "er_id e" and ?t = "touch_entity old e g"
  have parts: "entities_ok g" "routes_ok g" "cells_ok F g" "connections_ok g" "capacities_ok g"
    using ok by (simp_all add: graph_ok_def)
  have bt: "bt_ok (gr_entities g)"
    using parts(1) by (simp add: entities_ok_def)
  have ents: "map_of (gr_entities ?t) = (map_of (gr_entities g))(?i \<mapsto> e)"
    using old by (auto simp: touch_entity_def fun_eq_iff)
  have reg: "registered ?t P = (if P e then insert ?i (registered g P) else registered g P - {?i})" for P
    unfolding registered_def ents by auto
  have at: "?i \<in> registered g P \<longleftrightarrow> P old" for P
    using old by (simp add: registered_def)
  have same: "registered ?t P = registered g P" if "P e \<longleftrightarrow> P old" for P
    using at[of P] that unfolding reg by auto
  have "entities_ok ?t"
    using parts(1) old unfolding entities_ok_def ents by (auto simp: touch_entity_def)
  moreover have "set (gr_dynamic ?t) = registered ?t needs_refresh" "bs_ok (gr_dynamic ?t)"
    using parts(2) at[of needs_refresh] unfolding routes_ok_def reg by (auto simp: touch_entity_def)
  moreover have "bt_sum (\<lambda>_. route_count) (gr_entities ?t) = bt_sum (\<lambda>_. route_count) (gr_entities g)"
    unfolding touch_entity_def using bt_sum_update_eq[OF bt, of ?i "\<lambda>_. route_count" "\<lambda>_. e"] old routes by (simp add: route_count_def)
  ultimately have "entities_ok ?t \<and> routes_ok ?t"
    using parts(2) routes by (simp add: routes_ok_def same) (simp add: touch_entity_def)
  moreover have "footprint_matches F (gr_limits g) (map_of (gr_entities ?t) j) (map_of (gr_footprints g) j)" for j
  proof (cases "j = ?i")
    case True
    have "footprint_matches F (gr_limits g) (Some old) (map_of (gr_footprints g) ?i)"
      using parts(3) old unfolding cells_ok_def by metis
    then show ?thesis
      using True span by (simp add: ents)
  next
    case False
    then show ?thesis
      using parts(3) by (simp add: ents cells_ok_def)
  qed
  then have "cells_ok F ?t"
    using parts(3) by (simp add: cells_ok_def touch_entity_def covering_def[abs_def])
  ultimately show ?thesis
    using parts(4,5) by (simp add: graph_ok_def touch_entity_def connections_ok_def capacities_ok_def)
qed

lemma upsert_cases:
  assumes "upsert F e g = Inr t"
  obtains (touch) old where "map_of (gr_entities g) (er_id e) = Some old" "er_routes old = er_routes e"
      "same_geometry F old e \<or> footprint_span F (gr_limits g) e = footprint_span F (gr_limits g) old" "t = touch_entity old e g"
  | (index) span where "footprint_span F (gr_limits g) e = Inr span" "reindex e (span_cells span) g = Inr t"
      "map_of (gr_indices g) (eid_index (er_id e)) = None \<or> map_of (gr_indices g) (eid_index (er_id e)) = Some (er_id e)"
      "map_of (gr_entities g) (er_id e) = None \<Longrightarrow> length (gr_entities g) < li_max_entities (gr_limits g)"
proof -
  have slot: "map_of (gr_indices g) (eid_index (er_id e)) = None \<or> map_of (gr_indices g) (eid_index (er_id e)) = Some (er_id e)"
    using assms by (auto simp: upsert_def split: if_splits option.splits)
  show thesis
  proof (cases "map_of (gr_entities g) (er_id e)")
    case None
    then have "length (gr_entities g) < li_max_entities (gr_limits g)"
        "and_then (footprint_span F (gr_limits g) e) (\<lambda>span. reindex e (span_cells span) g) = Inr t"
      using assms by (auto simp: upsert_def split: if_splits)
    then show thesis
      using index slot by (auto simp: and_then_Inr_iff)
  next
    case (Some old)
    show thesis
    proof (cases "er_routes old = er_routes e \<and> same_geometry F old e")
      case True
      then have "t = touch_entity old e g"
        using assms Some by (simp add: upsert_def split: if_splits)
      then show thesis
        using touch[OF Some] True by blast
    next
      case False
      then have v: "and_then (footprint_span F (gr_limits g) e) (\<lambda>span.
            if er_routes old = er_routes e
            then and_then (footprint_span F (gr_limits g) old) (\<lambda>before.
              if before = span then Inr (touch_entity old e g) else reindex e (span_cells span) g)
            else reindex e (span_cells span) g) = Inr t"
        using assms Some by (simp add: upsert_def split: if_split_asm)
      then obtain span where span: "footprint_span F (gr_limits g) e = Inr span"
        unfolding and_then_Inr_iff by blast
      show thesis
      proof (cases "er_routes old = er_routes e \<and> footprint_span F (gr_limits g) old = Inr span")
        case True
        then have "t = touch_entity old e g"
          using v span by simp
        then show thesis
          using touch[OF Some] True span by simp
      next
        case False
        then have "reindex e (span_cells span) g = Inr t"
          using v span by (cases "footprint_span F (gr_limits g) old") (auto split: if_split_asm)
        then show thesis
          using index[OF span _ slot] Some by simp
      qed
    qed
  qed
qed

lemma upsert_ok:
  assumes zb: "f64_zero_blind F" and ok: "graph_ok F g" and v: "upsert F e g = Inr t"
  shows "graph_ok F t"
  using v
proof (cases rule: upsert_cases)
  case (touch old)
  have "footprint_span F (gr_limits g) e = footprint_span F (gr_limits g) old"
    using touch(2,3) same_geometry_span[OF zb, of old e "gr_limits g"] by metis
  then show ?thesis
    using touch_entity_ok[OF ok touch(1,2)] touch(4) by simp
next
  case (index span)
  show ?thesis
    by (rule reindex_ok[OF ok index(2,1,3)]) (rule index(4))
qed

lemma committed_ok [simp]: "graph_ok F (committed tick revision g) \<longleftrightarrow> graph_ok F g"
  by (simp add: graph_ok_def entities_ok_def routes_ok_def cells_ok_def connections_ok_def capacities_ok_def committed_def
      registered_def covering_def[abs_def])

lemma apply_change_ok:
  assumes "f64_zero_blind F" "graph_ok F g"
  shows "graph_ok F (snd (apply_change F tick change g))"
proof -
  have "graph_ok F t" if "(case change of Remove eid \<Rightarrow> Inr (remove_indices eid g) | Upsert e \<Rightarrow> upsert F e g) = Inr t" for t
    using that upsert_ok[OF assms] remove_indices_ok[OF assms(2)] by (auto split: Change.splits)
  then show ?thesis
    using assms(2) by (simp add: apply_change_def attempt_def split: sum.split)
qed

lemma set_connection_ok:
  assumes ok: "graph_ok F g"
  shows "graph_ok F (snd (set_connection F authorize tick connection view g))"
proof -
  let ?t = "g\<lparr>gr_observers := gr_observers g - (case map_of (gr_connections g) connection of None \<Rightarrow> 0 | Some v \<Rightarrow> length (cv_observers v))
      + length (cv_observers view), gr_connections := bt_insert connection view (gr_connections g)\<rparr>"
  have conn: "connections_ok g" "bt_ok (gr_connections g)"
    using ok by (simp_all add: graph_ok_def connections_ok_def)
  have "graph_ok F ?t" if room: "bt_contains connection (gr_connections g) \<or> length (gr_connections g) < li_max_connections (gr_limits g)"
    and few: "length (cv_observers view) \<le> li_max_observers (gr_limits g)"
  proof -
    have "gr_observers ?t = bt_sum (\<lambda>_ v. length (cv_observers v)) (gr_connections ?t)"
      using conn btm.replace_total[OF conn(2), of "\<lambda>_ v. length (cv_observers v)" connection view]
      by (simp add: connections_ok_def opt_charge_def)
    moreover have "length (gr_connections ?t) \<le> li_max_connections (gr_limits g)"
      using conn room by (auto simp: connections_ok_def length_bt_insert bt_contains_def)
    ultimately have "connections_ok ?t"
      using conn few by (simp add: connections_ok_def)
    then show ?thesis
      using ok by (simp add: graph_ok_def entities_ok_def routes_ok_def cells_ok_def capacities_ok_def registered_def covering_def[abs_def])
  qed
  then show ?thesis
    using ok by (simp add: set_connection_def attempt_def Let_def not_le split: sum.split)
qed

lemma remove_connection_ok:
  assumes ok: "graph_ok F g"
  shows "graph_ok F (snd (remove_connection tick connection g))"
proof -
  have conn: "connections_ok g" "bt_ok (gr_connections g)"
    using ok by (simp_all add: graph_ok_def connections_ok_def)
  have "graph_ok F (g\<lparr>gr_connections := bt_remove connection (gr_connections g), gr_observers := gr_observers g - length (cv_observers view)\<rparr>)"
    if "map_of (gr_connections g) connection = Some view" for view
  proof -
    let ?t = "g\<lparr>gr_connections := bt_remove connection (gr_connections g), gr_observers := gr_observers g - length (cv_observers view)\<rparr>"
    have "length (bt_remove connection (gr_connections g)) \<le> length (gr_connections g)"
      by simp
    then have "connections_ok ?t"
      using conn that btm.remove_total[OF conn(2), of "\<lambda>_ v. length (cv_observers v)" connection]
      unfolding connections_ok_def by (auto intro: order_trans simp del: length_bt_remove_le)
    then show ?thesis
      using ok by (simp add: graph_ok_def entities_ok_def routes_ok_def cells_ok_def capacities_ok_def registered_def covering_def[abs_def])
  qed
  then show ?thesis
    using ok by (simp add: remove_connection_def attempt_def split: sum.split option.split)
qed

lemma prepare_ok:
  assumes "graph_ok F g"
  shows "graph_ok F (snd (prepare frame tick policy g))"
proof -
  have "graph_ok F (g\<lparr>gr_last_frame := a, gr_last_tick := b, gr_last_policy := c, gr_prepare_calls := d\<rparr>)" for a b c d
    using assms by (simp add: graph_ok_def entities_ok_def routes_ok_def cells_ok_def connections_ok_def capacities_ok_def
      registered_def covering_def[abs_def])
  then show ?thesis
    using assms by (simp add: prepare_def attempt_def Let_def split: sum.split)
qed

section \<open>Runs\<close>

datatype 'f GraphOp =
    ApplyChange ServerTick "'f Change"
  | SetConnection "'f ConnectionAuthorizer" ServerTick ConnectionId "'f ConnectionView"
  | DropConnection ServerTick ConnectionId
  | PrepareFrame ReplicationFrame ServerTick PolicyRevision

fun graph_step :: "'f F64 \<Rightarrow> 'f GraphOp \<Rightarrow> 'f Graph \<Rightarrow> 'f Graph" where
  "graph_step F (ApplyChange tick change) g = snd (apply_change F tick change g)"
| "graph_step F (SetConnection authorize tick connection view) g = snd (set_connection F authorize tick connection view g)"
| "graph_step F (DropConnection tick connection) g = snd (remove_connection tick connection g)"
| "graph_step F (PrepareFrame frame tick policy) g = snd (prepare frame tick policy g)"

lemma graph_step_ok: "f64_zero_blind F \<Longrightarrow> graph_ok F g \<Longrightarrow> graph_ok F (graph_step F op g)"
  by (cases op) (simp_all add: apply_change_ok set_connection_ok remove_connection_ok prepare_ok)

interpretation graph_machine: guarded_machine "graph_step F" "\<lambda>g. f64_zero_blind F \<and> graph_ok F g" for F
  by unfold_locales (simp add: graph_step_ok)

lemma graph_new_ok: "graph_new F limits = Inr g \<Longrightarrow> graph_ok F g"
  by (auto simp: graph_new_def graph_ok_def entities_ok_def routes_ok_def cells_ok_def connections_ok_def capacities_ok_def
      registered_def covering_def index_exact_def split: if_splits)

lemma graph_reachable_ok:
  assumes "f64_zero_blind F" "graph_new F limits = Inr g0"
  shows "graph_ok F (fold (graph_step F) ops g0)"
  using graph_machine.run_inv[of F g0 ops] graph_new_ok[OF assms(2)] assms(1) by blast

lemma graph_step_limits: "gr_limits (graph_step F op g) = gr_limits g"
proof (cases op)
  case (ApplyChange tick change)
  have "gr_limits t = gr_limits g" if "upsert F e g = Inr t" for e t
    using that
  proof (cases rule: upsert_cases)
    case (index span)
    then show ?thesis
      by (auto simp: reindex_def Let_def add_indices_fields split: if_splits)
  qed (simp add: touch_entity_def)
  then show ?thesis
    using ApplyChange by (auto simp: apply_change_def committed_def attempt_def split: sum.split Change.split)
next
  case (DropConnection tick connection)
  then show ?thesis
    by (auto simp: remove_connection_def committed_def attempt_def split: sum.split option.split)
qed (auto simp: set_connection_def prepare_def committed_def attempt_def Let_def split: sum.split)

lemma graph_run_limits: "graph_new F limits = Inr g0 \<Longrightarrow> gr_limits (fold (graph_step F) ops g0) = limits"
proof -
  have "gr_limits (fold (graph_step F) ops g) = gr_limits g" for g
    by (induction ops arbitrary: g) (simp_all add: graph_step_limits)
  moreover assume "graph_new F limits = Inr g0"
  ultimately show ?thesis
    by (auto simp: graph_new_def split: if_splits)
qed

section \<open>Exact indices\<close>

lemma members_exact: "index_exact index R \<Longrightarrow> set (members index k) = R k"
  unfolding members_def by (rule index_exact_ids)

lemma cells_cover:
  assumes "cells_ok F g"
  shows "covering g c = {i. \<exists>e low high. map_of (gr_entities g) i = Some e \<and> footprint_span F (gr_limits g) e = Inr (Some (low, high))
    \<and> fst low \<le> fst c \<and> fst c \<le> fst high \<and> snd low \<le> snd c \<and> snd c \<le> snd high}"
proof -
  have "i \<in> covering g c \<longleftrightarrow> (\<exists>e low high. map_of (gr_entities g) i = Some e \<and> footprint_span F (gr_limits g) e = Inr (Some (low, high))
      \<and> c \<in> {fst low..fst high} \<times> {snd low..snd high})" for i
  proof (cases "map_of (gr_entities g) i")
    case None
    then show ?thesis
      using no_entity_no_footprint[OF assms None] by (simp add: covering_def)
  next
    case (Some e)
    obtain span where span: "footprint_span F (gr_limits g) e = Inr span" "map_of (gr_footprints g) i = Some (span_cells span)"
      using footprint_of_entity[OF assms Some] .
    show ?thesis
    proof (cases span)
      case None
      then show ?thesis
        using span Some by (simp add: covering_def span_cells_def)
    next
      case (Some s)
      then show ?thesis
        using span \<open>map_of (gr_entities g) i = Some e\<close> set_span_cells[of "fst s" "snd s"]
        by (cases s; cases "fst s") (auto simp: covering_def)
    qed
  qed
  then show ?thesis
    by (auto simp: mem_Times_iff)
qed

text \<open>
  C13: the graph's indices are exact.  After any sequence of changes, view installations and frames, the
  global list, the owner, semantic and grid lists and the refresh list hold exactly the registered
  entities with that route, owner, grant, influence rectangle or need for refresh; every entity index has one
  generation; and all sizes are within the configured limits.
\<close>

theorem graph_indices_exact:
  assumes "f64_zero_blind F" "graph_new F limits = Inr g0" "g = fold (graph_step F) ops g0"
  shows "set (gr_globals g) = {i. \<exists>e. map_of (gr_entities g) i = Some e \<and> ro_global (er_routes e)}
    \<and> (\<forall>c. set (members (gr_owners g) c) = {i. \<exists>e. map_of (gr_entities g) i = Some e \<and> ro_owner (er_routes e) = Some c})
    \<and> (\<forall>m. set (members (gr_semantics g) m) = {i. \<exists>e. map_of (gr_entities g) i = Some e \<and> m \<in> set (ro_semantic (er_routes e))})
    \<and> (\<forall>c. set (members (gr_cells g) c) = {i. \<exists>e low high. map_of (gr_entities g) i = Some e
        \<and> footprint_span F limits e = Inr (Some (low, high))
        \<and> fst low \<le> fst c \<and> fst c \<le> fst high \<and> snd low \<le> snd c \<and> snd c \<le> snd high})
    \<and> set (gr_dynamic g) = {i. \<exists>e. map_of (gr_entities g) i = Some e \<and> needs_refresh e}
    \<and> (\<forall>i e. map_of (gr_entities g) i = Some e \<longrightarrow> er_id e = i \<and> map_of (gr_indices g) (eid_index i) = Some i)
    \<and> length (gr_entities g) \<le> li_max_entities limits \<and> length (gr_cells g) \<le> li_max_cells limits
    \<and> gr_memberships g \<le> li_max_memberships limits \<and> gr_route_memberships g \<le> li_max_route_memberships limits
    \<and> length (gr_connections g) \<le> li_max_connections limits"
proof -
  have ok: "entities_ok g" "routes_ok g" "cells_ok F g" "connections_ok g" "capacities_ok g"
    using graph_reachable_ok[OF assms(1,2), of ops] assms(3) by (simp_all add: graph_ok_def)
  have lim: "gr_limits g = limits"
    unfolding assms(3) by (rule graph_run_limits[OF assms(2)])
  have "set (members (gr_cells g) c) = covering g c" for c
    using ok(3) by (intro members_exact) (simp add: cells_ok_def)
  then have cells: "set (members (gr_cells g) c) = {i. \<exists>e low high. map_of (gr_entities g) i = Some e
        \<and> footprint_span F limits e = Inr (Some (low, high))
        \<and> fst low \<le> fst c \<and> fst c \<le> fst high \<and> snd low \<le> snd c \<and> snd c \<le> snd high}" for c
    using cells_cover[OF ok(3)] lim by simp
  have own: "set (members (gr_owners g) c) = {i. \<exists>e. map_of (gr_entities g) i = Some e \<and> ro_owner (er_routes e) = Some c}"
    and sem: "set (members (gr_semantics g) m) = {i. \<exists>e. map_of (gr_entities g) i = Some e \<and> m \<in> set (ro_semantic (er_routes e))}" for c m
    using ok(2) members_exact[of "gr_owners g"] members_exact[of "gr_semantics g"] by (auto simp: routes_ok_def registered_def)
  have "er_id e = i \<and> map_of (gr_indices g) (eid_index i) = Some i" if "map_of (gr_entities g) i = Some e" for i e
    using ok(1) that unfolding entities_ok_def by blast
  then show ?thesis
    using ok(2,4,5) cells own sem lim by (simp add: routes_ok_def connections_ok_def capacities_ok_def registered_def)
qed

section \<open>A graph on integer coordinates\<close>

definition grid_f64 :: "int F64" where
  "grid_f64 = \<lparr>f_lit = (\<lambda>n. n), f_add = (+), f_sub = (-), f_mul = (*), f_div = (div),
    f_hypot = (\<lambda>a b. \<bar>a\<bar> + \<bar>b\<bar>), f_abs = abs, f_finite = (\<lambda>_. True), f_eq = (=), f_lt = (<), f_le = (\<le>),
    f_floor_i64 = (\<lambda>n. n)\<rparr>"

definition ex_limits :: "int Limits" where
  "ex_limits = \<lparr>li_cell_size = 32, li_leave_margin = 10, li_prefetch = 8, li_max_coordinate = 1000,
    li_max_entities = 4, li_max_cells_per_entity = 9, li_max_cells = 16, li_max_memberships = 16,
    li_max_route_memberships = 8, li_max_semantic_routes_per_entity = 2, li_max_connections = 2, li_max_observers = 2,
    li_max_semantic_grants = 2, li_max_ready_scenes = 2, li_max_candidates = 4, li_max_candidate_visits = 8,
    li_max_required = 4, li_max_dependency_edges = 4\<rparr>"

definition ex_routed :: "u64 \<Rightarrow> Routes \<Rightarrow> EntityId list \<Rightarrow> int EntityRegistration" where
  "ex_routed n routes dependencies = \<lparr>er_id = EntityId n 1, er_bounds = \<lparr>bd_center = (16, 0, 16), bd_radius = 1\<rparr>,
    er_cull_radius = 2, er_routes = routes, er_visibility = Public, er_dependencies = dependencies,
    er_state_version = 1, er_scene_revision = 1, er_dormant = False\<rparr>"

definition ex_global :: "int EntityRegistration" where
  "ex_global = ex_routed 1 \<lparr>ro_spatial = None, ro_global = True, ro_owner = None, ro_semantic = []\<rparr> [EntityId 2 1]"

definition ex_hidden :: "int EntityRegistration" where
  "ex_hidden = ex_routed 2 \<lparr>ro_spatial = None, ro_global = False, ro_owner = None, ro_semantic = []\<rparr> []"

definition ex_near :: "int EntityRegistration" where
  "ex_near = ex_routed 3 \<lparr>ro_spatial = Some Static, ro_global = False, ro_owner = None, ro_semantic = []\<rparr> []"

definition ex_graph0 :: "int Graph" where
  "ex_graph0 = \<lparr>gr_limits = ex_limits, gr_entities = [], gr_indices = [], gr_dynamic = [], gr_cells = [],
     gr_footprints = [], gr_globals = [], gr_owners = [], gr_semantics = [], gr_connections = [],
     gr_memberships = 0, gr_route_memberships = 0, gr_observers = 0, gr_world_revision = 0,
     gr_last_tick = None, gr_last_frame = None, gr_last_policy = None, gr_prepare_calls = 0\<rparr>"

lemma grid_zero_blind: "f64_zero_blind grid_f64"
  by (auto simp: f64_zero_blind_def f_same_def grid_f64_def)

lemma ex_graph_new: "graph_new grid_f64 ex_limits = Inr ex_graph0"
  by (simp add: graph_new_def limits_refused_def grid_f64_def ex_limits_def ex_graph0_def)

lemma ex_near_span: "footprint_span grid_f64 ex_limits ex_near = Inr (Some ((-1, -1), (1, 1)))"
  by (simp add: footprint_span_def valid_position_def influence_def cell_at_def grid_f64_def ex_limits_def ex_near_def ex_routed_def)

definition ex_view :: "int ConnectionView" where
  "ex_view = \<lparr>cv_observers = [\<lparr>og_position = (12, 0, 12), og_scene_revision = 1\<rparr>], cv_semantic_grants = [], cv_ready_scenes = [1]\<rparr>"

definition ex_graph_ops :: "int GraphOp list" where
  "ex_graph_ops = [ApplyChange 1 (Upsert ex_global), ApplyChange 1 (Upsert ex_hidden), ApplyChange 1 (Upsert ex_near),
    SetConnection (\<lambda>_ _. True) 1 7 ex_view]"

definition ex_graph :: "int Graph" where
  "ex_graph = ex_graph0\<lparr>gr_entities := [(EntityId 1 1, ex_global), (EntityId 2 1, ex_hidden), (EntityId 3 1, ex_near)],
     gr_indices := [(1, EntityId 1 1), (2, EntityId 2 1), (3, EntityId 3 1)],
     gr_cells := map (\<lambda>c. (c, [EntityId 3 1])) (span_cells (Some ((-1, -1), (1, 1)))),
     gr_footprints := [(EntityId 1 1, []), (EntityId 2 1, []), (EntityId 3 1, span_cells (Some ((-1, -1), (1, 1))))],
     gr_globals := [EntityId 1 1], gr_connections := [(7, ex_view)], gr_memberships := 9, gr_route_memberships := 1,
     gr_observers := 1, gr_world_revision := 4, gr_last_tick := Some 1\<rparr>"

lemmas ex_graph_defs = ex_global_def ex_hidden_def ex_near_def ex_routed_def ex_limits_def grid_f64_def ex_graph0_def ex_view_def

lemmas graph_eval = apply_change_def upsert_def validate_tick_def checked_add_def footprint_span_def valid_position_def influence_def
  cell_at_def reindex_def freed_cells_def add_indices_def remove_indices_def route_count_def needs_refresh_def
  committed_def Let_def less_EntityId_def entity_tuple_def bt_contains_def add_member_def

lemma ex_cells: "span_cells (Some ((-1, -1), (1, 1))) =
  [(-1, -1), (-1, 0), (-1, 1), (0, -1), (0, 0), (0, 1), (1, -1), (1, 0), (1, 1)]" "span_cells None = []"
  by code_simp+

lemma ex_graph_1:
  "graph_step grid_f64 (ApplyChange 1 (Upsert ex_global)) ex_graph0 = ex_graph0\<lparr>gr_entities := [(EntityId 1 1, ex_global)],
     gr_indices := [(1, EntityId 1 1)], gr_footprints := [(EntityId 1 1, [])], gr_globals := [EntityId 1 1],
     gr_route_memberships := 1, gr_world_revision := 1, gr_last_tick := Some 1\<rparr>"
  by (simp add: ex_graph_defs graph_eval ex_cells)

lemma ex_graph_2:
  "graph_step grid_f64 (ApplyChange 1 (Upsert ex_hidden)) (graph_step grid_f64 (ApplyChange 1 (Upsert ex_global)) ex_graph0) =
   ex_graph0\<lparr>gr_entities := [(EntityId 1 1, ex_global), (EntityId 2 1, ex_hidden)],
     gr_indices := [(1, EntityId 1 1), (2, EntityId 2 1)], gr_footprints := [(EntityId 1 1, []), (EntityId 2 1, [])],
     gr_globals := [EntityId 1 1], gr_route_memberships := 1, gr_world_revision := 2, gr_last_tick := Some 1\<rparr>"
  unfolding ex_graph_1 by (simp add: ex_graph_defs graph_eval ex_cells)

lemma ex_graph_3:
  "graph_step grid_f64 (ApplyChange 1 (Upsert ex_near)) (ex_graph0\<lparr>gr_entities := [(EntityId 1 1, ex_global), (EntityId 2 1, ex_hidden)],
     gr_indices := [(1, EntityId 1 1), (2, EntityId 2 1)], gr_footprints := [(EntityId 1 1, []), (EntityId 2 1, [])],
     gr_globals := [EntityId 1 1], gr_route_memberships := 1, gr_world_revision := 2, gr_last_tick := Some 1\<rparr>) =
   ex_graph\<lparr>gr_connections := [], gr_observers := 0, gr_world_revision := 3\<rparr>"
proof -
  have "er_id ex_near = EntityId 3 1" "er_routes ex_near = \<lparr>ro_spatial = Some Static, ro_global = False, ro_owner = None, ro_semantic = []\<rparr>"
    "er_state_version ex_near = 1" "er_dependencies ex_near = []"
    by (simp_all add: ex_near_def ex_routed_def)
  moreover have "gr_limits ex_graph0 = ex_limits" "gr_dynamic ex_graph0 = []" "gr_cells ex_graph0 = []" "gr_owners ex_graph0 = []"
    "gr_semantics ex_graph0 = []" "gr_memberships ex_graph0 = 0" "gr_connections ex_graph0 = []" "gr_observers ex_graph0 = 0"
    by (simp_all add: ex_graph0_def)
  moreover have "li_max_entities ex_limits = 4" "li_max_memberships ex_limits = 16" "li_max_cells ex_limits = 16"
    "li_max_route_memberships ex_limits = 8" "li_max_required ex_limits = 4" "li_max_semantic_routes_per_entity ex_limits = 2"
    by (simp_all add: ex_limits_def)
  ultimately show ?thesis
    by (simp add: ex_near_span ex_cells ex_graph_def apply_change_def upsert_def validate_tick_def checked_add_def reindex_def freed_cells_def
        add_indices_def remove_indices_def route_count_def needs_refresh_def committed_def Let_def less_EntityId_def entity_tuple_def
        bt_contains_def add_member_def)
qed

lemma ex_graph_run: "ex_graph = fold (graph_step grid_f64) ex_graph_ops ex_graph0"
proof -
  have "graph_step grid_f64 (SetConnection (\<lambda>_ _. True) 1 7 ex_view) (ex_graph\<lparr>gr_connections := [], gr_observers := 0, gr_world_revision := 3\<rparr>)
      = ex_graph"
    by (simp add: set_connection_def validate_tick_def checked_add_def committed_def ex_graph_def ex_graph0_def ex_limits_def ex_view_def
        grid_f64_def valid_position_def bt_contains_def)
  then show ?thesis
    unfolding ex_graph_ops_def fold_simps comp_def id_apply ex_graph_2 ex_graph_3 by simp
qed

theorem graph_indices_exact_witness:
  "f64_zero_blind grid_f64 \<and> graph_new grid_f64 ex_limits = Inr ex_graph0
    \<and> EntityId 1 1 \<in> set (gr_globals ex_graph) \<and> EntityId 3 1 \<in> set (members (gr_cells ex_graph) (0, 0))"
proof -
  have "map_of (gr_entities ex_graph) (EntityId 1 1) = Some ex_global" "map_of (gr_entities ex_graph) (EntityId 3 1) = Some ex_near"
    by (simp_all add: ex_graph_def)
  moreover have "ro_global (er_routes ex_global)"
    by (simp add: ex_global_def ex_routed_def)
  ultimately show ?thesis
    using graph_indices_exact[OF grid_zero_blind ex_graph_new ex_graph_run] grid_zero_blind ex_graph_new ex_near_span by force
qed

end
