(* ===== verification/Net_Gather_Props.thy ===== *)
theory Net_Gather_Props
  imports Net_Gather Net_Graph_Props
begin

text \<open>
  Gathering discloses exactly what routing and policy allow, and a prediction group is closed under
  dependencies.
\<close>

unbundle bit_operations_syntax

section \<open>Candidates\<close>

lemma add_candidate_found:
  assumes "bt_ok found" "add_candidate l reason i (found, visits) = Inr (found', visits')"
  shows "bt_ok found' \<and> map_of found' = (map_of found)(i \<mapsto> (case map_of found i of None \<Rightarrow> reason | Some r \<Rightarrow> r OR reason))"
  using assms by (auto simp: add_candidate_def reasons_insert_def split: if_splits option.splits)

lemma add_candidates_found:
  assumes "bt_ok found" "add_candidates l reason ids (found, visits) = Inr (found', visits')"
  shows "bt_ok found' \<and> map_of found' j =
    (if j \<in> set ids then Some (case map_of found j of None \<Rightarrow> reason | Some r \<Rightarrow> r OR reason) else map_of found j)"
  using assms
proof (induction ids arbitrary: found visits)
  case (Cons i ids)
  then obtain mid v where mid: "add_candidate l reason i (found, visits) = Inr (mid, v)"
      "add_candidates l reason ids (mid, v) = Inr (found', visits')"
    by (auto simp: and_then_Inr_iff)
  note step = add_candidate_found[OF Cons.prems(1) mid(1)]
  note rest = Cons.IH[OF conjunct1[OF step] mid(2)]
  show ?case
    using step rest by (auto split: option.splits simp: or.assoc)
qed simp

lemma collect_candidates_found:
  assumes "collect_candidates F connection view g = Inr (found, visits)"
  defines "a \<equiv> \<lambda>i. i \<in> set (gr_globals g)" and "b \<equiv> \<lambda>i. i \<in> set (members (gr_owners g) connection)"
    and "c \<equiv> \<lambda>i. i \<in> set (semantic_ids view g)" and "d \<equiv> \<lambda>i. i \<in> set (observed_ids F view g)"
  shows "bt_ok found" "map_of found i = (if a i \<or> b i \<or> c i \<or> d i
    then Some ((if a i then GLOBAL else 0) OR (if b i then OWNER else 0) OR (if c i then SEMANTIC else 0) OR (if d i then SPATIAL else 0)) else None)"
proof -
  obtain f1 v1 f2 v2 f3 v3 where s:
      "add_candidates (gr_limits g) GLOBAL (gr_globals g) ([], 0) = Inr (f1, v1)"
      "add_candidates (gr_limits g) OWNER (members (gr_owners g) connection) (f1, v1) = Inr (f2, v2)"
      "add_candidates (gr_limits g) SEMANTIC (semantic_ids view g) (f2, v2) = Inr (f3, v3)"
      "add_candidates (gr_limits g) SPATIAL (observed_ids F view g) (f3, v3) = Inr (found, visits)"
    using assms(1) by (auto simp: collect_candidates_def and_then_Inr_iff)
  note f1 = add_candidates_found[OF bt_ok_Nil s(1)]
  note f2 = add_candidates_found[OF conjunct1[OF f1] s(2)]
  note f3 = add_candidates_found[OF conjunct1[OF f2] s(3)]
  note f4 = add_candidates_found[OF conjunct1[OF f3] s(4)]
  show "bt_ok found"
    using f4 by blast
  have "map_of f1 i = (if a i then Some GLOBAL else None)"
    using f1[of i] by (simp add: a_def)
  moreover have "map_of f2 i = (if b i then Some (case map_of f1 i of None \<Rightarrow> OWNER | Some r \<Rightarrow> r OR OWNER) else map_of f1 i)"
      "map_of f3 i = (if c i then Some (case map_of f2 i of None \<Rightarrow> SEMANTIC | Some r \<Rightarrow> r OR SEMANTIC) else map_of f2 i)"
      "map_of found i = (if d i then Some (case map_of f3 i of None \<Rightarrow> SPATIAL | Some r \<Rightarrow> r OR SPATIAL) else map_of f3 i)"
    using f2[of i] f3[of i] f4[of i] by (simp_all add: b_def c_def d_def)
  ultimately show "map_of found i = (if a i \<or> b i \<or> c i \<or> d i
    then Some ((if a i then GLOBAL else 0) OR (if b i then OWNER else 0) OR (if c i then SEMANTIC else 0) OR (if d i then SPATIAL else 0)) else None)"
    by (simp add: or.assoc)
qed

section \<open>Eligible entries\<close>

lemma judge_candidates_found:
  assumes "bt_ok found" "judge_candidates judge found = Inr entries"
    and "\<And>i r. (i, r) \<in> set found \<Longrightarrow> judge i r = Inr (map_option (Pair i) (verdict i r))"
  shows "bt_ok entries \<and> fst ` set entries \<subseteq> fst ` set found \<and> length entries \<le> length found
    \<and> map_of entries i = Option.bind (map_of found i) (verdict i)"
  using assms
proof (induction found arbitrary: entries)
  case (Cons p found)
  obtain j r where p: "p = (j, r)"
    by (cases p)
  have here: "judge j r = Inr (map_option (Pair j) (verdict j r))"
    using Cons.prems(3) p by simp
  obtain rest where rest: "judge_candidates judge found = Inr rest"
      "entries = (case verdict j r of None \<Rightarrow> rest | Some x \<Rightarrow> (j, x) # rest)"
    using Cons.prems(2) p here by (auto simp: and_then_Inr_iff split: option.splits)
  have ok: "bt_ok found" and above: "\<forall>x \<in> set found. j < fst x"
    using Cons.prems(1) p by (simp_all add: bt_ok_Cons)
  have ih: "bt_ok rest" "fst ` set rest \<subseteq> fst ` set found" "length rest \<le> length found"
      "map_of rest i = Option.bind (map_of found i) (verdict i)"
    using Cons.IH[OF ok rest(1)] Cons.prems(3) by auto
  have "map_of found j = None"
    using above by (auto simp: map_of_eq_None_iff)
  moreover have "\<forall>y \<in> set rest. j < fst y"
    using ih(2) above by fastforce
  then have "bt_ok ((j, x) # rest)" for x
    using ih(1) by (simp add: bt_ok_Cons)
  ultimately show ?case
    using ih rest(2) p by (auto split: option.splits)
qed simp

text \<open>What makes a registered entity a candidate of a connection.\<close>

definition covers :: "'f F64 \<Rightarrow> 'f Limits \<Rightarrow> 'f EntityRegistration \<Rightarrow> Cell \<Rightarrow> bool" where
  "covers F l e c \<longleftrightarrow> (\<exists>low high. footprint_span F l e = Inr (Some (low, high))
    \<and> fst low \<le> fst c \<and> fst c \<le> fst high \<and> snd low \<le> snd c \<and> snd c \<le> snd high)"

definition in_cells :: "'f F64 \<Rightarrow> 'f Graph \<Rightarrow> 'f ConnectionView \<Rightarrow> 'f EntityRegistration \<Rightarrow> bool" where
  "in_cells F g view e \<longleftrightarrow> (\<exists>ob \<in> set (cv_observers view). covers F (gr_limits g) e (cell_of F (gr_limits g) (og_position ob)))"

definition granted :: "'f ConnectionView \<Rightarrow> 'f EntityRegistration \<Rightarrow> bool" where
  "granted view e \<longleftrightarrow> (\<exists>m \<in> set (cv_semantic_grants view). m \<in> set (ro_semantic (er_routes e)))"

definition routed :: "'f F64 \<Rightarrow> 'f Graph \<Rightarrow> ConnectionId \<Rightarrow> 'f ConnectionView \<Rightarrow> bool \<Rightarrow> 'f EntityRegistration \<Rightarrow> bool" where
  "routed F g connection view previous e \<longleftrightarrow> ro_global (er_routes e) \<or> ro_owner (er_routes e) = Some connection \<or> granted view e
    \<or> in_cells F g view e \<and> spatially_eligible F (gr_limits g) e view previous"

lemma candidate_sources:
  assumes ok: "graph_ok F g"
  shows "i \<in> set (gr_globals g) \<longleftrightarrow> (\<exists>e. map_of (gr_entities g) i = Some e \<and> ro_global (er_routes e))"
    "i \<in> set (members (gr_owners g) c) \<longleftrightarrow> (\<exists>e. map_of (gr_entities g) i = Some e \<and> ro_owner (er_routes e) = Some c)"
    "i \<in> set (semantic_ids view g) \<longleftrightarrow> (\<exists>e. map_of (gr_entities g) i = Some e \<and> granted view e)"
    "i \<in> set (observed_ids F view g) \<longleftrightarrow> (\<exists>e. map_of (gr_entities g) i = Some e \<and> in_cells F g view e)"
proof -
  have parts: "routes_ok g" "cells_ok F g"
    using ok by (simp_all add: graph_ok_def)
  show "i \<in> set (gr_globals g) \<longleftrightarrow> (\<exists>e. map_of (gr_entities g) i = Some e \<and> ro_global (er_routes e))"
    using parts(1) by (simp add: routes_ok_def registered_def)
  have "set (members (gr_owners g) c) = registered g (\<lambda>e. ro_owner (er_routes e) = Some c)" for c
    using parts(1) by (intro members_exact) (simp add: routes_ok_def)
  then show "i \<in> set (members (gr_owners g) c) \<longleftrightarrow> (\<exists>e. map_of (gr_entities g) i = Some e \<and> ro_owner (er_routes e) = Some c)"
    by (simp add: registered_def)
  have "set (members (gr_semantics g) m) = registered g (\<lambda>e. m \<in> set (ro_semantic (er_routes e)))" for m
    using parts(1) by (intro members_exact) (simp add: routes_ok_def)
  then show "i \<in> set (semantic_ids view g) \<longleftrightarrow> (\<exists>e. map_of (gr_entities g) i = Some e \<and> granted view e)"
    by (auto simp: semantic_ids_def granted_def registered_def)
  have "set (members (gr_cells g) c) = covering g c" for c
    using parts(2) by (intro members_exact) (simp add: cells_ok_def)
  then show "i \<in> set (observed_ids F view g) \<longleftrightarrow> (\<exists>e. map_of (gr_entities g) i = Some e \<and> in_cells F g view e)"
    unfolding observed_ids_def in_cells_def covers_def cells_cover[OF parts(2)] by auto
qed

lemma reason_bits_kept:
  fixes a b c d el :: bool
  defines "bits \<equiv> (if a then GLOBAL else 0) OR (if b then OWNER else 0) OR (if c then SEMANTIC else 0) OR (if d then SPATIAL else 0)"
  shows "(if reasons_contains bits SPATIAL \<and> \<not> el then without_spatial bits else bits) =
      (if a then GLOBAL else 0) OR (if b then OWNER else 0) OR (if c then SEMANTIC else 0) OR (if d \<and> el then SPATIAL else 0)"
    and "(if a then GLOBAL else 0) OR (if b then OWNER else 0) OR (if c then SEMANTIC else 0) OR (if d \<and> el then SPATIAL else 0) = 0
      \<longleftrightarrow> \<not> (a \<or> b \<or> c \<or> d \<and> el)"
  unfolding bits_def reasons_contains_def without_spatial_def GLOBAL_def OWNER_def SEMANTIC_def SPATIAL_def
  by (cases a; cases b; cases c; cases d; cases el; simp)+

definition kept_reasons :: "'f F64 \<Rightarrow> 'f Graph \<Rightarrow> ConnectionId \<Rightarrow> 'f ConnectionView \<Rightarrow> bool \<Rightarrow> 'f EntityRegistration \<Rightarrow> EligibilityReasons" where
  "kept_reasons F g connection view previous e =
    (if ro_global (er_routes e) then GLOBAL else 0) OR (if ro_owner (er_routes e) = Some connection then OWNER else 0)
    OR (if granted view e then SEMANTIC else 0)
    OR (if in_cells F g view e \<and> spatially_eligible F (gr_limits g) e view previous then SPATIAL else 0)"

definition disclosed :: "'f F64 \<Rightarrow> 'f Graph \<Rightarrow> ConnectionId \<Rightarrow> 'f ConnectionView \<Rightarrow> EntityId list \<Rightarrow> 'f DisclosurePolicy \<Rightarrow> EntityId \<Rightarrow> EligibleEntry option" where
  "disclosed F g connection view previous policy i = Option.bind (map_of (gr_entities g) i) (\<lambda>e.
    Option.bind (permitted connection view e policy) (\<lambda>representation.
      if routed F g connection view (i \<in> set previous) e
      then Some (eligible_entry e representation (kept_reasons F g connection view (i \<in> set previous) e)) else None))"

lemma eligible_exact:
  assumes ok: "graph_ok F g" and found: "collect_candidates F connection view g = Inr (found, visits)"
  obtains entries where "judge_candidates (judge_candidate F g connection view previous policy) found = Inr entries"
    "bt_ok entries" "\<And>i. map_of entries i = disclosed F g connection view previous policy i" "length entries \<le> length found"
proof -
  let ?judge = "judge_candidate F g connection view previous policy"
  note cand = collect_candidates_found[OF found, unfolded candidate_sources[OF ok]]
  define verdict where "verdict i r = Option.bind (map_of (gr_entities g) i) (\<lambda>e. Option.bind (permitted connection view e policy) (\<lambda>representation.
      let kept = (if reasons_contains r SPATIAL \<and> \<not> spatially_eligible F (gr_limits g) e view (i \<in> set previous) then without_spatial r else r) in
      if kept \<noteq> 0 then Some (eligible_entry e representation kept) else None))" for i r
  have known: "map_of (gr_entities g) i \<noteq> None" if "(i, r) \<in> set found" for i r
    using bt_keys_unique[OF cand(1) that] cand(2)[of i] by (auto split: if_splits)
  have judge: "?judge i r = Inr (map_option (Pair i) (verdict i r))" if "(i, r) \<in> set found" for i r
    using known[OF that] by (auto simp: judge_candidate_def verdict_def Let_def split: option.splits)
  have total: "\<exists>entries. judge_candidates ?judge m = Inr entries" if "set m \<subseteq> set found" for m
    using that by (induction m) (auto simp: judge)
  then obtain entries where e: "judge_candidates ?judge found = Inr entries"
    by blast
  note res = judge_candidates_found[OF cand(1) e judge]
  have "Option.bind (map_of found i) (verdict i) = disclosed F g connection view previous policy i" for i
  proof (cases "map_of (gr_entities g) i")
    case (Some e)
    let ?a = "ro_global (er_routes e)" and ?b = "ro_owner (er_routes e) = Some connection" and ?c = "granted view e"
      and ?d = "in_cells F g view e" and ?el = "spatially_eligible F (gr_limits g) e view (i \<in> set previous)"
    have "map_of found i = (if ?a \<or> ?b \<or> ?c \<or> ?d then Some ((if ?a then GLOBAL else 0) OR (if ?b then OWNER else 0)
        OR (if ?c then SEMANTIC else 0) OR (if ?d then SPATIAL else 0)) else None)"
      using cand(2)[of i] Some by simp
    moreover have "kept_reasons F g connection view (i \<in> set previous) e = 0 \<longleftrightarrow> \<not> routed F g connection view (i \<in> set previous) e"
      unfolding kept_reasons_def routed_def by (rule reason_bits_kept(2))
    moreover have "?a \<or> ?b \<or> ?c \<or> ?d" if "routed F g connection view (i \<in> set previous) e"
      using that unfolding routed_def by blast
    moreover note reason_bits_kept(1)[of ?a ?b ?c ?d ?el, folded kept_reasons_def]
    ultimately show ?thesis
      using Some by (cases "permitted connection view e policy") (simp_all add: verdict_def disclosed_def Let_def)
  qed (use cand(2)[of i] in \<open>simp add: disclosed_def\<close>)
  then show thesis
    using that[OF e] res by metis
qed

section \<open>The prediction group\<close>

definition depends :: "'f Graph \<Rightarrow> EntityId \<Rightarrow> EntityId \<Rightarrow> bool" where
  "depends g i t \<longleftrightarrow> (\<exists>e. map_of (gr_entities g) i = Some e \<and> t \<in> set (er_dependencies e))"

definition from_roots :: "'f Graph \<Rightarrow> EntityId list \<Rightarrow> EntityId \<Rightarrow> bool" where
  "from_roots g roots i \<longleftrightarrow> (\<exists>r \<in> set roots. (depends g)\<^sup>*\<^sup>* r i)"

text \<open>One member of a group whose remaining dependencies are in \<open>more\<close>.\<close>

definition member_ok ::
  "'f Graph \<Rightarrow> ConnectionId \<Rightarrow> 'f ConnectionView \<Rightarrow> 'f DisclosurePolicy \<Rightarrow> EntityId set \<Rightarrow> EntityId \<Rightarrow> EligibleEntry \<Rightarrow> bool" where
  "member_ok g connection view policy closure i x \<longleftrightarrow> (\<exists>e representation. map_of (gr_entities g) i = Some e
    \<and> permitted connection view e policy = Some representation \<and> rg_prediction_allowed representation
    \<and> x = eligible_entry e representation REQUIRED \<and> set (er_dependencies e) \<subseteq> closure
    \<and> (\<forall>t \<in> set (er_dependencies e). dp_permits_dependency policy connection i t))"

lemma member_ok_mono: "member_ok g connection view policy A i x \<Longrightarrow> A \<subseteq> B \<Longrightarrow> member_ok g connection view policy B i x"
  unfolding member_ok_def by blast

lemma push_dependencies_cases:
  assumes "push_dependencies l permits visited (t # ts) (pending, edges) = Inr q"
  obtains (new) "permits t" "\<not> bt_contains t visited" "length visited + length pending < li_max_required l"
      "push_dependencies l permits visited ts (bs_insert t pending, edges + 1) = Inr q"
  | (known) "permits t" "bt_contains t visited \<or> t \<in> set pending"
      "push_dependencies l permits visited ts (pending, edges + 1) = Inr q"
  using assms by (simp split: if_splits)

lemma push_dependencies_done:
  assumes "push_dependencies l permits visited ts (pending, edges) = Inr (pending', edges')"
  shows "set pending' \<union> dom (map_of visited) = set pending \<union> set ts \<union> dom (map_of visited)"
    and "\<forall>t \<in> set ts. permits t"
    and "length visited + length pending \<le> li_max_required l \<Longrightarrow> length visited + length pending' \<le> li_max_required l"
proof -
  have "set pending' \<union> dom (map_of visited) = set pending \<union> set ts \<union> dom (map_of visited) \<and> (\<forall>t \<in> set ts. permits t)
    \<and> (length visited + length pending \<le> li_max_required l \<longrightarrow> length visited + length pending' \<le> li_max_required l)"
    using assms
  proof (induction ts arbitrary: pending edges)
    case (Cons t ts)
    from Cons.prems show ?case
    proof (cases rule: push_dependencies_cases)
      case new
      have "length visited + length (bs_insert t pending) \<le> li_max_required l"
        using new(3) length_bs_insert[of t pending] by linarith
      then show ?thesis
        using Cons.IH[OF new(4)] new(1) by auto
    next
      case known
      have "t \<in> set pending \<union> dom (map_of visited)"
        using known(2) by (auto simp: bt_contains_def)
      then show ?thesis
        using Cons.IH[OF known(3)] known(1) by auto
    qed
  qed simp
  then show "set pending' \<union> dom (map_of visited) = set pending \<union> set ts \<union> dom (map_of visited)" "\<forall>t \<in> set ts. permits t"
    "length visited + length pending \<le> li_max_required l \<Longrightarrow> length visited + length pending' \<le> li_max_required l"
    by blast+
qed

definition group_ok where
  "group_ok g connection view policy roots pending visited \<longleftrightarrow> bt_ok visited
    \<and> (\<forall>i x. map_of visited i = Some x \<longrightarrow> member_ok g connection view policy (dom (map_of visited) \<union> set pending) i x)
    \<and> set roots \<subseteq> dom (map_of visited) \<union> set pending
    \<and> (\<forall>i \<in> dom (map_of visited) \<union> set pending. from_roots g roots i)
    \<and> length visited + length pending \<le> li_max_required (gr_limits g)"

lemma group_step:
  assumes ok: "group_ok g connection view policy roots (i # pending) visited"
    and e: "map_of (gr_entities g) i = Some e" "permitted connection view e policy = Some rep" "rg_prediction_allowed rep"
    and push: "push_dependencies (gr_limits g) (dp_permits_dependency policy connection i)
      (bt_insert i (eligible_entry e rep REQUIRED) visited) (er_dependencies e) (pending, edges) = Inr (pending', edges')"
  shows "group_ok g connection view policy roots pending' (bt_insert i (eligible_entry e rep REQUIRED) visited)"
proof -
  let ?v = "bt_insert i (eligible_entry e rep REQUIRED) visited"
  have bt: "bt_ok visited"
    using ok by (simp add: group_ok_def)
  have dom: "dom (map_of ?v) = insert i (dom (map_of visited))"
    using bt by simp
  note p = push_dependencies_done[OF push]
  have all: "dom (map_of ?v) \<union> set pending' = insert i (dom (map_of visited) \<union> set pending) \<union> set (er_dependencies e)"
    using p(1) dom by auto
  have "member_ok g connection view policy (dom (map_of ?v) \<union> set pending') j x" if "map_of ?v j = Some x" for j x
  proof (cases "j = i")
    case True
    then show ?thesis
      using that bt e p(2) all by (auto simp: member_ok_def)
  next
    case False
    then have "member_ok g connection view policy (dom (map_of visited) \<union> set (i # pending)) j x"
      using that bt ok by (simp add: group_ok_def)
    then show ?thesis
      by (rule member_ok_mono) (use all in auto)
  qed
  moreover have "from_roots g roots t" if "t \<in> set (er_dependencies e)" for t
  proof -
    obtain r where "r \<in> set roots" "(depends g)\<^sup>*\<^sup>* r i"
      using ok unfolding group_ok_def from_roots_def by auto
    moreover have "depends g i t"
      using e(1) that by (auto simp: depends_def)
    ultimately show ?thesis
      unfolding from_roots_def by (meson rtranclp.rtrancl_into_rtrancl)
  qed
  moreover have "length ?v + length pending' \<le> li_max_required (gr_limits g)"
    using p(3) ok length_bt_insert_le[OF bt, of i "eligible_entry e rep REQUIRED"] by (simp add: group_ok_def)
  ultimately show ?thesis
    using bt ok unfolding group_ok_def all by auto
qed

lemma required_loop_closed:
  assumes "required_loop g connection view policy pending visited edges = Inr result"
    and "group_ok g connection view policy roots pending visited"
  shows "group_ok g connection view policy roots [] result"
  using assms
proof (induction g connection view policy pending visited edges rule: required_loop.induct)
  case (2 g connection view policy i pending visited edges)
  from "2.prems"(1) obtain e rep pending' edges' where e: "map_of (gr_entities g) i = Some e"
      "permitted connection view e policy = Some rep" "rg_prediction_allowed rep"
    and push: "push_dependencies (gr_limits g) (dp_permits_dependency policy connection i)
      (bt_insert i (eligible_entry e rep REQUIRED) visited) (er_dependencies e) (pending, edges) = Inr (pending', edges')"
    and rest: "required_loop g connection view policy pending' (bt_insert i (eligible_entry e rep REQUIRED) visited) edges' = Inr result"
    by (auto simp: required_loop.simps(2) split: option.splits if_splits sum.splits)
  show ?case
    using "2.IH"[OF e(1,2) _ push refl rest group_step[OF "2.prems"(2) e push]] e(3) by simp
qed simp

lemma required_closed:
  assumes "required g connection view roots policy = Inr result"
  shows "group_ok g connection view policy roots [] result"
proof -
  have "group_ok g connection view policy roots roots []"
    using assms by (auto simp: required_def group_ok_def from_roots_def split: if_splits)
  then show ?thesis
    using assms required_loop_closed[of g connection view policy roots "[]" 0 result roots] by (simp add: required_def split: if_splits)
qed

lemma merge_required_one:
  assumes "bt_ok entries"
  shows "bt_ok (merge_required (i, x) entries) \<and> map_of (merge_required (i, x) entries) =
    (map_of entries)(i \<mapsto> (case map_of entries i of None \<Rightarrow> x | Some y \<Rightarrow> y\<lparr>ee_reasons := ee_reasons y OR REQUIRED\<rparr>))"
  using assms by (auto simp: merge_required_def bt_contains_def reasons_insert_def fun_eq_iff)

lemma merge_required_all:
  assumes "bt_ok entries" "bt_ok closed"
  shows "bt_ok (fold merge_required closed entries) \<and> map_of (fold merge_required closed entries) j = (case map_of closed j of
     None \<Rightarrow> map_of entries j
   | Some x \<Rightarrow> Some (case map_of entries j of None \<Rightarrow> x | Some y \<Rightarrow> y\<lparr>ee_reasons := ee_reasons y OR REQUIRED\<rparr>))"
  using assms
proof (induction closed arbitrary: entries)
  case (Cons p closed)
  obtain i x where p: "p = (i, x)"
    by (cases p)
  note one = merge_required_one[OF Cons.prems(1), of i x]
  have "bt_ok closed" "map_of closed i = None"
    using Cons.prems(2) p by (auto simp: bt_ok_Cons map_of_eq_None_iff)
  then show ?case
    using Cons.IH[OF conjunct1[OF one]] one p by (auto split: option.splits)
qed simp

definition admitted :: "PredictionAdmission \<Rightarrow> EntityId set" where
  "admitted a = (case a of Admitted ms \<Rightarrow> set ms | _ \<Rightarrow> {})"

lemma admit_prediction_cases:
  assumes "admit_prediction g connection view roots policy entries = (prediction, result)"
  obtains (none) "admitted prediction = {}" "result = entries" "\<nexists>ms. prediction = Admitted ms"
  | (closed) closed where "required g connection view roots policy = Inr closed" "prediction = Admitted (map fst closed)"
      "result = fold merge_required closed entries"
  using assms by (auto simp: admit_prediction_def admitted_def Let_def split: if_splits sum.splits)

lemma gather_cases:
  assumes "gather F connection previous roots policy p = Inr es"
  obtains view found visits eligible where "map_of (gr_connections (pg_graph p)) connection = Some view"
    "collect_candidates F connection view (pg_graph p) = Inr (found, visits)"
    "judge_candidates (judge_candidate F (pg_graph p) connection view previous policy) found = Inr eligible"
    "admit_prediction (pg_graph p) connection view roots policy eligible = (es_prediction es, es_entries es)"
proof -
  let ?g = "pg_graph p"
  obtain view where view: "map_of (gr_connections ?g) connection = Some view"
    using assms by (cases "map_of (gr_connections ?g) connection") (simp_all add: gather_def Let_def split: if_splits)
  then obtain found visits where found: "collect_candidates F connection view ?g = Inr (found, visits)"
    using assms by (cases "collect_candidates F connection view ?g") (auto simp: gather_def Let_def split: if_splits)
  then obtain eligible where eligible: "judge_candidates (judge_candidate F ?g connection view previous policy) found = Inr eligible"
    using assms view
    by (cases "judge_candidates (judge_candidate F ?g connection view previous policy) found") (auto simp: gather_def Let_def split: if_splits)
  have "admit_prediction ?g connection view roots policy eligible = (es_prediction es, es_entries es)"
    using assms view found eligible
    by (cases "admit_prediction ?g connection view roots policy eligible") (auto simp: gather_def Let_def split: if_splits)
  then show thesis
    using that view found eligible by blast
qed

lemma prepared_ok:
  assumes "f64_zero_blind F" "graph_new F limits = Inr g0" "prepare frame tick revision (fold (graph_step F) ops g0) = (Inr p, g)"
  shows "graph_ok F g" "pg_graph p = g"
  using prepare_ok[OF graph_reachable_ok[OF assms(1,2)], of frame tick revision ops] assms(3)
  by (auto simp: prepare_def Let_def attempt_def split: if_splits sum.splits)


definition gather_spec where
  "gather_spec F g connection view previous roots policy es \<longleftrightarrow>
    (\<forall>i. i \<notin> admitted (es_prediction es) \<longrightarrow> map_of (es_entries es) i = disclosed F g connection view previous policy i)
    \<and> (\<forall>i. i \<in> admitted (es_prediction es) \<longrightarrow> (\<exists>x. member_ok g connection view policy (admitted (es_prediction es)) i x
      \<and> map_of (es_entries es) i = Some (case disclosed F g connection view previous policy i of
        None \<Rightarrow> x | Some y \<Rightarrow> y\<lparr>ee_reasons := ee_reasons y OR REQUIRED\<rparr>)))
    \<and> (\<forall>ms. es_prediction es = Admitted ms \<longrightarrow> set roots \<subseteq> set ms \<and> (\<forall>i \<in> set ms. from_roots g roots i)
      \<and> length ms \<le> li_max_required (gr_limits g))"

lemma gathered_entries:
  assumes ok: "graph_ok F (pg_graph p)" and v: "gather F connection previous roots policy p = Inr es"
  obtains view where "map_of (gr_connections (pg_graph p)) connection = Some view"
    "gather_spec F (pg_graph p) connection view previous roots policy es"
proof -
  obtain view found visits eligible where g: "map_of (gr_connections (pg_graph p)) connection = Some view"
    "collect_candidates F connection view (pg_graph p) = Inr (found, visits)"
    "judge_candidates (judge_candidate F (pg_graph p) connection view previous policy) found = Inr eligible"
    "admit_prediction (pg_graph p) connection view roots policy eligible = (es_prediction es, es_entries es)"
    using gather_cases[OF v] .
  have el: "bt_ok eligible" "map_of eligible i = disclosed F (pg_graph p) connection view previous policy i" for i
    using eligible_exact[OF ok g(2), of previous policy] g(3) by (metis Inr_inject)+
  from g(4) show thesis
  proof (cases rule: admit_prediction_cases)
    case none
    then show thesis
      using that[OF g(1)] el(2) by (auto simp: gather_spec_def)
  next
    case (closed closed)
    have grp: "group_ok (pg_graph p) connection view policy roots [] closed"
      using required_closed[OF closed(1)] .
    then have bt: "bt_ok closed"
      by (simp add: group_ok_def)
    have adm: "admitted (es_prediction es) = dom (map_of closed)"
      using closed(2) by (simp add: admitted_def dom_map_of_conv_image_fst)
    note merged = merge_required_all[OF el(1) bt, folded closed(3), unfolded el(2)]
    show thesis
    proof (rule that[OF g(1)], unfold gather_spec_def, intro conjI allI impI)
      show "map_of (es_entries es) i = disclosed F (pg_graph p) connection view previous policy i"
        if "i \<notin> admitted (es_prediction es)" for i
        using merged[of i] that adm by (simp add: domIff)
      show "\<exists>x. member_ok (pg_graph p) connection view policy (admitted (es_prediction es)) i x
        \<and> map_of (es_entries es) i = Some (case disclosed F (pg_graph p) connection view previous policy i of
          None \<Rightarrow> x | Some y \<Rightarrow> y\<lparr>ee_reasons := ee_reasons y OR REQUIRED\<rparr>)" if "i \<in> admitted (es_prediction es)" for i
      proof -
        obtain x where x: "map_of closed i = Some x"
          using \<open>i \<in> admitted (es_prediction es)\<close> adm by auto
        then show ?thesis
          using merged[of i] grp unfolding adm group_ok_def by auto
      qed
      show "set roots \<subseteq> set ms" "\<forall>i \<in> set ms. from_roots (pg_graph p) roots i" "length ms \<le> li_max_required (gr_limits (pg_graph p))"
        if "es_prediction es = Admitted ms" for ms
      proof -
        have "ms = map fst closed"
          using that closed(2) by simp
        then have "set ms = dom (map_of closed)" "length ms = length closed"
          by (simp_all add: dom_map_of_conv_image_fst)
        then show "set roots \<subseteq> set ms" "\<forall>i \<in> set ms. from_roots (pg_graph p) roots i"
            "length ms \<le> li_max_required (gr_limits (pg_graph p))"
          using grp unfolding group_ok_def by simp_all
      qed
    qed
  qed
qed


section \<open>Properties\<close>


text \<open>
  C12: an admitted prediction group is complete and minimal.  It contains every root and, with every
  member, all of that member's dependencies; each member is registered, permitted with a representation
  that carries all prediction state, and every dependency edge is allowed by the policy; nothing is in the
  group that a root does not lead to; and the group respects its size limit.
\<close>

theorem prediction_group_closed:
  assumes "f64_zero_blind F" "graph_new F limits = Inr g0" "prepare frame tick revision (fold (graph_step F) ops g0) = (Inr p, g)"
    and "gather F connection previous roots policy p = Inr es" "es_prediction es = Admitted ms"
  shows "set roots \<subseteq> set ms \<and> length ms \<le> li_max_required limits \<and> (\<forall>i \<in> set ms. from_roots g roots i)
    \<and> (\<exists>view. map_of (gr_connections g) connection = Some view \<and> (\<forall>i \<in> set ms. \<exists>e representation.
        map_of (gr_entities g) i = Some e \<and> permitted connection view e policy = Some representation
        \<and> rg_prediction_allowed representation \<and> set (er_dependencies e) \<subseteq> set ms
        \<and> (\<forall>t \<in> set (er_dependencies e). dp_permits_dependency policy connection i t)))"
proof -
  have ok: "graph_ok F (pg_graph p)" and g: "pg_graph p = g"
    using prepared_ok[OF assms(1-3)] by simp_all
  have adm: "admitted (es_prediction es) = set ms"
    using assms(5) by (simp add: admitted_def)
  have lim: "gr_limits g = limits"
    using assms(3) graph_run_limits[OF assms(2), of ops] by (auto simp: prepare_def Let_def attempt_def split: if_splits sum.splits)
  obtain view where view: "map_of (gr_connections g) connection = Some view"
    and spec: "gather_spec F g connection view previous roots policy es"
    using gathered_entries[OF ok assms(4)] unfolding g .
  have inside: "\<exists>x. member_ok g connection view policy (set ms) i x" if "i \<in> set ms" for i
    using spec that unfolding gather_spec_def adm by blast
  have closed: "set roots \<subseteq> set ms \<and> (\<forall>i \<in> set ms. from_roots g roots i) \<and> length ms \<le> li_max_required (gr_limits g)"
    using spec assms(5) unfolding gather_spec_def by blast
  have "\<exists>e representation. map_of (gr_entities g) i = Some e \<and> permitted connection view e policy = Some representation
        \<and> rg_prediction_allowed representation \<and> set (er_dependencies e) \<subseteq> set ms
        \<and> (\<forall>t \<in> set (er_dependencies e). dp_permits_dependency policy connection i t)" if "i \<in> set ms" for i
    using inside[OF that] unfolding member_ok_def by blast
  then show ?thesis
    using view closed lim by simp
qed

section \<open>A gathered frame\<close>

definition ex_full_grant :: RepresentationGrant where
  "ex_full_grant = \<lparr>rg_schema_id = 1, rg_revision = 1, rg_fields = 3, rg_prediction_allowed = True\<rparr>"

definition ex_policy :: "int DisclosurePolicy" where
  "ex_policy = \<lparr>dp_revision = (\<lambda>_. 5), dp_representation = (\<lambda>_ _. Some ex_full_grant), dp_permits_dependency = (\<lambda>_ _ _. True)\<rparr>"

definition ex_frame :: "int Graph" where
  "ex_frame = ex_graph\<lparr>gr_last_frame := Some 1, gr_last_tick := Some 1, gr_last_policy := Some 5, gr_prepare_calls := 1\<rparr>"

definition ex_prepared :: "int PreparedGraph" where
  "ex_prepared = \<lparr>pg_graph = ex_frame, pg_frame = 1, pg_tick = 1, pg_policy_revision = 5\<rparr>"

lemma ex_prepare: "prepare 1 1 5 (fold (graph_step grid_f64) ex_graph_ops ex_graph0) = (Inr ex_prepared, ex_frame)"
  unfolding ex_graph_run[symmetric]
  by (simp add: prepare_def ex_graph_def ex_graph0_def ex_prepared_def ex_frame_def checked_add_def Let_def)

definition ex_entry :: "int EntityRegistration \<Rightarrow> EligibilityReasons \<Rightarrow> EligibleEntry" where
  "ex_entry e reasons = eligible_entry e ex_full_grant reasons"

definition ex_gathered :: EligibleSet where
  "ex_gathered = \<lparr>es_connection = 7, es_world_revision = 4, es_policy_revision = 5, es_frame = 1, es_tick = 1,
    es_entries = [(EntityId 1 1, ex_entry ex_global 18), (EntityId 2 1, ex_entry ex_hidden 16), (EntityId 3 1, ex_entry ex_near 1)],
    es_prediction = Admitted [EntityId 1 1, EntityId 2 1], es_candidate_visits = 2, es_candidates = 2\<rparr>"

lemma ex_permitted: "e \<in> {ex_global, ex_hidden, ex_near} \<Longrightarrow> permitted 7 ex_view e ex_policy = Some ex_full_grant"
  by (auto simp: permitted_def ex_policy_def ex_view_def ex_full_grant_def ex_global_def ex_hidden_def ex_near_def ex_routed_def)

lemma ex_frame_fields:
  "gr_entities ex_frame = [(EntityId 1 1, ex_global), (EntityId 2 1, ex_hidden), (EntityId 3 1, ex_near)]"
  "gr_limits ex_frame = ex_limits" "gr_globals ex_frame = [EntityId 1 1]" "gr_owners ex_frame = []"
  "gr_connections ex_frame = [(7, ex_view)]" "gr_world_revision ex_frame = 4"
  "members (gr_cells ex_frame) (0, 0) = [EntityId 3 1]"
  by (simp_all add: ex_frame_def ex_graph_def ex_graph0_def members_def ex_cells)

lemma ex_collect: "collect_candidates grid_f64 7 ex_view ex_frame = Inr ([(EntityId 1 1, GLOBAL), (EntityId 3 1, SPATIAL)], 2)"
proof -
  have "cell_of grid_f64 ex_limits (12, 0, 12) = (0, 0)"
    by (simp add: cell_of_def cell_at_def grid_f64_def ex_limits_def)
  then have "observed_ids grid_f64 ex_view ex_frame = [EntityId 3 1]"
    by (simp add: observed_ids_def ex_view_def ex_frame_fields)
  moreover have "semantic_ids ex_view ex_frame = []" "members [] (7::ConnectionId) = []"
    by (simp_all add: semantic_ids_def ex_view_def members_def)
  ultimately show ?thesis
    by (simp add: collect_candidates_def ex_frame_fields add_candidate_def ex_limits_def less_EntityId_def entity_tuple_def)
qed

lemma ex_required: "required ex_frame 7 ex_view [EntityId 1 1] ex_policy =
    Inr [(EntityId 1 1, ex_entry ex_global REQUIRED), (EntityId 2 1, ex_entry ex_hidden REQUIRED)]"
proof -
  have "er_dependencies ex_global = [EntityId 2 1]" "er_dependencies ex_hidden = []" "rg_prediction_allowed ex_full_grant"
    "dp_permits_dependency ex_policy c i t" for c i t
    by (simp_all add: ex_global_def ex_hidden_def ex_routed_def ex_full_grant_def ex_policy_def)
  then show ?thesis
    by (simp add: required_def required_loop.simps(2) ex_frame_fields ex_permitted ex_entry_def ex_limits_def
        bt_contains_def less_EntityId_def entity_tuple_def)
qed

lemma ex_gather: "gather grid_f64 7 [] [EntityId 1 1] ex_policy ex_prepared = Inr ex_gathered"
proof -
  have near: "spatially_eligible grid_f64 ex_limits ex_near ex_view False"
    by (simp add: spatially_eligible_def ex_near_def ex_routed_def ex_view_def grid_f64_def ex_limits_def)
  have "judge_candidates (judge_candidate grid_f64 ex_frame 7 ex_view [] ex_policy) [(EntityId 1 1, GLOBAL), (EntityId 3 1, SPATIAL)]
      = Inr [(EntityId 1 1, ex_entry ex_global GLOBAL), (EntityId 3 1, ex_entry ex_near SPATIAL)]"
    using near by (simp add: judge_candidate_def ex_frame_fields ex_permitted ex_entry_def reasons_contains_def GLOBAL_def SPATIAL_def)
  moreover have "admit_prediction ex_frame 7 ex_view [EntityId 1 1] ex_policy
      [(EntityId 1 1, ex_entry ex_global GLOBAL), (EntityId 3 1, ex_entry ex_near SPATIAL)] = (es_prediction ex_gathered, es_entries ex_gathered)"
    by (simp add: admit_prediction_def ex_required ex_gathered_def bt_contains_def ex_frame_fields ex_limits_def merge_required_def
        bt_update_def bt_map_def reasons_insert_def ex_entry_def eligible_entry_def GLOBAL_def REQUIRED_def SPATIAL_def
        less_EntityId_def entity_tuple_def)
  ultimately show ?thesis
    using ex_collect by (simp add: gather_def ex_prepared_def ex_policy_def Let_def ex_frame_fields ex_limits_def)
      (simp add: ex_gathered_def)
qed


theorem prediction_group_closed_witness:
  "gather grid_f64 7 [] [EntityId 1 1] ex_policy ex_prepared = Inr ex_gathered
    \<and> from_roots ex_frame [EntityId 1 1] (EntityId 2 1) \<and> length [EntityId 1 1, EntityId 2 1] \<le> li_max_required ex_limits"
  using prediction_group_closed[OF grid_zero_blind ex_graph_new ex_prepare ex_gather, of "[EntityId 1 1, EntityId 2 1]"] ex_gather
  by (simp add: ex_gathered_def)

end
