(* ===== verification/Net_Events.thy ===== *)
theory Net_Events
  imports Net_Prelude Net_Types Net_Replication
begin

text \<open>
  Presentation events (\<open>engine/net/src/events/model.rs\<close>, \<open>events/journal.rs\<close>).

  The journal keeps its records in a vector sorted by event key and addresses them by the index a
  binary search returned; here that vector is the ordered association list from the key to the
  record (\<open>en_identity\<close> still carries the key), so that a search is a lookup and an index is the key.
  Indexing a record that is not there is the failure \<open>Panic\<close>.  \<open>bindings\<close> (sorted by entity
  index) and \<open>rejected_actions\<close> are an ordered map and an ordered set in the same way.

  The parameter \<open>Memory\<close> holds what the compiler and the allocator decide: the sizes of the four
  element types and the capacity \<open>try_reserve_exact\<close> grants for a request (\<open>None\<close> when it fails).
  Byte sums of allocated memory are naturals.  The trait \<open>Payload\<close> is the record of that name.

  \<open>transaction\<close> runs an operation on a staged copy; an error drops the copy, so the operations inside
  it return either the error or the new journal with the changes emitted so far.
\<close>

section \<open>Identities and records\<close>

datatype JournalScope = JournalScope (js_connection: ConnectionEpoch) (js_stream: CommandStream)

datatype EventKey = EventKey (ek_action: ActionKey) (ek_kind: u32) (ek_spawn_ordinal: u32)

definition journal_scope_tuple :: "JournalScope \<Rightarrow> u64 \<times> u32" where
  "journal_scope_tuple s = (js_connection s, js_stream s)"

lemma journal_scope_tuple_inj: "journal_scope_tuple a = journal_scope_tuple b \<longleftrightarrow> a = b"
  by (cases a; cases b) (simp add: journal_scope_tuple_def)

instantiation JournalScope :: linorder
begin

definition less_eq_JournalScope :: "JournalScope \<Rightarrow> JournalScope \<Rightarrow> bool" where
  "less_eq_JournalScope a b \<longleftrightarrow> journal_scope_tuple a \<le> journal_scope_tuple b"

definition less_JournalScope :: "JournalScope \<Rightarrow> JournalScope \<Rightarrow> bool" where
  "less_JournalScope a b \<longleftrightarrow> journal_scope_tuple a < journal_scope_tuple b"

instance
  by standard
    (auto simp: less_eq_JournalScope_def less_JournalScope_def less_le_not_le journal_scope_tuple_inj[symmetric])

end

definition event_tuple :: "EventKey \<Rightarrow> ActionKey \<times> u32 \<times> u32" where
  "event_tuple k = (ek_action k, ek_kind k, ek_spawn_ordinal k)"

lemma event_tuple_inj: "event_tuple a = event_tuple b \<longleftrightarrow> a = b"
  by (cases a; cases b) (simp add: event_tuple_def)

instantiation EventKey :: linorder
begin

definition less_eq_EventKey :: "EventKey \<Rightarrow> EventKey \<Rightarrow> bool" where
  "less_eq_EventKey a b \<longleftrightarrow> event_tuple a \<le> event_tuple b"

definition less_EventKey :: "EventKey \<Rightarrow> EventKey \<Rightarrow> bool" where
  "less_EventKey a b \<longleftrightarrow> event_tuple a < event_tuple b"

instance
  by standard (auto simp: less_eq_EventKey_def less_EventKey_def less_le_not_le event_tuple_inj[symmetric])

end

record EventIdentity =
  ei_key :: EventKey
  ei_origin_tick :: ServerTick
  ei_schema :: SchemaId

datatype EventDelivery = Reversible | SimulationOwned | OneShot

record 'p EventRecord =
  er_identity :: EventIdentity
  er_expires_at :: ServerTick
  er_delivery :: EventDelivery
  er_payload :: 'p

record ReplayRange =
  rr_first :: ServerTick
  rr_last :: ServerTick

datatype EventOutcome = OutcomeAccepted "EntityId option" | OutcomeRejected

datatype Decision = DecisionUnresolved | DecisionAccepted | DecisionRejected

datatype Phase = PhaseUnseen | PhaseLive | PhaseReplayAbsent | PhaseExpired | PhaseRejected

datatype CancelReason = ReasonReplayAbsent | ReasonRejected | ReasonExpired

datatype 'p EventChange =
    EvCreate "'p EventRecord" bool "EntityId option"
  | EvUpdate "'p EventRecord"
  | EvCancel EventKey CancelReason
  | EvConfirm EventKey
  | EvBind EventKey EntityId
  | EvBindRetired EventKey EntityId
  | EvReset JournalScope JournalScope

record 'p Changes =
  cs_values :: "'p EventChange list"
  cs_capacity :: usize
  cs_payload_bytes :: usize

record EventLimits =
  evl_records :: usize
  evl_bindings :: usize
  evl_action_fences :: usize
  evl_payload_bytes :: usize
  evl_resident_bytes :: usize
  evl_transitions :: usize
  evl_transition_bytes :: usize
  evl_peak_bytes :: usize
  evl_history_ticks :: u64
  evl_lifetime_ticks :: u64

definition default_event_limits :: EventLimits where
  "default_event_limits =
    \<lparr>evl_records = 2048, evl_bindings = 2048, evl_action_fences = 2048, evl_payload_bytes = 16 * 1024,
     evl_resident_bytes = 4 * 1024 * 1024, evl_transitions = 1024,
     evl_transition_bytes = 2 * 1024 * 1024, evl_peak_bytes = 11 * 1024 * 1024,
     evl_history_ticks = 256, evl_lifetime_ticks = 4096\<rparr>"

datatype EventError =
    InvalidConfiguration | InvalidIdentity | InvalidPayload | WrongScope | Stale | OutsideHistory
  | DuplicateKey | Conflict | Unknown | Capacity | ResetRequired | LiveHistory

section \<open>The journal\<close>

record Lifetime =
  lt_expires :: ServerTick
  lt_delivery :: EventDelivery

record 'p EventEntry =
  en_identity :: EventIdentity
  en_lifetime :: "Lifetime option"
  en_payload :: "'p option"
  en_phase :: Phase
  en_decision :: Decision
  en_delivered :: bool
  en_binding :: "EntityId option"

record Memory =
  mem_entry :: usize
  mem_binding :: usize
  mem_action :: usize
  mem_change :: usize
  mem_reserve :: "usize \<Rightarrow> usize option"

type_synonym binding_map = "(u64, EntityId \<times> EventKey) bt"

record 'p EventJournal =
  ej_scope :: JournalScope
  ej_limits :: EventLimits
  ej_now :: ServerTick
  ej_retired :: CommandSeq
  ej_entries :: "(EventKey, 'p EventEntry) bt"
  ej_entries_capacity :: usize
  ej_bindings :: binding_map
  ej_bindings_capacity :: usize
  ej_rejected_actions :: "ActionKey list"
  ej_rejected_capacity :: usize

type_synonym 'p staged = "'p EventJournal \<times> 'p Changes"
type_synonym 'a event_result = "EventError failure + 'a"

definition event_reserved :: "Memory \<Rightarrow> usize \<Rightarrow> usize event_result" where
  "event_reserved mem n = ok_or (Err Capacity) (mem_reserve mem n)"

definition event_metadata :: "Memory \<Rightarrow> EventLimits \<Rightarrow> usize option" where
  "event_metadata mem l =
    Option.bind (Option.bind (usize_checked_mul (evl_records l) (mem_entry mem))
      (\<lambda>n. Option.bind (usize_checked_mul (evl_bindings l) (mem_binding mem)) (usize_checked_add n)))
      (\<lambda>n. Option.bind (usize_checked_mul (evl_action_fences l) (mem_action mem)) (usize_checked_add n))"

definition event_limits_refused :: "Memory \<Rightarrow> EventLimits \<Rightarrow> bool" where
  "event_limits_refused mem l =
    (let metadata = event_metadata mem l;
         output = usize_checked_mul (evl_transitions l) (mem_change mem);
         peak = Option.bind (Option.bind (usize_checked_mul (evl_resident_bytes l) 2)
                  (\<lambda>n. usize_checked_add n (evl_transition_bytes l)))
                  (\<lambda>n. usize_checked_add n (evl_payload_bytes l)) in
     0 \<in> set [evl_records l, evl_bindings l, evl_action_fences l, evl_payload_bytes l, evl_transitions l]
     \<or> evl_history_ticks l = 0
     \<or> evl_lifetime_ticks l = 0
     \<or> (case metadata of None \<Rightarrow> True | Some n \<Rightarrow>
          n > evl_resident_bytes l \<or> evl_payload_bytes l > evl_resident_bytes l - n)
     \<or> (case output of None \<Rightarrow> True | Some n \<Rightarrow>
          n > evl_transition_bytes l \<or> evl_payload_bytes l > evl_transition_bytes l - n)
     \<or> (case peak of None \<Rightarrow> True | Some n \<Rightarrow> n > evl_peak_bytes l))"

definition journal_new :: "Memory \<Rightarrow> JournalScope \<Rightarrow> EventLimits \<Rightarrow> 'p EventJournal event_result" where
  "journal_new mem scope limits =
    (if js_connection scope = 0 \<or> js_stream scope = 0 then Inl (Err InvalidIdentity)
     else if event_limits_refused mem limits then Inl (Err InvalidConfiguration)
     else and_then (event_reserved mem (evl_records limits)) (\<lambda>entries.
       and_then (event_reserved mem (evl_bindings limits)) (\<lambda>bindings.
       and_then (event_reserved mem (evl_action_fences limits)) (\<lambda>rejected.
         Inr \<lparr>ej_scope = scope, ej_limits = limits, ej_now = 0, ej_retired = 0,
              ej_entries = [], ej_entries_capacity = entries,
              ej_bindings = [], ej_bindings_capacity = bindings,
              ej_rejected_actions = [], ej_rejected_capacity = rejected\<rparr>))))"

definition journal_retained_bytes :: "'p Payload \<Rightarrow> Memory \<Rightarrow> 'p EventJournal \<Rightarrow> usize" where
  "journal_retained_bytes pl mem s =
    ej_entries_capacity s * mem_entry mem + ej_bindings_capacity s * mem_binding mem
    + ej_rejected_capacity s * mem_action mem
    + bt_sum (\<lambda>_ e. opt_charge (pl_retained_bytes pl) (en_payload e)) (ej_entries s)"

record 'p EventView =
  ev_identity :: EventIdentity
  ev_phase :: Phase
  ev_decision :: Decision
  ev_binding :: "EntityId option"
  ev_payload :: "'p option"

definition event_view :: "'p EventEntry \<Rightarrow> 'p EventView" where
  "event_view e = \<lparr>ev_identity = en_identity e, ev_phase = en_phase e, ev_decision = en_decision e,
     ev_binding = en_binding e, ev_payload = en_payload e\<rparr>"

definition journal_iter :: "'p EventJournal \<Rightarrow> 'p EventView list" where
  "journal_iter s = map (\<lambda>(_, e). event_view e) (ej_entries s)"

definition journal_get :: "EventKey \<Rightarrow> 'p EventJournal \<Rightarrow> 'p EventView option" where
  "journal_get k s = map_option event_view (map_of (ej_entries s) k)"

definition valid_action :: "ActionKey \<Rightarrow> 'p EventJournal \<Rightarrow> unit event_result" where
  "valid_action action s =
    (if ak_connection action \<noteq> js_connection (ej_scope s) \<or> ak_stream action \<noteq> js_stream (ej_scope s)
       then Inl (Err WrongScope)
     else if ak_command action = 0 then Inl (Err InvalidIdentity)
     else if ak_command action \<le> ej_retired s then Inl (Err Stale)
     else Inr ())"

definition valid_identity :: "EventIdentity \<Rightarrow> 'p EventJournal \<Rightarrow> unit event_result" where
  "valid_identity identity s =
    and_then (valid_action (ek_action (ei_key identity)) s) (\<lambda>_.
     if ek_kind (ei_key identity) = 0 \<or> ei_schema identity = 0 \<or> ei_origin_tick identity > ej_now s
       then Inl (Err InvalidIdentity)
     else case map_of (ej_entries s) (ei_key identity) of
       Some e \<Rightarrow> if en_identity e \<noteq> identity then Inl (Err Conflict) else Inr ()
     | None \<Rightarrow> Inr ())"

definition check_resident :: "'p Payload \<Rightarrow> Memory \<Rightarrow> 'p EventJournal \<Rightarrow> unit event_result" where
  "check_resident pl mem s =
    (if journal_retained_bytes pl mem s > evl_resident_bytes (ej_limits s) then Inl (Err Capacity) else Inr ())"

definition changes :: "Memory \<Rightarrow> 'p EventJournal \<Rightarrow> 'p Changes event_result" where
  "changes mem s =
    and_then (event_reserved mem (evl_transitions (ej_limits s))) (\<lambda>n.
      Inr \<lparr>cs_values = [], cs_capacity = n, cs_payload_bytes = 0\<rparr>)"

definition changes_retained_bytes :: "Memory \<Rightarrow> 'p Changes \<Rightarrow> usize" where
  "changes_retained_bytes mem c = cs_capacity c * mem_change mem + cs_payload_bytes c"

fun change_bytes :: "'p Payload \<Rightarrow> 'p EventChange \<Rightarrow> usize" where
  "change_bytes pl (EvCreate ev _ _) = pl_retained_bytes pl (er_payload ev)"
| "change_bytes pl (EvUpdate ev) = pl_retained_bytes pl (er_payload ev)"
| "change_bytes pl _ = 0"

definition emit ::
  "'p Payload \<Rightarrow> Memory \<Rightarrow> 'p EventJournal \<Rightarrow> 'p Changes \<Rightarrow> 'p EventChange \<Rightarrow> 'p Changes event_result" where
  "emit pl mem s c change =
    (let bytes = change_bytes pl change in
     if length (cs_values c) \<ge> evl_transitions (ej_limits s)
        \<or> (case usize_checked_add (changes_retained_bytes mem c) bytes of
             None \<Rightarrow> True | Some n \<Rightarrow> n > evl_transition_bytes (ej_limits s))
       then Inl (Err Capacity)
     else Inr (c\<lparr>cs_payload_bytes := cs_payload_bytes c + bytes, cs_values := cs_values c @ [change]\<rparr>))"

definition transaction ::
  "'p Payload \<Rightarrow> Memory \<Rightarrow> ('p EventJournal \<Rightarrow> 'p Changes \<Rightarrow> 'p staged event_result) \<Rightarrow> 'p EventJournal \<Rightarrow>
   'p Changes event_result \<times> 'p EventJournal" where
  "transaction pl mem apply_staged s =
    attempt (journal_new mem (ej_scope s) (ej_limits s)) s (\<lambda>fresh.
    (let staged = fresh\<lparr>ej_now := ej_now s, ej_retired := ej_retired s, ej_entries := ej_entries s,
           ej_bindings := ej_bindings s, ej_rejected_actions := ej_rejected_actions s\<rparr> in
     attempt (check_resident pl mem staged) s (\<lambda>_.
     attempt (changes mem s) s (\<lambda>c.
     attempt (apply_staged staged c) s (\<lambda>(t, d).
     attempt (check_resident pl mem t) s (\<lambda>_. (Inr d, t)))))))"

definition set_now :: "ServerTick \<Rightarrow> 'p EventJournal \<Rightarrow> 'p EventJournal event_result" where
  "set_now now s = (if now < ej_now s then Inl (Err Stale) else Inr (s\<lparr>ej_now := now\<rparr>))"

definition new_entry :: "EventIdentity \<Rightarrow> 'p EventEntry" where
  "new_entry identity =
    \<lparr>en_identity = identity, en_lifetime = None, en_payload = None, en_phase = PhaseUnseen,
     en_decision = DecisionUnresolved, en_delivered = False, en_binding = None\<rparr>"

definition find_or_insert :: "EventIdentity \<Rightarrow> 'p EventJournal \<Rightarrow> 'p EventJournal event_result" where
  "find_or_insert identity s =
    and_then (valid_identity identity s) (\<lambda>_.
     case map_of (ej_entries s) (ei_key identity) of
       Some _ \<Rightarrow> Inr s
     | None \<Rightarrow>
         if length (ej_entries s) \<ge> evl_records (ej_limits s) then Inl (Err ResetRequired)
         else Inr (s\<lparr>ej_entries := bt_insert (ei_key identity) (new_entry identity) (ej_entries s)\<rparr>))"

definition entry_at :: "EventKey \<Rightarrow> 'p EventJournal \<Rightarrow> 'p EventEntry event_result" where
  "entry_at k s = ok_or (Panic ''index out of bounds'') (map_of (ej_entries s) k)"

definition put_entry :: "EventKey \<Rightarrow> 'p EventEntry \<Rightarrow> 'p EventJournal \<Rightarrow> 'p EventJournal" where
  "put_entry k e s = s\<lparr>ej_entries := bt_update k (\<lambda>_. e) (ej_entries s)\<rparr>"

definition reversible_life :: "'p EventEntry \<Rightarrow> bool" where
  "reversible_life e = (case en_lifetime e of None \<Rightarrow> False | Some life \<Rightarrow> lt_delivery life \<noteq> OneShot)"

definition cancel_entry ::
  "'p Payload \<Rightarrow> Memory \<Rightarrow> EventKey \<Rightarrow> Phase \<Rightarrow> CancelReason \<Rightarrow> 'p EventJournal \<Rightarrow> 'p Changes \<Rightarrow>
   'p staged event_result" where
  "cancel_entry pl mem k phase reason s c =
    and_then (entry_at k s) (\<lambda>e.
    and_then (if en_phase e = PhaseLive \<and> reversible_life e
              then emit pl mem s c (EvCancel (ei_key (en_identity e)) reason) else Inr c) (\<lambda>d.
      Inr (put_entry k (e\<lparr>en_phase := phase, en_payload := None\<rparr>) s, d)))"

definition expired_prediction :: "ServerTick \<Rightarrow> 'p EventEntry \<Rightarrow> bool" where
  "expired_prediction now e \<longleftrightarrow>
    en_decision e \<noteq> DecisionAccepted
    \<and> en_phase e \<in> {PhaseLive, PhaseReplayAbsent}
    \<and> (case en_lifetime e of None \<Rightarrow> False | Some life \<Rightarrow>
         lt_delivery life \<noteq> SimulationOwned \<and> lt_expires life \<le> now)"

text \<open>The loops \<open>for i in 0..entries.len()\<close>: cancel every record that the condition selects.\<close>

fun cancel_all ::
  "'p Payload \<Rightarrow> Memory \<Rightarrow> ('p EventEntry \<Rightarrow> bool) \<Rightarrow> ('p EventEntry \<Rightarrow> 'p EventEntry) \<Rightarrow> Phase \<Rightarrow> CancelReason \<Rightarrow>
   EventKey list \<Rightarrow> 'p EventJournal \<Rightarrow> 'p Changes \<Rightarrow> 'p staged event_result" where
  "cancel_all pl mem cond mark phase reason [] s c = Inr (s, c)"
| "cancel_all pl mem cond mark phase reason (k # ks) s c =
    and_then (entry_at k s) (\<lambda>e.
     if cond e
     then and_then (cancel_entry pl mem k phase reason (put_entry k (mark e) s) c) (\<lambda>(t, d).
       cancel_all pl mem cond mark phase reason ks t d)
     else cancel_all pl mem cond mark phase reason ks s c)"

definition advance_inner ::
  "'p Payload \<Rightarrow> Memory \<Rightarrow> ServerTick \<Rightarrow> 'p EventJournal \<Rightarrow> 'p Changes \<Rightarrow> 'p staged event_result" where
  "advance_inner pl mem now s c =
    and_then (set_now now s) (\<lambda>t.
      cancel_all pl mem (expired_prediction now) (\<lambda>e. e) PhaseExpired ReasonExpired
        (map fst (ej_entries t)) t c)"

definition journal_advance ::
  "'p Payload \<Rightarrow> Memory \<Rightarrow> ServerTick \<Rightarrow> 'p EventJournal \<Rightarrow> 'p Changes event_result \<times> 'p EventJournal" where
  "journal_advance pl mem now = transaction pl mem (advance_inner pl mem now)"

text \<open>One iteration of the loop over the corrected events: the checks, then the effect.\<close>

definition check_event ::
  "'p Payload \<Rightarrow> ReplayRange \<Rightarrow> ('p \<Rightarrow> bool) \<Rightarrow> 'p EventRecord list \<Rightarrow> 'p EventRecord \<Rightarrow> 'p EventJournal \<Rightarrow>
   unit event_result" where
  "check_event pl window validate before ev s =
    (let identity = er_identity ev; origin = ei_origin_tick identity in
     and_then (valid_identity identity s) (\<lambda>_.
     if \<exists>old \<in> set before. ei_key (er_identity old) = ei_key identity then Inl (Err DuplicateKey)
     else if origin < rr_first window \<or> origin > rr_last window \<or> er_expires_at ev \<le> origin
             \<or> er_expires_at ev - origin > evl_lifetime_ticks (ej_limits s)
       then Inl (Err InvalidIdentity)
     else if pl_retained_bytes pl (er_payload ev) > evl_payload_bytes (ej_limits s) \<or> \<not> validate (er_payload ev)
       then Inl (Err InvalidPayload)
     else Inr ()))"

definition show_event ::
  "'p Payload \<Rightarrow> Memory \<Rightarrow> 'p EventRecord \<Rightarrow> 'p EventEntry \<Rightarrow> 'p EventJournal \<Rightarrow> 'p Changes \<Rightarrow>
   'p staged event_result" where
  "show_event pl mem ev e s c =
    (let k = ei_key (er_identity ev);
         was_live = (en_phase e = PhaseLive);
         create = (en_phase e \<noteq> PhaseLive \<and> (\<not> en_delivered e \<or> er_delivery ev \<noteq> OneShot));
         changed = (case en_payload e of None \<Rightarrow> True | Some p \<Rightarrow> \<not> pl_eq pl p (er_payload ev));
         committed = (en_decision e = DecisionAccepted);
         t = put_entry k (e\<lparr>en_payload := Some (er_payload ev), en_phase := PhaseLive, en_delivered := True\<rparr>) s in
     and_then (check_resident pl mem t) (\<lambda>_.
     and_then (if create then emit pl mem t c (EvCreate ev committed (en_binding e))
               else if changed \<and> (er_delivery ev \<noteq> OneShot \<or> was_live) then emit pl mem t c (EvUpdate ev)
               else Inr c) (\<lambda>d. Inr (t, d))))"

definition reconcile_event ::
  "'p Payload \<Rightarrow> Memory \<Rightarrow> ServerTick \<Rightarrow> ReplayRange \<Rightarrow> ('p \<Rightarrow> bool) \<Rightarrow> 'p EventRecord list \<Rightarrow>
   'p EventRecord \<Rightarrow> 'p EventJournal \<Rightarrow> 'p Changes \<Rightarrow> 'p staged event_result" where
  "reconcile_event pl mem now window validate before ev s c =
    (let k = ei_key (er_identity ev);
         life = \<lparr>lt_expires = er_expires_at ev, lt_delivery = er_delivery ev\<rparr> in
     and_then (check_event pl window validate before ev s) (\<lambda>_.
     and_then (find_or_insert (er_identity ev) s) (\<lambda>t.
     and_then (entry_at k t) (\<lambda>e0.
     if (case en_lifetime e0 of None \<Rightarrow> False | Some old \<Rightarrow> old \<noteq> life) then Inl (Err Conflict)
     else let e = e0\<lparr>en_lifetime := Some life\<rparr>; u = put_entry k e t in
       if ek_action k \<in> set (ej_rejected_actions u)
         then cancel_entry pl mem k PhaseRejected ReasonRejected
                (put_entry k (e\<lparr>en_decision := DecisionRejected\<rparr>) u) c
       else if en_phase e = PhaseExpired \<or> en_phase e = PhaseRejected
               \<or> (en_phase e = PhaseReplayAbsent \<and> en_decision e = DecisionAccepted)
         then Inr (u, c)
       else if er_delivery ev \<noteq> SimulationOwned \<and> er_expires_at ev \<le> now \<and> en_phase e \<noteq> PhaseLive
         then cancel_entry pl mem k PhaseExpired ReasonExpired u c
       else show_event pl mem ev e u c))))"

fun reconcile_events ::
  "'p Payload \<Rightarrow> Memory \<Rightarrow> ServerTick \<Rightarrow> ReplayRange \<Rightarrow> ('p \<Rightarrow> bool) \<Rightarrow> 'p EventRecord list \<Rightarrow>
   'p EventRecord list \<Rightarrow> 'p EventJournal \<Rightarrow> 'p Changes \<Rightarrow> 'p staged event_result" where
  "reconcile_events pl mem now window validate before [] s c = Inr (s, c)"
| "reconcile_events pl mem now window validate before (ev # evs) s c =
    and_then (reconcile_event pl mem now window validate before ev s c) (\<lambda>(t, d).
      reconcile_events pl mem now window validate (before @ [ev]) evs t d)"

definition replay_absent :: "ReplayRange \<Rightarrow> 'p EventRecord list \<Rightarrow> 'p EventEntry \<Rightarrow> bool" where
  "replay_absent window corrected e \<longleftrightarrow>
    en_phase e = PhaseLive \<and> en_decision e \<noteq> DecisionAccepted
    \<and> rr_first window \<le> ei_origin_tick (en_identity e) \<and> ei_origin_tick (en_identity e) \<le> rr_last window
    \<and> \<not> (\<exists>ev \<in> set corrected. ei_key (er_identity ev) = ei_key (en_identity e))"

definition journal_reconcile ::
  "'p Payload \<Rightarrow> Memory \<Rightarrow> ServerTick \<Rightarrow> ReplayRange \<Rightarrow> 'p EventRecord list \<Rightarrow> ('p \<Rightarrow> bool) \<Rightarrow>
   'p EventJournal \<Rightarrow> 'p Changes event_result \<times> 'p EventJournal" where
  "journal_reconcile pl mem now window corrected validate =
    transaction pl mem (\<lambda>s0 c0.
      and_then (advance_inner pl mem now s0 c0) (\<lambda>(s, c).
      if rr_first window > rr_last window \<or> rr_last window > now then Inl (Err InvalidIdentity)
      else if now - rr_first window \<ge> evl_history_ticks (ej_limits s) then Inl (Err OutsideHistory)
      else if length corrected > evl_records (ej_limits s) then Inl (Err Capacity)
      else and_then (reconcile_events pl mem now window validate [] corrected s c) (\<lambda>(t, d).
        cancel_all pl mem (replay_absent window corrected) (\<lambda>e. e) PhaseReplayAbsent ReasonReplayAbsent
          (map fst (ej_entries t)) t d)))"

text \<open>The fence of an entity index: refuse older generations, retire the event a newer one replaces.\<close>

definition bind_fence ::
  "'p Payload \<Rightarrow> Memory \<Rightarrow> EventKey \<Rightarrow> EntityId \<Rightarrow> 'p EventJournal \<Rightarrow> 'p Changes \<Rightarrow> 'p staged event_result" where
  "bind_fence pl mem key entity s c =
    (case map_of (ej_bindings s) (eid_index entity) of
       Some (old, old_key) \<Rightarrow>
         if eid_generation entity < eid_generation old then Inl (Err Stale)
         else if eid_generation entity = eid_generation old \<and> old_key \<noteq> key then Inl (Err Conflict)
         else and_then (if old_key \<noteq> key \<and> bt_contains old_key (ej_entries s)
                        then cancel_entry pl mem old_key PhaseExpired ReasonExpired s c
                        else Inr (s, c)) (\<lambda>(t, d).
           Inr (t\<lparr>ej_bindings := bt_insert (eid_index entity) (entity, key) (ej_bindings t)\<rparr>, d))
     | None \<Rightarrow>
         if length (ej_bindings s) \<ge> evl_bindings (ej_limits s) then Inl (Err ResetRequired)
         else Inr (s\<lparr>ej_bindings := bt_insert (eid_index entity) (entity, key) (ej_bindings s)\<rparr>, c))"

definition bind_event ::
  "'p Payload \<Rightarrow> Memory \<Rightarrow> EventKey \<Rightarrow> EntityId \<Rightarrow> 'p EventJournal \<Rightarrow> 'p Changes \<Rightarrow> 'p staged event_result" where
  "bind_event pl mem k entity s c =
    (if eid_generation entity = 0 then Inl (Err InvalidIdentity)
     else and_then (entry_at k s) (\<lambda>e0.
     (let key = ei_key (en_identity e0) in
      case en_binding e0 of
        Some old \<Rightarrow> if old = entity then Inr (s, c) else Inl (Err Conflict)
      | None \<Rightarrow>
          and_then (bind_fence pl mem key entity s c) (\<lambda>(t, d).
          and_then (entry_at k t) (\<lambda>e.
          let retired = (en_phase e \<in> {PhaseReplayAbsent, PhaseExpired, PhaseRejected});
              u = put_entry k (e\<lparr>en_binding := Some entity\<rparr>) t in
          and_then (emit pl mem u d (if retired then EvBindRetired key entity else EvBind key entity)) (\<lambda>d'.
            Inr (u, d')))))))"

definition resolve_outcome ::
  "'p Payload \<Rightarrow> Memory \<Rightarrow> EventIdentity \<Rightarrow> EventOutcome \<Rightarrow> 'p EventJournal \<Rightarrow> 'p Changes \<Rightarrow>
   'p staged event_result" where
  "resolve_outcome pl mem identity outcome s c =
    (let k = ei_key identity in
     and_then (entry_at k s) (\<lambda>e.
     case outcome of
       OutcomeRejected \<Rightarrow>
         if en_decision e = DecisionAccepted then Inl (Err Conflict)
         else cancel_entry pl mem k PhaseRejected ReasonRejected
                (put_entry k (e\<lparr>en_decision := DecisionRejected\<rparr>) s) c
     | OutcomeAccepted binding \<Rightarrow>
         if en_decision e = DecisionRejected \<or> ek_action k \<in> set (ej_rejected_actions s)
           then Inl (Err Conflict)
         else and_then
           (if en_decision e \<noteq> DecisionAccepted
            then let t = put_entry k (e\<lparr>en_decision := DecisionAccepted\<rparr>) s in
              and_then (emit pl mem t c (EvConfirm k)) (\<lambda>d. Inr (t, d))
            else Inr (s, c)) (\<lambda>(t, d).
           case binding of
             Some entity \<Rightarrow> bind_event pl mem k entity t d
           | None \<Rightarrow> Inr (t, d))))"

definition journal_resolve ::
  "'p Payload \<Rightarrow> Memory \<Rightarrow> ServerTick \<Rightarrow> EventIdentity \<Rightarrow> EventOutcome \<Rightarrow> 'p EventJournal \<Rightarrow>
   'p Changes event_result \<times> 'p EventJournal" where
  "journal_resolve pl mem now identity outcome =
    transaction pl mem (\<lambda>s0 c0.
      and_then (advance_inner pl mem now s0 c0) (\<lambda>(s, c).
      and_then (find_or_insert identity s) (\<lambda>t. resolve_outcome pl mem identity outcome t c)))"

definition journal_reject_action ::
  "'p Payload \<Rightarrow> Memory \<Rightarrow> ServerTick \<Rightarrow> ActionKey \<Rightarrow> 'p EventJournal \<Rightarrow>
   'p Changes event_result \<times> 'p EventJournal" where
  "journal_reject_action pl mem now action =
    transaction pl mem (\<lambda>s0 c0.
      and_then (advance_inner pl mem now s0 c0) (\<lambda>(s, c).
      and_then (valid_action action s) (\<lambda>_.
      if \<exists>(k, e) \<in> set (ej_entries s).
           ek_action (ei_key (en_identity e)) = action \<and> en_decision e = DecisionAccepted
        then Inl (Err Conflict)
      else if action \<notin> set (ej_rejected_actions s)
              \<and> length (ej_rejected_actions s) \<ge> evl_action_fences (ej_limits s)
        then Inl (Err ResetRequired)
      else let t = s\<lparr>ej_rejected_actions := bs_insert action (ej_rejected_actions s)\<rparr> in
        cancel_all pl mem (\<lambda>e. ek_action (ei_key (en_identity e)) = action)
          (\<lambda>e. e\<lparr>en_decision := DecisionRejected\<rparr>) PhaseRejected ReasonRejected
          (map fst (ej_entries t)) t c)))"

definition journal_expire ::
  "'p Payload \<Rightarrow> Memory \<Rightarrow> ServerTick \<Rightarrow> EventIdentity \<Rightarrow> 'p EventJournal \<Rightarrow>
   'p Changes event_result \<times> 'p EventJournal" where
  "journal_expire pl mem now identity =
    transaction pl mem (\<lambda>s0 c0.
      and_then (advance_inner pl mem now s0 c0) (\<lambda>(s, c).
      and_then (find_or_insert identity s) (\<lambda>t.
      and_then (entry_at (ei_key identity) t) (\<lambda>e.
      if en_phase e \<noteq> PhaseRejected
        then cancel_entry pl mem (ei_key identity) PhaseExpired ReasonExpired t c
      else Inr (t, c)))))"

definition journal_retire_through ::
  "CommandSeq \<Rightarrow> 'p EventJournal \<Rightarrow> unit event_result \<times> 'p EventJournal" where
  "journal_retire_through seq s =
    (if seq < ej_retired s then (Inl (Err Stale), s)
     else if \<exists>(k, e) \<in> set (ej_entries s).
               ak_command (ek_action (ei_key (en_identity e))) \<le> seq \<and> en_phase e = PhaseLive
       then (Inl (Err LiveHistory), s)
     else (Inr (), s\<lparr>ej_entries := bt_retain (\<lambda>_ e. ak_command (ek_action (ei_key (en_identity e))) > seq)
                       (ej_entries s),
                     ej_rejected_actions := filter (\<lambda>a. ak_command a > seq) (ej_rejected_actions s),
                     ej_retired := seq\<rparr>))"

definition journal_reset ::
  "'p Payload \<Rightarrow> Memory \<Rightarrow> JournalScope \<Rightarrow> 'p EventJournal \<Rightarrow> 'p Changes event_result \<times> 'p EventJournal" where
  "journal_reset pl mem scope s =
    (if scope \<le> ej_scope s then (Inl (Err Stale), s)
     else attempt (journal_new mem scope (ej_limits s)) s (\<lambda>replacement.
       attempt (changes mem s) s (\<lambda>c.
       attempt (emit pl mem s c (EvReset (ej_scope s) scope)) s (\<lambda>d. (Inr d, replacement)))))"

end
