(* ===== verification/Net_Event_Facts.thy ===== *)
theory Net_Event_Facts
  imports Net_Events
begin

text \<open>
  What a presentation layer may rely on, the invariant of the event journal, and the steps every
  journal operation is made of.

  \<^item> \<open>Presentation\<close> is the consumer the sources describe: it keeps the visuals that are up, the
    one-shot cues it has played, the confirmed events and the entities bound to them.  \<open>present\<close>
    applies one change and is \<open>None\<close> when the change makes no sense there (creating a visual that is
    up, updating or cancelling one that is not, playing a cue twice, confirming twice, binding an
    event twice, binding an entity whose index already belongs to the same or a newer generation or
    whose previous visual is still up).
  \<^item> \<open>journal_ok\<close> is the invariant; \<open>follows\<close> relates a journal to the presentation that has applied
    all of its changes; \<open>evolves\<close> says that a staged operation keeps the invariant, emitted changes
    the presentation can follow, and undid no decision.
\<close>

section \<open>The presentation layer\<close>

record 'p Presentation =
  pr_scope :: JournalScope
  pr_visuals :: "(EventKey \<times> 'p) list"
  pr_cues :: "EventKey list"
  pr_confirmed :: "EventKey list"
  pr_bound :: "(EventKey \<times> EntityId) list"

definition blank :: "JournalScope \<Rightarrow> 'p Presentation" where
  "blank scope = \<lparr>pr_scope = scope, pr_visuals = [], pr_cues = [], pr_confirmed = [], pr_bound = []\<rparr>"

definition bindable :: "EventKey \<Rightarrow> EntityId \<Rightarrow> 'p Presentation \<Rightarrow> bool" where
  "bindable k entity p \<longleftrightarrow> k \<in> set (pr_confirmed p) \<and> \<not> bt_contains k (pr_bound p) \<and>
    (\<forall>(k', old) \<in> set (pr_bound p). eid_index old = eid_index entity \<longrightarrow>
       eid_generation old < eid_generation entity \<and> \<not> bt_contains k' (pr_visuals p))"

fun present :: "'p EventChange \<Rightarrow> 'p Presentation \<Rightarrow> 'p Presentation option" where
  "present (EvCreate ev committed binding) p =
    (let k = ei_key (er_identity ev) in
     if committed \<noteq> (k \<in> set (pr_confirmed p)) \<or> binding \<noteq> map_of (pr_bound p) k
        \<or> bt_contains k (pr_visuals p) then None
     else if er_delivery ev = OneShot
     then if k \<in> set (pr_cues p) then None else Some (p\<lparr>pr_cues := k # pr_cues p\<rparr>)
     else Some (p\<lparr>pr_visuals := (k, er_payload ev) # pr_visuals p\<rparr>))"
| "present (EvUpdate ev) p =
    (let k = ei_key (er_identity ev) in
     if er_delivery ev = OneShot then if k \<in> set (pr_cues p) then Some p else None
     else if bt_contains k (pr_visuals p)
     then Some (p\<lparr>pr_visuals := (k, er_payload ev) # pr_visuals p\<rparr>) else None)"
| "present (EvCancel k _) p =
    (if bt_contains k (pr_visuals p) then Some (p\<lparr>pr_visuals := bt_remove k (pr_visuals p)\<rparr>) else None)"
| "present (EvConfirm k) p =
    (if k \<in> set (pr_confirmed p) then None else Some (p\<lparr>pr_confirmed := k # pr_confirmed p\<rparr>))"
| "present (EvBind k entity) p =
    (if bindable k entity p then Some (p\<lparr>pr_bound := (k, entity) # pr_bound p\<rparr>) else None)"
| "present (EvBindRetired k entity) p =
    (if bindable k entity p \<and> \<not> bt_contains k (pr_visuals p)
     then Some (p\<lparr>pr_bound := (k, entity) # pr_bound p\<rparr>) else None)"
| "present (EvReset previous current) p =
    (if pr_scope p = previous then Some (blank current) else None)"

fun present_all :: "'p EventChange list \<Rightarrow> 'p Presentation \<Rightarrow> 'p Presentation option" where
  "present_all [] p = Some p"
| "present_all (x # xs) p = Option.bind (present x p) (present_all xs)"

lemma present_all_append: "present_all (xs @ ys) p = Option.bind (present_all xs p) (present_all ys)"
  by (induction xs arbitrary: p) (auto split: Option.bind_split)

section \<open>Invariant\<close>

definition stale_key :: "CommandSeq \<Rightarrow> EventKey \<Rightarrow> bool" where
  "stale_key retired k \<longleftrightarrow> ak_command (ek_action k) \<le> retired"

definition superseding :: "EventKey \<Rightarrow> 'p EventEntry \<Rightarrow> EntityId \<Rightarrow> EntityId \<times> EventKey \<Rightarrow> bool" where
  "superseding k e entity b \<longleftrightarrow>
    (if snd b = k then fst b = entity
     else eid_generation entity < eid_generation (fst b) \<and> en_phase e = PhaseExpired)"

definition fenced :: "EventKey \<Rightarrow> EntityId \<Rightarrow> EntityId \<times> EventKey \<Rightarrow> bool" where
  "fenced k entity b \<longleftrightarrow>
    (if snd b = k then fst b = entity else eid_generation entity < eid_generation (fst b))"

definition entry_ok :: "'p EventJournal \<Rightarrow> EventKey \<Rightarrow> 'p EventEntry \<Rightarrow> bool" where
  "entry_ok s k e \<longleftrightarrow>
    ei_key (en_identity e) = k
    \<and> ak_connection (ek_action k) = js_connection (ej_scope s) \<and> ak_stream (ek_action k) = js_stream (ej_scope s)
    \<and> \<not> stale_key (ej_retired s) k
    \<and> (en_payload e \<noteq> None \<longleftrightarrow> en_phase e = PhaseLive)
    \<and> (en_phase e = PhaseLive \<longrightarrow> en_delivered e) \<and> (en_delivered e \<longrightarrow> en_lifetime e \<noteq> None)
    \<and> (en_decision e = DecisionRejected \<longleftrightarrow> en_phase e = PhaseRejected)
    \<and> (ek_action k \<in> set (ej_rejected_actions s) \<longrightarrow> en_decision e \<noteq> DecisionAccepted)
    \<and> (case en_binding e of None \<Rightarrow> True | Some entity \<Rightarrow>
         en_decision e = DecisionAccepted
         \<and> (\<exists>b. map_of (ej_bindings s) (eid_index entity) = Some b \<and> superseding k e entity b))"

definition binding_ok :: "'p EventJournal \<Rightarrow> u64 \<Rightarrow> EntityId \<times> EventKey \<Rightarrow> bool" where
  "binding_ok s i b \<longleftrightarrow> eid_index (fst b) = i
    \<and> (case map_of (ej_entries s) (snd b) of None \<Rightarrow> stale_key (ej_retired s) (snd b)
       | Some e \<Rightarrow> en_binding e = Some (fst b))"

definition journal_ok :: "'p EventJournal \<Rightarrow> bool" where
  "journal_ok s \<longleftrightarrow>
    bt_ok (ej_entries s) \<and> bt_ok (ej_bindings s) \<and> bs_ok (ej_rejected_actions s)
    \<and> length (ej_entries s) \<le> evl_records (ej_limits s)
    \<and> length (ej_bindings s) \<le> evl_bindings (ej_limits s)
    \<and> length (ej_rejected_actions s) \<le> evl_action_fences (ej_limits s)
    \<and> (\<forall>k e. map_of (ej_entries s) k = Some e \<longrightarrow> entry_ok s k e)
    \<and> (\<forall>i b. map_of (ej_bindings s) i = Some b \<longrightarrow> binding_ok s i b)"

lemma journal_okD:
  assumes "journal_ok s"
  shows "bt_ok (ej_entries s)" "bt_ok (ej_bindings s)" "bs_ok (ej_rejected_actions s)"
    "length (ej_entries s) \<le> evl_records (ej_limits s)"
    "length (ej_bindings s) \<le> evl_bindings (ej_limits s)"
    "length (ej_rejected_actions s) \<le> evl_action_fences (ej_limits s)"
  using assms by (simp_all add: journal_ok_def)

lemma journal_ok_entry: "journal_ok s \<Longrightarrow> map_of (ej_entries s) k = Some e \<Longrightarrow> entry_ok s k e"
  by (simp add: journal_ok_def)

lemma journal_ok_binding: "journal_ok s \<Longrightarrow> map_of (ej_bindings s) i = Some b \<Longrightarrow> binding_ok s i b"
  unfolding journal_ok_def by blast

section \<open>Following a journal\<close>

definition shown_as :: "'p Payload \<Rightarrow> 'p \<Rightarrow> 'p \<Rightarrow> bool" where
  "shown_as pl q p \<longleftrightarrow> q = p \<or> pl_eq pl q p"

definition live_payload :: "'p EventEntry \<Rightarrow> 'p option" where
  "live_payload e = (if en_phase e = PhaseLive \<and> reversible_life e then en_payload e else None)"

definition live_visual :: "'p EventJournal \<Rightarrow> EventKey \<Rightarrow> 'p option" where
  "live_visual s k = Option.bind (map_of (ej_entries s) k) live_payload"

definition entry_view :: "'p Payload \<Rightarrow> 'p EventEntry \<Rightarrow> EventKey \<Rightarrow> 'p Presentation \<Rightarrow> bool" where
  "entry_view pl e k p \<longleftrightarrow>
    rel_option (shown_as pl) (map_of (pr_visuals p) k) (live_payload e)
    \<and> (k \<in> set (pr_cues p) \<longleftrightarrow> en_delivered e \<and> \<not> reversible_life e)
    \<and> (k \<in> set (pr_confirmed p) \<longleftrightarrow> en_decision e = DecisionAccepted)
    \<and> map_of (pr_bound p) k = en_binding e"

definition absent_view :: "CommandSeq \<Rightarrow> EventKey \<Rightarrow> 'p Presentation \<Rightarrow> bool" where
  "absent_view retired k p \<longleftrightarrow>
    map_of (pr_visuals p) k = None
    \<and> (stale_key retired k \<or> k \<notin> set (pr_cues p) \<and> k \<notin> set (pr_confirmed p) \<and> map_of (pr_bound p) k = None)"

definition key_view :: "'p Payload \<Rightarrow> 'p EventJournal \<Rightarrow> EventKey \<Rightarrow> 'p Presentation \<Rightarrow> bool" where
  "key_view pl s k p = (case map_of (ej_entries s) k of
     None \<Rightarrow> absent_view (ej_retired s) k p | Some e \<Rightarrow> entry_view pl e k p)"

definition bound_view :: "binding_map \<Rightarrow> 'p Presentation \<Rightarrow> bool" where
  "bound_view m p \<longleftrightarrow> (\<forall>(k, entity) \<in> set (pr_bound p).
     \<exists>b. map_of m (eid_index entity) = Some b \<and> fenced k entity b)"

definition follows :: "'p Payload \<Rightarrow> 'p EventJournal \<Rightarrow> 'p Presentation \<Rightarrow> bool" where
  "follows pl s p \<longleftrightarrow>
    pr_scope p = ej_scope s \<and> distinct (map fst (pr_bound p)) \<and> (\<forall>k. key_view pl s k p)
    \<and> bound_view (ej_bindings s) p"

definition simulates ::
  "'p Payload \<Rightarrow> 'p EventJournal \<Rightarrow> 'p Changes \<Rightarrow> 'p EventJournal \<Rightarrow> 'p Changes \<Rightarrow> bool" where
  "simulates pl s c t d \<longleftrightarrow> (\<exists>news. cs_values d = cs_values c @ news \<and>
    (\<forall>p. follows pl s p \<longrightarrow> (\<exists>q. present_all news p = Some q \<and> follows pl t q)))"

lemma simulates_refl: "simulates pl s c s c"
  unfolding simulates_def by (rule exI[of _ "[]"]) auto

lemma simulates_trans:
  assumes "simulates pl s c t d" "simulates pl t d u f"
  shows "simulates pl s c u f"
proof -
  from assms obtain xs ys where
    vals: "cs_values d = cs_values c @ xs" "cs_values f = cs_values d @ ys" and
    xs: "\<And>p. follows pl s p \<Longrightarrow> \<exists>q. present_all xs p = Some q \<and> follows pl t q" and
    ys: "\<And>p. follows pl t p \<Longrightarrow> \<exists>q. present_all ys p = Some q \<and> follows pl u q"
    unfolding simulates_def by blast
  have "\<exists>q. present_all (xs @ ys) p = Some q \<and> follows pl u q" if "follows pl s p" for p
    using xs[OF that] ys by (fastforce simp: present_all_append)
  with vals show ?thesis
    unfolding simulates_def by (intro exI[of _ "xs @ ys"]) simp
qed

section \<open>Decisions are never undone\<close>

definition entry_below :: "'p EventEntry \<Rightarrow> 'p EventEntry \<Rightarrow> bool" where
  "entry_below e e' \<longleftrightarrow>
    en_identity e' = en_identity e
    \<and> (en_decision e \<noteq> DecisionUnresolved \<longrightarrow> en_decision e' = en_decision e)
    \<and> (en_binding e \<noteq> None \<longrightarrow> en_binding e' = en_binding e)
    \<and> (en_lifetime e \<noteq> None \<longrightarrow> en_lifetime e' = en_lifetime e)
    \<and> (en_delivered e \<longrightarrow> en_delivered e')
    \<and> (en_phase e \<in> {PhaseExpired, PhaseRejected} \<longrightarrow> en_phase e' \<in> {PhaseExpired, PhaseRejected})"

definition fence_below :: "EntityId \<times> EventKey \<Rightarrow> EntityId \<times> EventKey \<Rightarrow> bool" where
  "fence_below b b' \<longleftrightarrow> b' = b \<or> eid_generation (fst b) < eid_generation (fst b')"

definition journal_below :: "'p EventJournal \<Rightarrow> 'p EventJournal \<Rightarrow> bool" where
  "journal_below s t \<longleftrightarrow>
    ej_scope t = ej_scope s \<and> ej_limits t = ej_limits s \<and> ej_now s \<le> ej_now t \<and> ej_retired s \<le> ej_retired t
    \<and> (\<forall>k e. map_of (ej_entries s) k = Some e \<longrightarrow> stale_key (ej_retired t) k
         \<or> (\<exists>e'. map_of (ej_entries t) k = Some e' \<and> entry_below e e'))
    \<and> (\<forall>a \<in> set (ej_rejected_actions s). ak_command a \<le> ej_retired t \<or> a \<in> set (ej_rejected_actions t))
    \<and> (\<forall>i b. map_of (ej_bindings s) i = Some b \<longrightarrow>
         (\<exists>b'. map_of (ej_bindings t) i = Some b' \<and> fence_below b b'))"

lemma entry_below_refl [simp]: "entry_below e e"
  by (simp add: entry_below_def)

lemma entry_below_trans: "entry_below a b \<Longrightarrow> entry_below b c \<Longrightarrow> entry_below a c"
  by (auto simp: entry_below_def)

lemma fence_below_refl [simp]: "fence_below b b"
  by (simp add: fence_below_def)

lemma fence_below_trans: "fence_below a b \<Longrightarrow> fence_below b c \<Longrightarrow> fence_below a c"
  by (auto simp: fence_below_def)

lemma stale_key_mono: "stale_key r k \<Longrightarrow> r \<le> r' \<Longrightarrow> stale_key r' k"
  by (simp add: stale_key_def)

lemma journal_below_refl [simp]: "journal_below s s"
  by (simp add: journal_below_def)

lemma journal_below_trans:
  assumes st: "journal_below s t" and tu: "journal_below t u"
  shows "journal_below s u"
proof -
  have le: "ej_retired t \<le> ej_retired u"
    using tu by (simp add: journal_below_def)
  have "stale_key (ej_retired u) k \<or> (\<exists>e'. map_of (ej_entries u) k = Some e' \<and> entry_below e e')"
    if "map_of (ej_entries s) k = Some e" for k e
    using st tu that le unfolding journal_below_def by (meson entry_below_trans stale_key_mono)
  moreover have "ak_command a \<le> ej_retired u \<or> a \<in> set (ej_rejected_actions u)"
    if "a \<in> set (ej_rejected_actions s)" for a
    using st tu that le unfolding journal_below_def by (meson order_trans)
  moreover have "\<exists>b'. map_of (ej_bindings u) i = Some b' \<and> fence_below b b'"
    if "map_of (ej_bindings s) i = Some b" for i b
    using st tu that unfolding journal_below_def by (meson fence_below_trans)
  ultimately show ?thesis
    using st tu unfolding journal_below_def by auto
qed

definition evolves ::
  "'p Payload \<Rightarrow> 'p EventJournal \<Rightarrow> 'p Changes \<Rightarrow> 'p EventJournal \<Rightarrow> 'p Changes \<Rightarrow> bool" where
  "evolves pl s c t d \<longleftrightarrow> journal_ok t \<and> simulates pl s c t d \<and> journal_below s t"

lemma evolves_refl: "journal_ok s \<Longrightarrow> evolves pl s c s c"
  by (simp add: evolves_def simulates_refl)

lemma evolves_trans: "evolves pl s c t d \<Longrightarrow> evolves pl t d u f \<Longrightarrow> evolves pl s c u f"
  unfolding evolves_def by (blast intro: simulates_trans journal_below_trans)

end
