(* ===== verification/Net_Event_Steps.thy ===== *)
theory Net_Event_Steps
  imports Net_Event_Facts
begin

text \<open>
  The operations inside a transaction of the event journal: each of them \<open>evolves\<close> the staged journal.
  A change of one record is \<open>entry_evolves\<close>; cancelling, showing, confirming and binding are
  instances of it, and the loops compose them.
\<close>

section \<open>Changing one record\<close>

lemma emit_values: "emit pl mem s c x = Inr d \<Longrightarrow> cs_values d = cs_values c @ [x]"
  by (auto simp: emit_def Let_def split: if_splits)

lemma put_entry_fields [simp]:
  "ej_scope (put_entry k e s) = ej_scope s" "ej_limits (put_entry k e s) = ej_limits s"
  "ej_now (put_entry k e s) = ej_now s" "ej_retired (put_entry k e s) = ej_retired s"
  "ej_bindings (put_entry k e s) = ej_bindings s"
  "ej_rejected_actions (put_entry k e s) = ej_rejected_actions s"
  "map fst (ej_entries (put_entry k e s)) = map fst (ej_entries s)"
  by (simp_all add: put_entry_def bt_update_def)

lemma put_entry_lookup [simp]:
  "map_of (ej_entries (put_entry k e s)) a =
    (if a = k then map_option (\<lambda>_. e) (map_of (ej_entries s) k) else map_of (ej_entries s) a)"
  by (simp add: put_entry_def)

lemma put_entry_put [simp]: "put_entry k e' (put_entry k e s) = put_entry k e' s"
  by (simp add: put_entry_def bt_update_def bt_map_def case_prod_beta comp_def)

lemma put_entry_same: "bt_ok (ej_entries s) \<Longrightarrow> map_of (ej_entries s) k = Some e \<Longrightarrow> put_entry k e s = s"
proof -
  assume ok: "bt_ok (ej_entries s)" and e: "map_of (ej_entries s) k = Some e"
  have "map (\<lambda>(a, v). (a, if a = k then e else v)) (ej_entries s) = map (\<lambda>x. x) (ej_entries s)"
    using bt_keys_unique[OF ok] e by (intro map_cong) auto
  then show ?thesis
    by (simp add: put_entry_def bt_update_def bt_map_def)
qed

lemma entry_ok_put [simp]: "entry_ok (put_entry k e s) = entry_ok s"
  by (simp add: entry_ok_def fun_eq_iff cong: option.case_cong)

lemma put_entry_ok:
  assumes ok: "journal_ok s" and e: "map_of (ej_entries s) k = Some e" and e': "entry_ok s k e'"
    and b: "en_binding e' = en_binding e"
  shows "journal_ok (put_entry k e' s)"
proof -
  have "entry_ok s a x" if "map_of (ej_entries (put_entry k e' s)) a = Some x" for a x
    using that e e' journal_ok_entry[OF ok] by (auto split: if_splits)
  moreover have "binding_ok (put_entry k e' s) i y" if "map_of (ej_bindings s) i = Some y" for i y
    using journal_ok_binding[OF ok that] e b by (auto simp: binding_ok_def cong: option.case_cong)
  moreover have "length (ej_entries (put_entry k e' s)) = length (ej_entries s)"
    and "bt_ok (ej_entries (put_entry k e' s)) = bt_ok (ej_entries s)"
    by (simp_all add: put_entry_def)
  ultimately show ?thesis
    using ok unfolding journal_ok_def by simp
qed

definition same_but :: "EventKey \<Rightarrow> 'p Presentation \<Rightarrow> 'p Presentation \<Rightarrow> bool" where
  "same_but k p q \<longleftrightarrow>
    pr_scope q = pr_scope p \<and> pr_bound q = pr_bound p
    \<and> (\<forall>a. a \<noteq> k \<longrightarrow> map_of (pr_visuals q) a = map_of (pr_visuals p) a
         \<and> (a \<in> set (pr_cues q) \<longleftrightarrow> a \<in> set (pr_cues p))
         \<and> (a \<in> set (pr_confirmed q) \<longleftrightarrow> a \<in> set (pr_confirmed p)))"

definition shows_entry :: "'p Payload \<Rightarrow> EventKey \<Rightarrow> 'p EventEntry \<Rightarrow> 'p EventChange list \<Rightarrow> 'p EventEntry \<Rightarrow> bool" where
  "shows_entry pl k e news e' \<longleftrightarrow> (\<forall>p. entry_view pl e k p \<longrightarrow>
     (\<exists>q. present_all news p = Some q \<and> entry_view pl e' k q \<and> same_but k p q))"

lemma key_view_same_but:
  "same_but k p q \<Longrightarrow> a \<noteq> k \<Longrightarrow> key_view pl (put_entry k e s) a q = key_view pl s a p"
  by (auto simp: key_view_def absent_view_def entry_view_def same_but_def split: option.split)

lemma entry_simulates:
  assumes e: "map_of (ej_entries s) k = Some e" and vals: "cs_values d = cs_values c @ news"
    and shows_news: "shows_entry pl k e news e'"
  shows "simulates pl s c (put_entry k e' s) d"
  unfolding simulates_def
proof (intro exI[of _ news] conjI allI impI)
  fix p assume p: "follows pl s p"
  then have "entry_view pl e k p"
    using e by (auto simp: follows_def key_view_def dest: spec[of _ k])
  then obtain q where q: "present_all news p = Some q" "entry_view pl e' k q" "same_but k p q"
    using shows_news by (auto simp: shows_entry_def)
  have "key_view pl (put_entry k e' s) a q" for a
  proof (cases "a = k")
    case True
    then show ?thesis
      using q(2) e by (simp add: key_view_def)
  next
    case False
    then show ?thesis
      using p key_view_same_but[OF q(3) False, of pl e' s] by (auto simp: follows_def)
  qed
  moreover have "pr_scope q = ej_scope s" "distinct (map fst (pr_bound q))" "bound_view (ej_bindings s) q"
    using p q(3) by (auto simp: follows_def same_but_def bound_view_def)
  ultimately show "\<exists>q. present_all news p = Some q \<and> follows pl (put_entry k e' s) q"
    using q(1) by (auto simp: follows_def)
qed (rule vals)

lemma put_entry_below:
  assumes "map_of (ej_entries s) k = Some e" "entry_below e e'"
  shows "journal_below s (put_entry k e' s)"
  using assms by (auto simp: journal_below_def)

lemma entry_evolves:
  assumes "journal_ok s" "map_of (ej_entries s) k = Some e" "entry_ok s k e'" "entry_below e e'"
    "en_binding e' = en_binding e" "cs_values d = cs_values c @ news" "shows_entry pl k e news e'"
  shows "evolves pl s c (put_entry k e' s) d"
  using assms by (simp add: evolves_def put_entry_ok entry_simulates put_entry_below)

lemma shows_silent:
  assumes "live_payload e' = live_payload e" "reversible_life e' = reversible_life e \<or> \<not> en_delivered e"
    "en_delivered e' = en_delivered e"
    "en_decision e' = DecisionAccepted \<longleftrightarrow> en_decision e = DecisionAccepted" "en_binding e' = en_binding e"
  shows "shows_entry pl k e [] e'"
  using assms by (auto simp: shows_entry_def entry_view_def same_but_def)

section \<open>Cancelling\<close>

definition same_record :: "'p EventEntry \<Rightarrow> 'p EventEntry \<Rightarrow> bool" where
  "same_record e e1 \<longleftrightarrow>
    en_identity e1 = en_identity e \<and> en_payload e1 = en_payload e \<and> en_phase e1 = en_phase e
    \<and> en_delivered e1 = en_delivered e \<and> en_binding e1 = en_binding e
    \<and> (en_lifetime e1 = en_lifetime e \<or> en_lifetime e = None)
    \<and> (en_decision e1 = en_decision e \<or> en_decision e = DecisionUnresolved \<and> en_decision e1 = DecisionRejected)"

lemma same_record_refl [simp]: "same_record e e"
  by (simp add: same_record_def)

lemma cancel_evolves:
  assumes ok: "journal_ok s" and e: "map_of (ej_entries s) k = Some e" and e1: "same_record e e1"
    and c: "cancel_entry pl mem k phase reason (put_entry k e1 s) c = Inr (t, d)"
    and phase: "phase \<in> {PhaseReplayAbsent, PhaseExpired, PhaseRejected}"
      "phase = PhaseRejected \<longleftrightarrow> en_decision e1 = DecisionRejected"
      "en_phase e \<in> {PhaseExpired, PhaseRejected} \<Longrightarrow> phase \<in> {PhaseExpired, PhaseRejected}"
      "en_binding e \<noteq> None \<Longrightarrow> phase = PhaseExpired"
  shows "evolves pl s c t d" "t = put_entry k (e1\<lparr>en_phase := phase, en_payload := None\<rparr>) s"
proof -
  define e' where "e' = e1\<lparr>en_phase := phase, en_payload := None\<rparr>"
  note ek = journal_ok_entry[OF ok e]
  have key: "ei_key (en_identity e1) = k"
    using ek e1 by (simp add: entry_ok_def same_record_def)
  obtain news where d: "cs_values d = cs_values c @ news" and t: "t = put_entry k e' s"
    and news: "news = (if en_phase e1 = PhaseLive \<and> reversible_life e1 then [EvCancel k reason] else [])"
    using c e key by (auto simp: cancel_entry_def entry_at_def res_simps e'_def split: if_splits dest: emit_values)
  have life: "en_delivered e \<longrightarrow> en_lifetime e1 = en_lifetime e \<and> en_lifetime e1 \<noteq> None"
    using ek e1 by (auto simp: entry_ok_def same_record_def)
  then have rev: "reversible_life e1 = reversible_life e \<or> \<not> en_delivered e"
    "reversible_life e' = reversible_life e1"
    by (auto simp: reversible_life_def e'_def)
  have live_delivered: "en_phase e = PhaseLive \<Longrightarrow> en_delivered e"
    using ek by (simp add: entry_ok_def)
  have dec: "en_decision e1 = DecisionAccepted \<longleftrightarrow> en_decision e = DecisionAccepted"
    using e1 by (auto simp: same_record_def)
  have "shows_entry pl k e news e'"
  proof (cases "en_phase e1 = PhaseLive \<and> reversible_life e1")
    case True
    then have live: "live_payload e = en_payload e" "en_payload e \<noteq> None" "reversible_life e"
      using ek e1 rev live_delivered by (auto simp: live_payload_def entry_ok_def same_record_def)
    have "live_payload e' = None"
      using phase(1) by (auto simp: live_payload_def e'_def)
    then show ?thesis
      unfolding shows_entry_def
      using True live e1 dec rev news
      by (auto simp: entry_view_def same_but_def bt_contains_def same_record_def option_rel_Some2 e'_def)
  next
    case False
    have "live_payload e' = None" "live_payload e = None"
      using phase(1) False rev e1 live_delivered by (auto simp: live_payload_def e'_def same_record_def)
    moreover have "news = []"
      using False news by auto
    ultimately show ?thesis
      using rev dec e1 by (simp only:) (rule shows_silent, simp_all add: same_record_def e'_def)
  qed
  moreover have nl: "phase \<noteq> PhaseLive"
    using phase(1) by auto
  have "entry_ok s k e'"
  proof (cases "en_binding e")
    case None
    then show ?thesis
      using ek e1 nl phase(2) dec life by (simp add: entry_ok_def same_record_def e'_def)
  next
    case (Some entity)
    have "superseding k e' entity b" if "superseding k e entity b" for b
      using that phase(4) Some by (simp add: superseding_def e'_def)
    then show ?thesis
      using Some ek e1 nl phase(2) dec life by (simp add: entry_ok_def same_record_def e'_def) blast
  qed
  moreover have "entry_below e e'"
    using e1 phase by (auto simp: entry_below_def same_record_def e'_def)
  moreover have "en_binding e' = en_binding e"
    using e1 by (simp add: same_record_def e'_def)
  ultimately show "evolves pl s c t d"
    unfolding t by (intro entry_evolves[OF ok e _ _ _ d])
  show "t = put_entry k (e1\<lparr>en_phase := phase, en_payload := None\<rparr>) s"
    unfolding t e'_def ..
qed

section \<open>Results of the staged operations\<close>

definition steps :: "'p Payload \<Rightarrow> 'p EventJournal \<Rightarrow> 'p Changes \<Rightarrow> 'p staged event_result \<Rightarrow> bool" where
  "steps pl s c r = (case r of Inr (t, d) \<Rightarrow> evolves pl s c t d | Inl f \<Rightarrow> (\<exists>x. f = Err x))"

lemma steps_simps [simp]:
  "steps pl s c (Inl (Err x))"
  "\<not> steps pl s c (Inl (Panic y))"
  "steps pl s c (Inr (t, d)) \<longleftrightarrow> evolves pl s c t d"
  by (simp_all add: steps_def)

lemma steps_bind:
  assumes "steps pl s c r" "\<And>t d. r = Inr (t, d) \<Longrightarrow> evolves pl s c t d \<Longrightarrow> steps pl t d (f (t, d))"
  shows "steps pl s c (and_then r f)"
proof (cases r)
  case (Inr x)
  then obtain t d where x: "r = Inr (t, d)"
    by (cases x) auto
  with assms have "evolves pl s c t d" "steps pl t d (f (t, d))"
    by (auto simp: steps_def)
  with x show ?thesis
    by (auto simp: steps_def split: sum.splits dest: evolves_trans)
qed (use assms(1) in \<open>auto simp: steps_def\<close>)

lemma steps_from: "evolves pl s c t d \<Longrightarrow> steps pl t d r \<Longrightarrow> steps pl s c r"
  by (auto simp: steps_def split: sum.splits dest: evolves_trans)

lemma evolves_ok: "evolves pl s c t d \<Longrightarrow> journal_ok t"
  by (simp add: evolves_def)

lemma emit_error: "emit pl mem s c x = Inl f \<Longrightarrow> \<exists>y. f = Err y"
  by (auto simp: emit_def Let_def split: if_splits)

lemma steps_emit:
  assumes "\<And>d. cs_values d = cs_values c @ [x] \<Longrightarrow> evolves pl s c t d"
  shows "steps pl s c (and_then (emit pl mem u c x) (\<lambda>d. Inr (t, d)))"
proof (cases "emit pl mem u c x")
  case (Inl f)
  with emit_error[OF Inl] show ?thesis
    by auto
next
  case (Inr d)
  with assms[OF emit_values[OF Inr]] show ?thesis
    by simp
qed

definition cancel_fit :: "Phase \<Rightarrow> 'p EventEntry \<Rightarrow> 'p EventEntry \<Rightarrow> bool" where
  "cancel_fit phase e e1 \<longleftrightarrow>
    same_record e e1
    \<and> phase \<in> {PhaseReplayAbsent, PhaseExpired, PhaseRejected}
    \<and> (phase = PhaseRejected \<longleftrightarrow> en_decision e1 = DecisionRejected)
    \<and> (en_phase e \<in> {PhaseExpired, PhaseRejected} \<longrightarrow> phase \<in> {PhaseExpired, PhaseRejected})
    \<and> (en_binding e \<noteq> None \<longrightarrow> phase = PhaseExpired)"

lemma cancel_steps:
  assumes ok: "journal_ok s" and e: "map_of (ej_entries s) k = Some e" and fit: "cancel_fit phase e e1"
  shows "steps pl s c (cancel_entry pl mem k phase reason (put_entry k e1 s) c)"
proof (cases "cancel_entry pl mem k phase reason (put_entry k e1 s) c")
  case (Inl f)
  then have "\<exists>x. f = Err x"
    using e by (auto simp: cancel_entry_def entry_at_def res_simps split: if_splits dest: emit_error)
  with Inl show ?thesis
    by (auto simp: steps_def)
next
  case (Inr x)
  obtain t d where x: "x = (t, d)"
    by (cases x)
  show ?thesis
    unfolding Inr x steps_simps
    by (rule cancel_evolves(1)[OF ok e _ Inr[unfolded x]]) (use fit in \<open>auto simp: cancel_fit_def\<close>)
qed

lemma cancel_state:
  assumes "map_of (ej_entries s) k = Some e"
    "cancel_entry pl mem k phase reason (put_entry k e1 s) c = Inr (t, d)"
  shows "t = put_entry k (e1\<lparr>en_phase := phase, en_payload := None\<rparr>) s"
  using assms by (auto simp: cancel_entry_def entry_at_def res_simps)

lemma cancel_all_steps:
  assumes "journal_ok s" "\<forall>k \<in> set ks. map_of (ej_entries s) k \<noteq> None"
    and fit: "\<And>u k e. entry_ok u k e \<Longrightarrow> ej_rejected_actions u = ej_rejected_actions s \<Longrightarrow> cond e \<Longrightarrow>
      cancel_fit phase e (mark e)"
  shows "steps pl s c (cancel_all pl mem cond mark phase reason ks s c)"
  using assms
proof (induction ks arbitrary: s c)
  case Nil
  then show ?case
    by (simp add: evolves_refl)
next
  case (Cons k ks)
  then obtain e where e: "map_of (ej_entries s) k = Some e"
    by auto
  show ?case
  proof (cases "cond e")
    case True
    have f: "cancel_fit phase e (mark e)"
      using Cons.prems(3)[OF journal_ok_entry[OF Cons.prems(1) e] refl True] .
    have "steps pl t d (cancel_all pl mem cond mark phase reason ks t d)"
      if t: "cancel_entry pl mem k phase reason (put_entry k (mark e) s) c = Inr (t, d)"
        and ev: "evolves pl s c t d" for t d
      using cancel_state[OF e t] Cons.prems evolves_ok[OF ev] e by (intro Cons.IH) auto
    then show ?thesis
      using e True by (simp add: entry_at_def) (rule steps_bind[OF cancel_steps[OF Cons.prems(1) e f]], auto)
  next
    case False
    then show ?thesis
      using e Cons.IH[OF Cons.prems(1) _ Cons.prems(3)] Cons.prems(2) by (simp add: entry_at_def)
  qed
qed

definition same_content :: "'p EventJournal \<Rightarrow> 'p EventJournal \<Rightarrow> bool" where
  "same_content s t \<longleftrightarrow>
    ej_scope t = ej_scope s \<and> ej_limits t = ej_limits s \<and> ej_retired t = ej_retired s
    \<and> ej_entries t = ej_entries s \<and> ej_bindings t = ej_bindings s
    \<and> ej_rejected_actions t = ej_rejected_actions s"

lemma same_content_evolves:
  assumes st: "same_content s t" and ok: "journal_ok s" and now: "ej_now s \<le> ej_now t"
  shows "evolves pl s c t c"
proof -
  have "entry_ok t = entry_ok s" "binding_ok t = binding_ok s"
    using st by (simp_all add: same_content_def fun_eq_iff entry_ok_def binding_ok_def cong: option.case_cong)
  then have "journal_ok t"
    using ok st by (simp add: journal_ok_def same_content_def)
  moreover have "key_view pl t = key_view pl s"
    using st by (simp add: same_content_def fun_eq_iff key_view_def cong: option.case_cong)
  then have "follows pl t = follows pl s"
    using st by (simp add: same_content_def fun_eq_iff follows_def)
  then have "simulates pl s c t c"
    unfolding simulates_def by (intro exI[of _ "[]"]) simp
  moreover have "journal_below s t"
    using st now by (auto simp: journal_below_def same_content_def)
  ultimately show ?thesis
    by (simp add: evolves_def)
qed

lemma set_now_evolves: "journal_ok s \<Longrightarrow> set_now now s = Inr t \<Longrightarrow> evolves pl s c t c"
  by (rule same_content_evolves) (auto simp: same_content_def set_now_def split: if_splits)

lemma lookup_keys: "\<forall>k \<in> set (map fst m). map_of m k \<noteq> None"
  by (auto simp: map_of_eq_None_iff image_iff)

lemma advance_inner_steps:
  assumes "journal_ok s"
  shows "steps pl s c (advance_inner pl mem now s c)"
proof (cases "set_now now s")
  case (Inl f)
  then show ?thesis
    by (auto simp: advance_inner_def set_now_def split: if_splits)
next
  case (Inr t)
  note ev = set_now_evolves[OF assms Inr, of pl c]
  have "steps pl t c (cancel_all pl mem (expired_prediction now) (\<lambda>e. e) PhaseExpired ReasonExpired
      (map fst (ej_entries t)) t c)"
    by (rule cancel_all_steps[OF evolves_ok[OF ev] lookup_keys])
      (auto simp: cancel_fit_def expired_prediction_def entry_ok_def)
  then show ?thesis
    using steps_from[OF ev] Inr by (simp add: advance_inner_def)
qed

end
