(* ===== verification/Net_Event_Ops.thy ===== *)
theory Net_Event_Ops
  imports Net_Event_Steps
begin

text \<open>
  Every operation of the event journal: adding a record, applying a corrected event, binding an
  entity, deciding an outcome; then the public operations as transactions over these.
\<close>

section \<open>Adding a record\<close>

lemma valid_action_Inr:
  "valid_action a s = Inr u \<longleftrightarrow>
    ak_connection a = js_connection (ej_scope s) \<and> ak_stream a = js_stream (ej_scope s)
    \<and> ak_command a \<noteq> 0 \<and> \<not> ak_command a \<le> ej_retired s"
  by (auto simp: valid_action_def)

lemma valid_identity_Inr:
  assumes "valid_identity i s = Inr u"
  shows "valid_action (ek_action (ei_key i)) s = Inr ()"
    "map_of (ej_entries s) (ei_key i) = Some e \<Longrightarrow> en_identity e = i"
  using assms by (auto simp: valid_identity_def res_simps split: if_splits option.splits)

lemma valid_identity_error: "valid_identity i s = Inl f \<Longrightarrow> \<exists>x. f = Err x"
  by (auto simp: valid_identity_def valid_action_def res_simps split: if_splits option.splits)

lemma insert_entry_evolves:
  fixes s :: "'p EventJournal"
  assumes ok: "journal_ok s" and va: "valid_action (ek_action (ei_key i)) s = Inr ()"
    and none: "map_of (ej_entries s) (ei_key i) = None"
    and room: "length (ej_entries s) < evl_records (ej_limits s)"
  defines "t \<equiv> s\<lparr>ej_entries := bt_insert (ei_key i) (new_entry i) (ej_entries s)\<rparr>"
  shows "evolves pl s c t c"
proof -
  let ?k = "ei_key i"
  note m = journal_okD[OF ok]
  have look: "map_of (ej_entries t) = (map_of (ej_entries s))(?k \<mapsto> new_entry i)"
    using m by (simp add: t_def)
  have kept: "ej_retired t = ej_retired s"
    by (simp add: t_def)
  have fresh: "\<not> stale_key (ej_retired s) ?k"
    using va by (simp add: valid_action_Inr stale_key_def)
  have "entry_ok t = entry_ok s"
    by (simp add: t_def fun_eq_iff entry_ok_def cong: option.case_cong)
  moreover have "entry_ok s ?k (new_entry i)"
    using va fresh by (simp add: entry_ok_def new_entry_def valid_action_Inr)
  ultimately have "entry_ok t a e" if "map_of (ej_entries t) a = Some e" for a e
    using that journal_ok_entry[OF ok] by (auto simp: look split: if_splits)
  moreover have "binding_ok t j b" if "map_of (ej_bindings s) j = Some b" for j b
    using journal_ok_binding[OF ok that] none fresh
    by (auto simp: binding_ok_def look kept cong: option.case_cong)
  ultimately have "journal_ok t"
    using m room length_bt_insert[OF m(1), of ?k "new_entry i"] none by (simp add: journal_ok_def t_def)
  moreover have "key_view pl t a p" if "\<And>a. key_view pl s a p" for a p
    using that[of a] none fresh
    by (auto simp: key_view_def look absent_view_def entry_view_def new_entry_def live_payload_def kept
        cong: option.case_cong)
  then have "simulates pl s c t c"
    unfolding simulates_def by (intro exI[of _ "[]"]) (auto simp: follows_def t_def)
  moreover have "journal_below s t"
    using none by (auto simp: journal_below_def look) (simp_all add: t_def)
  ultimately show ?thesis
    by (simp add: evolves_def)
qed

lemma find_or_insert_evolves:
  assumes ok: "journal_ok s" and t: "find_or_insert i s = Inr t"
  obtains e where "evolves pl s c t c" "map_of (ej_entries t) (ei_key i) = Some e"
proof -
  from t have v: "valid_identity i s = Inr ()"
    by (auto simp: find_or_insert_def res_simps)
  show ?thesis
  proof (cases "map_of (ej_entries s) (ei_key i)")
    case None
    with t v have t': "t = s\<lparr>ej_entries := bt_insert (ei_key i) (new_entry i) (ej_entries s)\<rparr>"
      and room: "length (ej_entries s) < evl_records (ej_limits s)"
      by (auto simp: find_or_insert_def split: if_splits)
    have "map_of (ej_entries t) (ei_key i) = Some (new_entry i)"
      using journal_okD(1)[OF ok] by (simp add: t')
    then show ?thesis
      using that insert_entry_evolves[OF ok valid_identity_Inr(1)[OF v] None room] unfolding t' by blast
  next
    case (Some e)
    with t v have "t = s"
      by (simp add: find_or_insert_def)
    with Some that evolves_refl[OF ok] show ?thesis
      by blast
  qed
qed

lemma find_or_insert_error: "find_or_insert i s = Inl f \<Longrightarrow> \<exists>x. f = Err x"
  by (auto simp: find_or_insert_def res_simps split: if_splits option.splits dest: valid_identity_error)

lemma find_or_insert_steps:
  assumes ok: "journal_ok s"
    and go: "\<And>t e. find_or_insert i s = Inr t \<Longrightarrow> evolves pl s c t c \<Longrightarrow> journal_ok t \<Longrightarrow>
      map_of (ej_entries t) (ei_key i) = Some e \<Longrightarrow> steps pl t c (f t)"
  shows "steps pl s c (and_then (find_or_insert i s) f)"
proof (cases "find_or_insert i s")
  case (Inl x)
  with find_or_insert_error[OF Inl] show ?thesis
    by auto
next
  case (Inr t)
  obtain e where ev: "evolves pl s c t c" and e: "map_of (ej_entries t) (ei_key i) = Some e"
    by (rule find_or_insert_evolves[OF ok Inr])
  have "steps pl t c (f t)"
    by (rule go[OF Inr ev evolves_ok[OF ev] e])
  then show ?thesis
    using steps_from[OF ev] Inr by simp
qed

section \<open>Corrected events\<close>

definition showable :: "'p EventEntry \<Rightarrow> bool" where
  "showable e \<longleftrightarrow> en_phase e \<in> {PhaseUnseen, PhaseLive, PhaseReplayAbsent}"

definition shown_entry :: "'p EventRecord \<Rightarrow> 'p EventEntry \<Rightarrow> 'p EventEntry" where
  "shown_entry ev e = e\<lparr>en_lifetime := Some \<lparr>lt_expires = er_expires_at ev, lt_delivery = er_delivery ev\<rparr>,
     en_payload := Some (er_payload ev), en_phase := PhaseLive, en_delivered := True\<rparr>"

definition shown_news :: "'p Payload \<Rightarrow> 'p EventRecord \<Rightarrow> 'p EventEntry \<Rightarrow> 'p EventChange list" where
  "shown_news pl ev e =
    (if en_phase e \<noteq> PhaseLive \<and> (\<not> en_delivered e \<or> er_delivery ev \<noteq> OneShot)
     then [EvCreate ev (en_decision e = DecisionAccepted) (en_binding e)]
     else if (case en_payload e of None \<Rightarrow> True | Some p \<Rightarrow> \<not> pl_eq pl p (er_payload ev))
             \<and> (er_delivery ev \<noteq> OneShot \<or> en_phase e = PhaseLive)
     then [EvUpdate ev] else [])"

lemma shown_as_trans: "transp (pl_eq pl) \<Longrightarrow> shown_as pl q p \<Longrightarrow> pl_eq pl p r \<Longrightarrow> shown_as pl q r"
  by (auto simp: shown_as_def dest: transpD)

lemma shown_entry_fields:
  "en_delivered (shown_entry ev e)" "en_decision (shown_entry ev e) = en_decision e"
  "en_binding (shown_entry ev e) = en_binding e"
  by (simp_all add: shown_entry_def)

lemma live_payload_shown:
  "live_payload (shown_entry ev e) = (if er_delivery ev = OneShot then None else Some (er_payload ev))"
  "reversible_life (shown_entry ev e) \<longleftrightarrow> er_delivery ev \<noteq> OneShot"
  by (simp_all add: live_payload_def shown_entry_def reversible_life_def)

lemma shows_event:
  assumes tr: "transp (pl_eq pl)" and ek: "entry_ok s (ei_key (er_identity ev)) e"
    and life: "en_lifetime e = None \<or> en_lifetime e = Some \<lparr>lt_expires = er_expires_at ev, lt_delivery = er_delivery ev\<rparr>"
  shows "shows_entry pl (ei_key (er_identity ev)) e (shown_news pl ev e) (shown_entry ev e)"
proof -
  let ?k = "ei_key (er_identity ev)"
  have rev: "en_delivered e \<Longrightarrow> reversible_life e \<longleftrightarrow> er_delivery ev \<noteq> OneShot"
    using ek life by (auto simp: entry_ok_def reversible_life_def)
  have inv: "en_phase e = PhaseLive \<Longrightarrow> en_delivered e" "en_payload e \<noteq> None \<longleftrightarrow> en_phase e = PhaseLive"
    using ek by (simp_all add: entry_ok_def)
  have "\<exists>q. present_all (shown_news pl ev e) p = Some q \<and> entry_view pl (shown_entry ev e) ?k q \<and> same_but ?k p q"
    if view: "entry_view pl e ?k p" for p
  proof -
    consider (create) "en_phase e \<noteq> PhaseLive" "\<not> en_delivered e \<or> er_delivery ev \<noteq> OneShot"
      | (cue) "en_delivered e" "er_delivery ev = OneShot"
      | (visual) v where "en_phase e = PhaseLive" "er_delivery ev \<noteq> OneShot" "en_payload e = Some v"
      using inv by blast
    then show ?thesis
    proof cases
      case create
      then have "live_payload e = None"
        by (simp add: live_payload_def)
      with create view rev show ?thesis
        by (auto simp: shown_news_def entry_view_def live_payload_shown same_but_def bt_contains_def shown_as_def
            shown_entry_fields Let_def)
    next
      case cue
      then have "live_payload e = None" "?k \<in> set (pr_cues p)"
        using rev view by (simp_all add: live_payload_def entry_view_def)
      with cue view show ?thesis
        by (auto simp: shown_news_def entry_view_def live_payload_shown same_but_def shown_entry_fields Let_def)
    next
      case visual
      then have "live_payload e = Some v" "reversible_life e" "en_delivered e"
        using rev inv by (simp_all add: live_payload_def)
      with visual view rev show ?thesis
        by (auto simp: shown_news_def entry_view_def live_payload_shown same_but_def bt_contains_def option_rel_Some2
            shown_entry_fields shown_as_def Let_def dest: transpD[OF tr])
    qed
  qed
  then show ?thesis
    by (simp add: shows_entry_def)
qed

lemma shown_entry_ok:
  assumes ek: "entry_ok s k e" and ph: "showable e"
  shows "entry_ok s k (shown_entry ev e)"
proof -
  have "superseding k (shown_entry ev e) entity b" if "superseding k e entity b" for entity b
    using that ph by (auto simp: superseding_def showable_def split: if_splits)
  moreover have "en_decision e \<noteq> DecisionRejected"
    using ek ph by (auto simp: entry_ok_def showable_def)
  ultimately show ?thesis
    using ek by (auto simp: entry_ok_def shown_entry_def split: option.splits)
qed

lemma check_resident_error: "check_resident pl mem s = Inl f \<Longrightarrow> \<exists>x. f = Err x"
  by (auto simp: check_resident_def split: if_splits)

lemma show_event_steps:
  assumes tr: "transp (pl_eq pl)" and ok: "journal_ok s"
    and e0: "map_of (ej_entries s) (ei_key (er_identity ev)) = Some e0" and ph: "showable e0"
    and life: "en_lifetime e0 = None \<or> en_lifetime e0 = Some \<lparr>lt_expires = er_expires_at ev, lt_delivery = er_delivery ev\<rparr>"
  defines "e \<equiv> e0\<lparr>en_lifetime := Some \<lparr>lt_expires = er_expires_at ev, lt_delivery = er_delivery ev\<rparr>\<rparr>"
  shows "steps pl s c (show_event pl mem ev e (put_entry (ei_key (er_identity ev)) e s) c)"
proof -
  let ?k = "ei_key (er_identity ev)" and ?t = "put_entry (ei_key (er_identity ev)) (shown_entry ev e0) s"
  note ek = journal_ok_entry[OF ok e0]
  have ev: "evolves pl s c ?t d" if "cs_values d = cs_values c @ shown_news pl ev e0" for d
  proof (rule entry_evolves[OF ok e0 shown_entry_ok[OF ek ph] _ _ that shows_event[OF tr ek life]])
    show "entry_below e0 (shown_entry ev e0)"
      using ph life by (auto simp: entry_below_def shown_entry_def showable_def)
    show "en_binding (shown_entry ev e0) = en_binding e0"
      by (simp add: shown_entry_def)
  qed
  have shown: "show_event pl mem ev e (put_entry ?k e s) c =
    and_then (check_resident pl mem ?t) (\<lambda>_.
      case shown_news pl ev e0 of [] \<Rightarrow> Inr (?t, c)
      | x # _ \<Rightarrow> and_then (emit pl mem ?t c x) (\<lambda>d. Inr (?t, d)))"
    by (simp add: show_event_def Let_def shown_news_def e_def shown_entry_def)
  have "shown_news pl ev e0 = [] \<or> (\<exists>x. shown_news pl ev e0 = [x])"
    by (simp add: shown_news_def)
  then have "steps pl s c (case shown_news pl ev e0 of [] \<Rightarrow> Inr (?t, c)
      | x # _ \<Rightarrow> and_then (emit pl mem ?t c x) (\<lambda>d. Inr (?t, d)))"
    using ev by (auto intro!: steps_emit)
  then show ?thesis
    unfolding shown using check_resident_error[of pl mem ?t] by (cases "check_resident pl mem ?t") auto
qed

lemma check_event_error: "check_event pl window validate before ev s = Inl f \<Longrightarrow> \<exists>x. f = Err x"
  by (auto simp: check_event_def Let_def res_simps split: if_splits dest: valid_identity_error)

text \<open>What the loop body does once the record is there.\<close>

lemma corrected_steps:
  assumes tr: "transp (pl_eq pl)" and ok: "journal_ok t"
    and e0: "map_of (ej_entries t) k = Some e0" and k: "k = ei_key (er_identity ev)"
    and life: "en_lifetime e0 = None \<or> en_lifetime e0 = Some life"
      "life = \<lparr>lt_expires = er_expires_at ev, lt_delivery = er_delivery ev\<rparr>"
    and e: "e = e0\<lparr>en_lifetime := Some life\<rparr>"
  shows "ek_action k \<in> set (ej_rejected_actions t) \<Longrightarrow>
      steps pl t c (cancel_entry pl mem k PhaseRejected ReasonRejected
        (put_entry k (e\<lparr>en_decision := DecisionRejected\<rparr>) t) c)"
    and "en_phase e \<noteq> PhaseLive \<Longrightarrow> evolves pl t c (put_entry k e t) c"
    and "showable e \<Longrightarrow> steps pl t c (cancel_entry pl mem k PhaseExpired ReasonExpired (put_entry k e t) c)"
    and "showable e \<Longrightarrow> steps pl t c (show_event pl mem ev e (put_entry k e t) c)"
proof -
  note ek = journal_ok_entry[OF ok e0]
  show "steps pl t c (cancel_entry pl mem k PhaseRejected ReasonRejected
      (put_entry k (e\<lparr>en_decision := DecisionRejected\<rparr>) t) c)" if "ek_action k \<in> set (ej_rejected_actions t)"
  proof (rule cancel_steps[OF ok e0])
    have "en_decision e0 \<noteq> DecisionAccepted" "en_binding e0 = None"
      using ek that by (auto simp: entry_ok_def split: option.splits)
    then show "cancel_fit PhaseRejected e0 (e\<lparr>en_decision := DecisionRejected\<rparr>)"
      using life by (cases "en_decision e0") (auto simp: cancel_fit_def same_record_def e)
  qed
  have "superseding k e = superseding k e0"
    by (simp add: superseding_def fun_eq_iff e)
  then have ek': "entry_ok t k e"
    using ek by (simp add: entry_ok_def e cong: option.case_cong)
  have rev: "reversible_life e = reversible_life e0 \<or> \<not> en_delivered e0"
    using ek life(1) by (auto simp: entry_ok_def reversible_life_def e)
  show "evolves pl t c (put_entry k e t) c" if "en_phase e \<noteq> PhaseLive"
  proof (rule entry_evolves[OF ok e0 ek'])
    show "shows_entry pl k e0 [] e"
      by (rule shows_silent) (use that rev in \<open>simp_all add: live_payload_def e\<close>)
  qed (use life(1) in \<open>auto simp: entry_below_def e\<close>)
  show "steps pl t c (cancel_entry pl mem k PhaseExpired ReasonExpired (put_entry k e t) c)" if "showable e"
  proof (rule cancel_steps[OF ok e0])
    have "en_decision e0 \<noteq> DecisionRejected"
      using ek that by (auto simp: entry_ok_def showable_def e)
    then show "cancel_fit PhaseExpired e0 e"
      using life by (auto simp: cancel_fit_def same_record_def e)
  qed
  show "steps pl t c (show_event pl mem ev e (put_entry k e t) c)" if "showable e"
    unfolding e k life(2)
    by (rule show_event_steps[OF tr ok e0[unfolded k] _ life(1)[unfolded life(2)]])
      (use that in \<open>simp add: showable_def e\<close>)
qed

lemma reconcile_event_steps:
  assumes tr: "transp (pl_eq pl)" and ok: "journal_ok s"
  shows "steps pl s c (reconcile_event pl mem now window validate before ev s c)"
proof (cases "check_event pl window validate before ev s")
  case (Inl f)
  with check_event_error[OF Inl] show ?thesis
    by (auto simp: reconcile_event_def Let_def)
next
  case (Inr u)
  let ?k = "ei_key (er_identity ev)"
  let ?life = "\<lparr>lt_expires = er_expires_at ev, lt_delivery = er_delivery ev\<rparr>"
  show ?thesis
    unfolding reconcile_event_def Let_def Inr and_then_simps
  proof (rule find_or_insert_steps[OF ok], goal_cases)
    case (1 t e0)
    let ?e = "e0\<lparr>en_lifetime := Some ?life\<rparr>"
    show ?case
    proof (cases "en_lifetime e0 = None \<or> en_lifetime e0 = Some ?life")
      case True
      note body = corrected_steps[OF tr 1(3,4) refl True refl refl]
      consider "en_phase e0 = PhaseExpired" | "en_phase e0 = PhaseRejected" | "showable ?e"
        by (cases "en_phase e0") (auto simp: showable_def)
      then show ?thesis
        using body True 1(4) by cases (auto simp: entry_at_def showable_def)
    next
      case False
      then show ?thesis
        using 1(4) by (auto simp: entry_at_def)
    qed
  qed
qed

lemma reconcile_events_steps:
  assumes "transp (pl_eq pl)" "journal_ok s"
  shows "steps pl s c (reconcile_events pl mem now window validate before evs s c)"
  using assms(2)
proof (induction evs arbitrary: before s c)
  case Nil
  then show ?case
    by (simp add: evolves_refl)
next
  case (Cons ev evs)
  show ?case
    unfolding reconcile_events.simps
    by (rule steps_bind[OF reconcile_event_steps[OF assms(1) Cons.prems]]) (simp add: Cons.IH evolves_ok)
qed

section \<open>Bindings\<close>

definition fence_open :: "'p EventJournal \<Rightarrow> EntityId \<Rightarrow> bool" where
  "fence_open s entity \<longleftrightarrow> (case map_of (ej_bindings s) (eid_index entity) of
     None \<Rightarrow> length (ej_bindings s) < evl_bindings (ej_limits s)
   | Some (old, old_key) \<Rightarrow> eid_generation old < eid_generation entity
       \<and> (\<forall>e. map_of (ej_entries s) old_key = Some e \<longrightarrow> en_phase e = PhaseExpired))"

definition bound_journal :: "EventKey \<Rightarrow> 'p EventEntry \<Rightarrow> EntityId \<Rightarrow> 'p EventJournal \<Rightarrow> 'p EventJournal" where
  "bound_journal k e entity s = put_entry k (e\<lparr>en_binding := Some entity\<rparr>)
     (s\<lparr>ej_bindings := bt_insert (eid_index entity) (entity, k) (ej_bindings s)\<rparr>)"

lemma bound_journal_fields:
  assumes "bt_ok (ej_bindings s)" "map_of (ej_entries s) k = Some e"
  shows "map_of (ej_bindings (bound_journal k e entity s)) = (map_of (ej_bindings s))(eid_index entity \<mapsto> (entity, k))"
    "map_of (ej_entries (bound_journal k e entity s)) = (map_of (ej_entries s))(k \<mapsto> e\<lparr>en_binding := Some entity\<rparr>)"
    "ej_retired (bound_journal k e entity s) = ej_retired s" "ej_scope (bound_journal k e entity s) = ej_scope s"
    "ej_limits (bound_journal k e entity s) = ej_limits s" "ej_now (bound_journal k e entity s) = ej_now s"
    "ej_rejected_actions (bound_journal k e entity s) = ej_rejected_actions s"
  using assms by (simp_all add: bound_journal_def fun_eq_iff)

lemma bound_entry_ok:
  assumes ok: "journal_ok s" and e: "map_of (ej_entries s) k = Some e" "en_binding e = None"
    "en_decision e = DecisionAccepted" and fence: "fence_open s entity"
    and x: "map_of (ej_entries (bound_journal k e entity s)) a = Some x"
  shows "entry_ok (bound_journal k e entity s) a x"
proof (cases "a = k")
  case True
  then have "x = e\<lparr>en_binding := Some entity\<rparr>"
    using x e by (simp add: bound_journal_fields journal_okD[OF ok])
  then show ?thesis
    using True journal_ok_entry[OF ok e(1)] e
    by (simp add: entry_ok_def bound_journal_fields journal_okD[OF ok] superseding_def)
next
  case False
  then have xa: "map_of (ej_entries s) a = Some x"
    using x e by (simp add: bound_journal_fields journal_okD[OF ok])
  note xk = journal_ok_entry[OF ok xa]
  have "\<exists>b. map_of (ej_bindings (bound_journal k e entity s)) (eid_index old) = Some b \<and> superseding a x old b"
    if old: "en_binding x = Some old" for old
  proof (cases "eid_index old = eid_index entity")
    case True
    obtain b where b: "map_of (ej_bindings s) (eid_index entity) = Some b" "superseding a x old b"
      using xk old True by (auto simp: entry_ok_def)
    then have "eid_generation old < eid_generation entity" "en_phase x = PhaseExpired"
      using fence xa by (auto simp: fence_open_def superseding_def split: if_splits)
    then show ?thesis
      using True False e by (simp add: bound_journal_fields journal_okD[OF ok] superseding_def)
  next
    case False
    then show ?thesis
      using xk old e by (simp add: entry_ok_def bound_journal_fields journal_okD[OF ok])
  qed
  then show ?thesis
    using xk e by (simp add: entry_ok_def bound_journal_fields journal_okD[OF ok] split: option.splits)
qed

lemma bound_journal_ok:
  assumes ok: "journal_ok s" and e: "map_of (ej_entries s) k = Some e" "en_binding e = None"
    "en_decision e = DecisionAccepted" and fence: "fence_open s entity"
  shows "journal_ok (bound_journal k e entity s)"
proof -
  note m = journal_okD[OF ok] and fields = bound_journal_fields[OF journal_okD(2)[OF ok] e(1)]
  have "binding_ok (bound_journal k e entity s) i b"
    if b: "map_of (ej_bindings (bound_journal k e entity s)) i = Some b" for i b
  proof (cases "i = eid_index entity")
    case True
    then show ?thesis
      using b by (auto simp: fields binding_ok_def)
  next
    case False
    then have "binding_ok s i b"
      using b journal_ok_binding[OF ok] by (simp add: fields)
    moreover from this have "snd b \<noteq> k"
      using e by (auto simp: binding_ok_def)
    ultimately show ?thesis
      by (simp add: binding_ok_def fields cong: option.case_cong)
  qed
  moreover have "length (ej_bindings (bound_journal k e entity s)) \<le> evl_bindings (ej_limits s)"
    using fence m length_bt_insert[OF m(2), of "eid_index entity" "(entity, k)"]
    by (auto simp: bound_journal_def fence_open_def split: option.splits)
  moreover have "bt_ok (ej_entries (bound_journal k e entity s))" "bt_ok (ej_bindings (bound_journal k e entity s))"
    "length (ej_entries (bound_journal k e entity s)) = length (ej_entries s)"
    using m by (simp_all add: bound_journal_def put_entry_def)
  ultimately show ?thesis
    using m bound_entry_ok[OF ok e fence] unfolding journal_ok_def by (simp add: fields(3-))
qed

lemma follows_bindable:
  assumes ok: "journal_ok s" and e: "map_of (ej_entries s) k = Some e" "en_binding e = None"
    "en_decision e = DecisionAccepted" and fence: "fence_open s entity" and p: "follows pl s p"
  shows "bindable k entity p"
proof -
  have view: "key_view pl s a p" for a
    using p by (simp add: follows_def)
  have "eid_generation old < eid_generation entity \<and> \<not> bt_contains k' (pr_visuals p)"
    if old: "(k', old) \<in> set (pr_bound p)" and idx: "eid_index old = eid_index entity" for k' old
  proof -
    obtain b where b: "map_of (ej_bindings s) (eid_index entity) = Some b" "fenced k' old b"
      using p old idx by (fastforce simp: follows_def bound_view_def)
    have newer: "eid_generation (fst b) < eid_generation entity"
      and gone: "\<And>x. map_of (ej_entries s) (snd b) = Some x \<Longrightarrow> en_phase x = PhaseExpired"
      using fence b by (auto simp: fence_open_def)
    have "map_of (pr_bound p) k' = Some old"
      using p old by (simp add: follows_def)
    then have "map_of (pr_visuals p) k' = None"
    proof (cases "map_of (ej_entries s) k'")
      case None
      then show ?thesis
        using view[of k'] by (simp add: key_view_def absent_view_def)
    next
      case (Some x)
      assume "map_of (pr_bound p) k' = Some old"
      then have "en_binding x = Some old" "rel_option (shown_as pl) (map_of (pr_visuals p) k') (live_payload x)"
        using view[of k'] Some by (simp_all add: key_view_def entry_view_def)
      moreover from this have "superseding k' x old b"
        using journal_ok_entry[OF ok Some] b idx by (simp add: entry_ok_def)
      then have "en_phase x = PhaseExpired"
        using gone Some by (auto simp: superseding_def split: if_splits)
      ultimately show ?thesis
        by (simp add: live_payload_def)
    qed
    moreover have "eid_generation old < eid_generation entity"
      using b(2) newer by (auto simp: fenced_def split: if_splits)
    ultimately show ?thesis
      by (simp add: bt_contains_def)
  qed
  then show ?thesis
    using view[of k] e by (auto simp: bindable_def key_view_def entry_view_def bt_contains_def)
qed

lemma binding_invisible:
  "live_payload (e\<lparr>en_binding := b\<rparr>) = live_payload e" "reversible_life (e\<lparr>en_binding := b\<rparr>) = reversible_life e"
  by (simp_all add: live_payload_def reversible_life_def)

lemma follows_bound:
  assumes ok: "journal_ok s" and e: "map_of (ej_entries s) k = Some e" "en_binding e = None"
    and p: "follows pl s p" and b: "bindable k entity p"
  shows "follows pl (bound_journal k e entity s) (p\<lparr>pr_bound := (k, entity) # pr_bound p\<rparr>)"
proof -
  note fields = bound_journal_fields[OF journal_okD(2)[OF ok] e(1)]
  have view: "key_view pl s a p" for a
    using p by (simp add: follows_def)
  have "key_view pl (bound_journal k e entity s) a (p\<lparr>pr_bound := (k, entity) # pr_bound p\<rparr>)" for a
  proof (cases "a = k")
    case True
    then show ?thesis
      using view[of k] e(1) by (simp add: key_view_def fields entry_view_def binding_invisible)
  next
    case False
    then show ?thesis
      using view[of a] by (simp add: key_view_def fields entry_view_def absent_view_def cong: option.case_cong)
  qed
  moreover have fresh: "k \<notin> fst ` set (pr_bound p)"
    using b by (simp add: bindable_def bt_contains_def map_of_eq_None_iff)
  have "bound_view (ej_bindings (bound_journal k e entity s)) (p\<lparr>pr_bound := (k, entity) # pr_bound p\<rparr>)"
    unfolding bound_view_def fields
  proof clarsimp
    show "fenced k entity (entity, k) \<and>
      (\<forall>x\<in>set (pr_bound p). case x of (k', old) \<Rightarrow>
        (eid_index old = eid_index entity \<longrightarrow> fenced k' old (entity, k)) \<and>
        (eid_index old \<noteq> eid_index entity \<longrightarrow>
          (\<exists>a b. map_of (ej_bindings s) (eid_index old) = Some (a, b) \<and> fenced k' old (a, b))))"
      using b fresh p by (fastforce simp: bindable_def fenced_def follows_def bound_view_def image_iff)
  qed
  ultimately show ?thesis
    using p fresh by (simp add: follows_def fields)
qed

lemma bound_evolves:
  assumes ok: "journal_ok s" and e: "map_of (ej_entries s) k = Some e" "en_binding e = None"
    "en_decision e = DecisionAccepted" and fence: "fence_open s entity"
    and x: "x = (if en_phase e \<in> {PhaseReplayAbsent, PhaseExpired, PhaseRejected}
              then EvBindRetired k entity else EvBind k entity)"
    and d: "cs_values d = cs_values c @ [x]"
  shows "evolves pl s c (bound_journal k e entity s) d"
proof -
  note fields = bound_journal_fields[OF journal_okD(2)[OF ok] e(1)]
  have "present x p = Some (p\<lparr>pr_bound := (k, entity) # pr_bound p\<rparr>)" if p: "follows pl s p" for p
  proof -
    have "rel_option (shown_as pl) (map_of (pr_visuals p) k) (live_payload e)"
      using p e(1) by (auto simp: follows_def key_view_def entry_view_def dest: spec[of _ k])
    then have "map_of (pr_visuals p) k = None" if "en_phase e \<noteq> PhaseLive"
      using that by (simp add: live_payload_def)
    then show ?thesis
      using follows_bindable[OF ok e fence p] by (auto simp: x bt_contains_def)
  qed
  then have "simulates pl s c (bound_journal k e entity s) d"
    unfolding simulates_def using d follows_bound[OF ok e(1,2)] follows_bindable[OF ok e fence]
    by (intro exI[of _ "[x]"]) simp
  moreover have "journal_below s (bound_journal k e entity s)"
    using e fence
    by (auto simp: journal_below_def fields entry_below_def fence_below_def fence_open_def)
  ultimately show ?thesis
    using bound_journal_ok[OF ok e fence] by (simp add: evolves_def)
qed

text \<open>The fence leaves the index open for the entity: the event it belonged to has been retired.\<close>

lemma bind_fence_steps:
  assumes ok: "journal_ok s" and e: "map_of (ej_entries s) k = Some e" "en_binding e = None"
    and f: "bind_fence pl mem k entity s c = r"
  shows "(\<exists>x. r = Inl (Err x)) \<or> (\<exists>t d. r = Inr (t\<lparr>ej_bindings := bt_insert (eid_index entity) (entity, k) (ej_bindings t)\<rparr>, d)
    \<and> evolves pl s c t d \<and> map_of (ej_entries t) k = Some e \<and> fence_open t entity)"
proof (cases "map_of (ej_bindings s) (eid_index entity)")
  case None
  show ?thesis
  proof (cases "evl_bindings (ej_limits s) \<le> length (ej_bindings s)")
    case True
    then show ?thesis
      using f None by (auto simp: bind_fence_def)
  next
    case False
    then show ?thesis
      using f None e evolves_refl[OF ok, of pl c]
      by (intro disjI2 exI[of _ s] exI[of _ c]) (auto simp: bind_fence_def fence_open_def)
  qed
next
  case (Some b)
  note bs = this
  obtain old ok' where b: "b = (old, ok')"
    by (cases b)
  have bo: "binding_ok s (eid_index entity) (old, ok')"
    using journal_ok_binding[OF ok Some] b by simp
  then have ne: "ok' \<noteq> k"
    using e by (auto simp: binding_ok_def)
  show ?thesis
  proof (cases "eid_generation old < eid_generation entity")
    case False
    then show ?thesis
      using f Some b ne by (auto simp: bind_fence_def)
  next
    case newer: True
    show ?thesis
    proof (cases "map_of (ej_entries s) ok'")
      case None
      then have "\<not> bt_contains ok' (ej_entries s)"
        by (simp add: bt_contains_def)
      then have "r = Inr (s\<lparr>ej_bindings := bt_insert (eid_index entity) (entity, k) (ej_bindings s)\<rparr>, c)"
        using f Some b newer by (auto simp: bind_fence_def)
      moreover have "fence_open s entity"
        using None Some b newer by (simp add: fence_open_def)
      ultimately show ?thesis
        using e(1) evolves_refl[OF ok, of pl c] by blast
    next
      case (Some x)
      have "en_decision x = DecisionAccepted"
        using journal_ok_entry[OF ok Some] bo Some by (auto simp: entry_ok_def binding_ok_def)
      then have fit: "cancel_fit PhaseExpired x x"
        by (simp add: cancel_fit_def)
      have same: "put_entry ok' x s = s"
        by (rule put_entry_same[OF journal_okD(1)[OF ok] Some])
      note st = cancel_steps[OF ok Some fit, of pl c mem ReasonExpired, unfolded same]
      have open_fence: "map_of (ej_entries t) k = Some e \<and> fence_open t entity"
        if t: "cancel_entry pl mem ok' PhaseExpired ReasonExpired s c = Inr (t, d)" for t d
      proof -
        have "t = put_entry ok' (x\<lparr>en_phase := PhaseExpired, en_payload := None\<rparr>) s"
          by (rule cancel_state[OF Some]) (use t in \<open>simp only: same\<close>)
        then show ?thesis
          using Some bs b ne newer e by (auto simp: fence_open_def)
      qed
      have gen: "\<not> eid_generation entity < eid_generation old" "eid_generation entity \<noteq> eid_generation old"
        using newer by auto
      have held: "bt_contains ok' (ej_entries s)"
        using Some by (simp add: bt_contains_def)
      have r: "r = and_then (cancel_entry pl mem ok' PhaseExpired ReasonExpired s c) (\<lambda>(t, d).
          Inr (t\<lparr>ej_bindings := bt_insert (eid_index entity) (entity, k) (ej_bindings t)\<rparr>, d))"
        using f bs b ne gen held by (simp add: bind_fence_def)
      show ?thesis
        using st open_fence unfolding r
        by (cases "cancel_entry pl mem ok' PhaseExpired ReasonExpired s c") (auto simp: steps_def)
    qed
  qed
qed

lemma bind_event_steps:
  assumes ok: "journal_ok s" and e: "map_of (ej_entries s) k = Some e" "en_decision e = DecisionAccepted"
  shows "steps pl s c (bind_event pl mem k entity s c)"
proof (cases "eid_generation entity = 0 \<or> en_binding e \<noteq> None")
  case True
  then show ?thesis
    using e evolves_refl[OF ok, of pl c] by (auto simp: bind_event_def entry_at_def)
next
  case False
  have key: "ei_key (en_identity e) = k"
    using journal_ok_entry[OF ok e(1)] by (simp add: entry_ok_def)
  consider x where "bind_fence pl mem k entity s c = Inl (Err x)"
    | t d where "bind_fence pl mem k entity s c = Inr (t\<lparr>ej_bindings := bt_insert (eid_index entity) (entity, k) (ej_bindings t)\<rparr>, d)"
        "evolves pl s c t d" "map_of (ej_entries t) k = Some e" "fence_open t entity"
    using bind_fence_steps[OF ok e(1) _ refl, of pl mem entity c] False by blast
  then show ?thesis
  proof cases
    case 1
    then show ?thesis
      using False e key by (simp add: bind_event_def entry_at_def)
  next
    case (2 t d)
    let ?x = "if en_phase e \<in> {PhaseReplayAbsent, PhaseExpired, PhaseRejected}
      then EvBindRetired k entity else EvBind k entity"
    have "steps pl t d (and_then (emit pl mem (bound_journal k e entity t) d ?x)
      (\<lambda>d'. Inr (bound_journal k e entity t, d')))"
      by (rule steps_emit) (use bound_evolves[OF evolves_ok[OF 2(2)] 2(3) _ e(2) 2(4) refl] False in auto)
    from steps_from[OF 2(2) this] show ?thesis
      using 2 False e(1) key
      by (simp add: bind_event_def entry_at_def bound_journal_def Let_def cong: if_cong split del: if_split)
  qed
qed

section \<open>Outcomes\<close>

lemma confirm_evolves:
  assumes ok: "journal_ok s" and e: "map_of (ej_entries s) k = Some e"
    and dec: "en_decision e = DecisionUnresolved" "ek_action k \<notin> set (ej_rejected_actions s)"
    and d: "cs_values d = cs_values c @ [EvConfirm k]"
  shows "evolves pl s c (put_entry k (e\<lparr>en_decision := DecisionAccepted\<rparr>) s) d"
proof (rule entry_evolves[OF ok e _ _ _ d])
  note ek = journal_ok_entry[OF ok e]
  have "en_binding e = None"
    using ek dec by (auto simp: entry_ok_def split: option.splits)
  then show "entry_ok s k (e\<lparr>en_decision := DecisionAccepted\<rparr>)"
    using ek dec by (simp add: entry_ok_def)
  show "shows_entry pl k e [EvConfirm k] (e\<lparr>en_decision := DecisionAccepted\<rparr>)"
    using dec by (auto simp: shows_entry_def entry_view_def same_but_def live_payload_def reversible_life_def)
qed (use dec in \<open>simp_all add: entry_below_def\<close>)

lemma resolve_outcome_steps:
  assumes ok: "journal_ok s" and e: "map_of (ej_entries s) (ei_key i) = Some e"
  shows "steps pl s c (resolve_outcome pl mem i outcome s c)"
proof (cases outcome)
  case OutcomeRejected
  show ?thesis
  proof (cases "en_decision e = DecisionAccepted")
    case False
    then have "en_binding e = None"
      using journal_ok_entry[OF ok e] by (auto simp: entry_ok_def split: option.splits)
    then have "cancel_fit PhaseRejected e (e\<lparr>en_decision := DecisionRejected\<rparr>)"
      using False by (cases "en_decision e") (auto simp: cancel_fit_def same_record_def)
    then show ?thesis
      using False OutcomeRejected e cancel_steps[OF ok e] by (simp add: resolve_outcome_def entry_at_def Let_def)
  qed (use OutcomeRejected e in \<open>simp add: resolve_outcome_def entry_at_def\<close>)
next
  case (OutcomeAccepted binding)
  have bound: "steps pl t d (case binding of Some entity \<Rightarrow> bind_event pl mem (ei_key i) entity t d | None \<Rightarrow> Inr (t, d))"
    if "journal_ok t" "map_of (ej_entries t) (ei_key i) = Some x" "en_decision x = DecisionAccepted" for t d x
    using bind_event_steps[OF that] evolves_refl[OF that(1)] by (auto split: option.split)
  consider "en_decision e = DecisionRejected \<or> ek_action (ei_key i) \<in> set (ej_rejected_actions s)"
    | "en_decision e = DecisionAccepted"
    | "en_decision e = DecisionUnresolved" "ek_action (ei_key i) \<notin> set (ej_rejected_actions s)"
    by (cases "en_decision e") auto
  then show ?thesis
  proof cases
    case 1
    then show ?thesis
      using OutcomeAccepted e by (simp add: resolve_outcome_def entry_at_def)
  next
    case 2
    then show ?thesis
      using OutcomeAccepted e bound[OF ok e 2] by (simp add: resolve_outcome_def entry_at_def Let_def)
  next
    case 3
    let ?t = "put_entry (ei_key i) (e\<lparr>en_decision := DecisionAccepted\<rparr>) s"
    have "steps pl s c (and_then (and_then (emit pl mem ?t c (EvConfirm (ei_key i))) (\<lambda>d. Inr (?t, d)))
      (\<lambda>(t, d). case binding of Some entity \<Rightarrow> bind_event pl mem (ei_key i) entity t d | None \<Rightarrow> Inr (t, d)))"
    proof (rule steps_bind[OF steps_emit[OF confirm_evolves[OF ok e 3]]], assumption)
      fix t d
      assume t: "and_then (emit pl mem ?t c (EvConfirm (ei_key i))) (\<lambda>d. Inr (?t, d)) = Inr (t, d)"
        and ev: "evolves pl s c t d"
      from t have "t = ?t"
        by (auto simp: res_simps)
      then have x: "map_of (ej_entries t) (ei_key i) = Some (e\<lparr>en_decision := DecisionAccepted\<rparr>)"
        using e by simp
      show "steps pl t d (case (t, d) of (t, d) \<Rightarrow> case binding of
          Some entity \<Rightarrow> bind_event pl mem (ei_key i) entity t d | None \<Rightarrow> Inr (t, d))"
        using bound[OF evolves_ok[OF ev] x] by simp
    qed
    then show ?thesis
      using OutcomeAccepted e 3 by (simp add: resolve_outcome_def entry_at_def Let_def)
  qed
qed

section \<open>Transactions\<close>

definition committed_ok ::
  "'p Payload \<Rightarrow> 'p EventJournal \<Rightarrow> 'p EventChange list \<Rightarrow> 'p EventJournal \<Rightarrow> bool" where
  "committed_ok pl s xs t \<longleftrightarrow> journal_ok t \<and> journal_below s t
    \<and> (\<forall>p. follows pl s p \<longrightarrow> (\<exists>q. present_all xs p = Some q \<and> follows pl t q))"

lemma event_reserved_error: "event_reserved mem n = Inl f \<Longrightarrow> \<exists>x. f = Err x"
  by (auto simp: event_reserved_def res_simps)

lemma journal_new_error: "journal_new mem scope limits = Inl f \<Longrightarrow> \<exists>x. f = Err x"
  by (auto simp: journal_new_def res_simps split: if_splits dest: event_reserved_error)

lemma journal_new_ok:
  assumes "journal_new mem scope limits = Inr s"
  shows "journal_ok s" "ej_scope s = scope" "ej_limits s = limits" "follows pl s (blank scope)"
  using assms
  by (auto simp: journal_new_def res_simps journal_ok_def follows_def key_view_def absent_view_def bound_view_def
      blank_def split: if_splits)

lemma transaction_staged:
  assumes "journal_new mem (ej_scope s) (ej_limits s) = Inr fresh"
  shows "same_content s (fresh\<lparr>ej_now := ej_now s, ej_retired := ej_retired s, ej_entries := ej_entries s,
    ej_bindings := ej_bindings s, ej_rejected_actions := ej_rejected_actions s\<rparr>)"
  using journal_new_ok(2,3)[OF assms] by (simp add: same_content_def)

lemma transaction_Inl:
  assumes ok: "journal_ok s" and st: "\<And>u c. journal_ok u \<Longrightarrow> steps pl u c (f u c)"
    and r: "transaction pl mem f s = (Inl x, t)"
  shows "(\<exists>y. x = Err y) \<and> t = s"
proof -
  have "\<exists>y. x = Err y" if new: "journal_new mem (ej_scope s) (ej_limits s) = Inr fresh"
    and fx: "f (fresh\<lparr>ej_now := ej_now s, ej_retired := ej_retired s, ej_entries := ej_entries s,
      ej_bindings := ej_bindings s, ej_rejected_actions := ej_rejected_actions s\<rparr>) c = Inl x" for fresh c
    using st[OF evolves_ok[OF same_content_evolves[OF transaction_staged[OF new] ok]], of c]
    unfolding fx by (simp add: steps_def)
  then show ?thesis
    using r by (auto simp: transaction_def changes_def Let_def res_simps split: prod.splits
        dest!: journal_new_error check_resident_error event_reserved_error)
qed

lemma transaction_Inr:
  assumes ok: "journal_ok s" and st: "\<And>u c. journal_ok u \<Longrightarrow> steps pl u c (f u c)"
    and r: "transaction pl mem f s = (Inr d, t)"
  shows "committed_ok pl s (cs_values d) t \<and> journal_retained_bytes pl mem t \<le> evl_resident_bytes (ej_limits t)"
proof -
  obtain fresh n where new: "journal_new mem (ej_scope s) (ej_limits s) = Inr fresh"
    and resident: "check_resident pl mem t = Inr ()"
    and fx: "f (fresh\<lparr>ej_now := ej_now s, ej_retired := ej_retired s, ej_entries := ej_entries s,
      ej_bindings := ej_bindings s, ej_rejected_actions := ej_rejected_actions s\<rparr>)
      \<lparr>cs_values = [], cs_capacity = n, cs_payload_bytes = 0\<rparr> = Inr (t, d)"
    using r by (auto simp: transaction_def changes_def Let_def res_simps)
  define c :: "'a Changes" where "c = \<lparr>cs_values = [], cs_capacity = n, cs_payload_bytes = 0\<rparr>"
  note ev = same_content_evolves[OF transaction_staged[OF new] ok, of pl c]
  have "evolves pl s c t d"
    using evolves_trans[OF ev] st[OF evolves_ok[OF ev], of c] unfolding c_def fx by simp
  then show ?thesis
    using resident by (auto simp: c_def evolves_def committed_ok_def simulates_def check_resident_def split: if_splits)
qed

section \<open>The public operations\<close>

lemma advance_staged:
  assumes "journal_ok u" "\<And>s c. journal_ok s \<Longrightarrow> steps pl s c (f (s, c))"
  shows "steps pl u c (and_then (advance_inner pl mem now u c) f)"
  by (rule steps_bind[OF advance_inner_steps[OF assms(1)]]) (simp add: assms(2) evolves_ok)

lemma reconcile_staged:
  assumes tr: "transp (pl_eq pl)" and ok: "journal_ok u"
  shows "steps pl u c (and_then (advance_inner pl mem now u c) (\<lambda>(s, c).
      if rr_first window > rr_last window \<or> rr_last window > now then Inl (Err InvalidIdentity)
      else if now - rr_first window \<ge> evl_history_ticks (ej_limits s) then Inl (Err OutsideHistory)
      else if length corrected > evl_records (ej_limits s) then Inl (Err Capacity)
      else and_then (reconcile_events pl mem now window validate [] corrected s c) (\<lambda>(t, d).
        cancel_all pl mem (replay_absent window corrected) (\<lambda>e. e) PhaseReplayAbsent ReasonReplayAbsent
          (map fst (ej_entries t)) t d)))"
proof (rule advance_staged[OF ok])
  fix s :: "'a EventJournal" and c :: "'a Changes"
  assume s: "journal_ok s"
  have "steps pl s c (and_then (reconcile_events pl mem now window validate [] corrected s c) (\<lambda>(t, d).
        cancel_all pl mem (replay_absent window corrected) (\<lambda>e. e) PhaseReplayAbsent ReasonReplayAbsent
          (map fst (ej_entries t)) t d))"
  proof (rule steps_bind[OF reconcile_events_steps[OF tr s]], simp)
    fix t d assume ev: "evolves pl s c t d"
    show "steps pl t d (cancel_all pl mem (replay_absent window corrected) (\<lambda>e. e) PhaseReplayAbsent
        ReasonReplayAbsent (map fst (ej_entries t)) t d)"
      by (rule cancel_all_steps[OF evolves_ok[OF ev] lookup_keys])
        (auto simp: cancel_fit_def replay_absent_def entry_ok_def split: option.splits)
  qed
  then show "steps pl s c (case (s, c) of (s, c) \<Rightarrow>
      if rr_first window > rr_last window \<or> rr_last window > now then Inl (Err InvalidIdentity)
      else if now - rr_first window \<ge> evl_history_ticks (ej_limits s) then Inl (Err OutsideHistory)
      else if length corrected > evl_records (ej_limits s) then Inl (Err Capacity)
      else and_then (reconcile_events pl mem now window validate [] corrected s c) (\<lambda>(t, d).
        cancel_all pl mem (replay_absent window corrected) (\<lambda>e. e) PhaseReplayAbsent ReasonReplayAbsent
          (map fst (ej_entries t)) t d))"
    by simp
qed

lemma resolve_staged:
  assumes ok: "journal_ok u"
  shows "steps pl u c (and_then (advance_inner pl mem now u c) (\<lambda>(s, c).
      and_then (find_or_insert identity s) (\<lambda>t. resolve_outcome pl mem identity outcome t c)))"
  by (rule advance_staged[OF ok]) (auto intro!: find_or_insert_steps resolve_outcome_steps)

lemma expire_staged:
  assumes ok: "journal_ok u"
  shows "steps pl u c (and_then (advance_inner pl mem now u c) (\<lambda>(s, c).
      and_then (find_or_insert identity s) (\<lambda>t.
      and_then (entry_at (ei_key identity) t) (\<lambda>e.
      if en_phase e \<noteq> PhaseRejected
        then cancel_entry pl mem (ei_key identity) PhaseExpired ReasonExpired t c
      else Inr (t, c)))))"
proof (rule advance_staged[OF ok], simp, rule find_or_insert_steps, assumption)
  fix s t :: "'a EventJournal" and c :: "'a Changes" and e :: "'a EventEntry"
  assume t: "journal_ok t" and e: "map_of (ej_entries t) (ei_key identity) = Some e"
  have "en_decision e \<noteq> DecisionRejected" if "en_phase e \<noteq> PhaseRejected"
    using journal_ok_entry[OF t e] that by (auto simp: entry_ok_def)
  then have "steps pl t c (cancel_entry pl mem (ei_key identity) PhaseExpired ReasonExpired t c)"
    if "en_phase e \<noteq> PhaseRejected"
    using cancel_steps[OF t e, of PhaseExpired e] that put_entry_same[OF journal_okD(1)[OF t] e]
    by (simp add: cancel_fit_def)
  then show "steps pl t c (and_then (entry_at (ei_key identity) t) (\<lambda>e.
      if en_phase e \<noteq> PhaseRejected
        then cancel_entry pl mem (ei_key identity) PhaseExpired ReasonExpired t c else Inr (t, c)))"
    using e evolves_refl[OF t] by (simp add: entry_at_def)
qed

lemma bs_insert_held: "bs_ok xs \<Longrightarrow> x \<in> set xs \<Longrightarrow> bs_insert x xs = xs"
  by (induction xs) (auto simp: bs_ok_Cons)

lemma fence_action_evolves:
  fixes s :: "'p EventJournal"
  assumes ok: "journal_ok s" and va: "valid_action action s = Inr ()"
    and free: "\<not> (\<exists>(k, e) \<in> set (ej_entries s).
      ek_action (ei_key (en_identity e)) = action \<and> en_decision e = DecisionAccepted)"
    and room: "\<not> (action \<notin> set (ej_rejected_actions s)
      \<and> length (ej_rejected_actions s) \<ge> evl_action_fences (ej_limits s))"
  defines "t \<equiv> s\<lparr>ej_rejected_actions := bs_insert action (ej_rejected_actions s)\<rparr>"
  shows "evolves pl s c t c"
proof -
  note m = journal_okD[OF ok]
  have "entry_ok t k e" if e: "map_of (ej_entries s) k = Some e" for k e
  proof -
    have "ek_action k = action \<Longrightarrow> en_decision e \<noteq> DecisionAccepted"
      using free map_of_SomeD[OF e] journal_ok_entry[OF ok e] by (auto simp: entry_ok_def)
    then show ?thesis
      using journal_ok_entry[OF ok e] by (auto simp: entry_ok_def t_def cong: option.case_cong)
  qed
  moreover have "binding_ok t = binding_ok s"
    by (simp add: binding_ok_def fun_eq_iff t_def cong: option.case_cong)
  moreover have "bs_insert action (ej_rejected_actions s) = ej_rejected_actions s"
    if "action \<in> set (ej_rejected_actions s)"
    by (rule bs_insert_held[OF m(3) that])
  then have "length (bs_insert action (ej_rejected_actions s)) \<le> evl_action_fences (ej_limits s)"
    using room m(6) length_bs_insert[of action "ej_rejected_actions s"] by fastforce
  ultimately have "journal_ok t"
    using ok by (simp add: journal_ok_def t_def)
  moreover have "follows pl t = follows pl s"
    by (simp add: follows_def key_view_def fun_eq_iff t_def cong: option.case_cong)
  then have "simulates pl s c t c"
    unfolding simulates_def by (intro exI[of _ "[]"]) simp
  moreover have "journal_below s t"
    by (auto simp: journal_below_def t_def)
  ultimately show ?thesis
    by (simp add: evolves_def)
qed

lemma reject_staged:
  assumes ok: "journal_ok u"
  shows "steps pl u c (and_then (advance_inner pl mem now u c) (\<lambda>(s, c).
      and_then (valid_action action s) (\<lambda>_.
      if \<exists>(k, e) \<in> set (ej_entries s).
           ek_action (ei_key (en_identity e)) = action \<and> en_decision e = DecisionAccepted
        then Inl (Err Conflict)
      else if action \<notin> set (ej_rejected_actions s)
              \<and> length (ej_rejected_actions s) \<ge> evl_action_fences (ej_limits s)
        then Inl (Err ResetRequired)
      else let t = s\<lparr>ej_rejected_actions := bs_insert action (ej_rejected_actions s)\<rparr> in
        cancel_all pl mem (\<lambda>e. ek_action (ei_key (en_identity e)) = action)
          (\<lambda>e. e\<lparr>en_decision := DecisionRejected\<rparr>) PhaseRejected ReasonRejected
          (map fst (ej_entries t)) t c)))"
proof (rule advance_staged[OF ok], goal_cases)
  case (1 s c)
  let ?t = "s\<lparr>ej_rejected_actions := bs_insert action (ej_rejected_actions s)\<rparr>"
  have "steps pl ?t c (cancel_all pl mem (\<lambda>e. ek_action (ei_key (en_identity e)) = action)
          (\<lambda>e. e\<lparr>en_decision := DecisionRejected\<rparr>) PhaseRejected ReasonRejected (map fst (ej_entries ?t)) ?t c)"
    if "evolves pl s c ?t c"
  proof (rule cancel_all_steps[OF evolves_ok[OF that] lookup_keys])
    fix w :: "'a EventJournal" and k e
    assume "entry_ok w k e" "ej_rejected_actions w = ej_rejected_actions ?t"
      "ek_action (ei_key (en_identity e)) = action"
    then have "en_decision e \<noteq> DecisionAccepted" "en_binding e = None"
      by (auto simp: entry_ok_def split: option.splits)
    then show "cancel_fit PhaseRejected e (e\<lparr>en_decision := DecisionRejected\<rparr>)"
      by (cases "en_decision e") (auto simp: cancel_fit_def same_record_def)
  qed
  then show ?case
    using fence_action_evolves[OF 1, of action pl c]
    by (cases "valid_action action s") (auto simp: valid_action_def Let_def intro: steps_from split: if_splits)
qed

section \<open>Retiring commands and changing the scope\<close>

lemma retire_committed:
  assumes ok: "journal_ok s" and r: "journal_retire_through seq s = (Inr u, t)"
  shows "committed_ok pl s [] t"
proof -
  note m = journal_okD[OF ok]
  have t: "t = s\<lparr>ej_entries := bt_retain (\<lambda>_ e. ak_command (ek_action (ei_key (en_identity e))) > seq) (ej_entries s),
      ej_rejected_actions := filter (\<lambda>a. ak_command a > seq) (ej_rejected_actions s), ej_retired := seq\<rparr>"
    and le: "ej_retired s \<le> seq"
    and live: "\<not> (\<exists>(k, e) \<in> set (ej_entries s).
      ak_command (ek_action (ei_key (en_identity e))) \<le> seq \<and> en_phase e = PhaseLive)"
    using r by (auto simp: journal_retire_through_def split: if_splits)
  have look: "map_of (ej_entries t) k = (if stale_key seq k then None else map_of (ej_entries s) k)" for k
    using journal_ok_entry[OF ok, of k]
    by (auto simp: t map_of_bt_retain m stale_key_def entry_ok_def split: option.split)
  have kept: "ej_retired t = seq" "ej_bindings t = ej_bindings s" "ej_scope t = ej_scope s" "ej_limits t = ej_limits s"
    "set (ej_rejected_actions t) \<subseteq> set (ej_rejected_actions s)"
    by (auto simp: t)
  have "entry_ok t k e" if "map_of (ej_entries t) k = Some e" for k e
    using that journal_ok_entry[OF ok, of k e] kept(5)
    by (auto simp: look entry_ok_def kept(1-4) split: if_splits cong: option.case_cong)
  moreover have "binding_ok t i b" if "map_of (ej_bindings t) i = Some b" for i b
    using journal_ok_binding[OF ok, of i b] that stale_key_mono[OF _ le]
    by (auto simp: binding_ok_def look kept(1-4) split: option.splits)
  ultimately have "journal_ok t"
    using m by (auto simp: journal_ok_def t bs_ok_filter intro: order_trans[OF length_bt_retain]
        order_trans[OF length_filter_le])
  moreover have "live_payload e = None" if "map_of (ej_entries s) k = Some e" "stale_key seq k" for k e
    using live map_of_SomeD[OF that(1)] journal_ok_entry[OF ok that(1)] that(2)
    by (auto simp: live_payload_def stale_key_def entry_ok_def)
  then have "key_view pl t k p" if "key_view pl s k p" for k p
    using that stale_key_mono[OF _ le]
    by (auto simp: key_view_def look kept entry_view_def absent_view_def split: option.splits)
  then have "follows pl t p" if "follows pl s p" for p
    using that by (simp add: follows_def kept)
  moreover have "journal_below s t"
    using le by (auto simp: journal_below_def look kept) (auto simp: t)
  ultimately show ?thesis
    by (simp add: committed_ok_def)
qed

lemma reset_committed:
  assumes r: "journal_reset pl mem scope s = (Inr d, t)"
  shows "journal_ok t" "ej_scope s < ej_scope t" "ej_limits t = ej_limits s"
    "follows pl s p \<Longrightarrow> \<exists>q. present_all (cs_values d) p = Some q \<and> follows pl t q"
proof -
  obtain n where new: "journal_new mem scope (ej_limits s) = Inr t" and lt: "ej_scope s < scope"
    and e: "emit pl mem s \<lparr>cs_values = [], cs_capacity = n, cs_payload_bytes = 0\<rparr> (EvReset (ej_scope s) scope) = Inr d"
    using r by (auto simp: journal_reset_def changes_def res_simps split: if_splits)
  show "journal_ok t" "ej_scope s < ej_scope t" "ej_limits t = ej_limits s"
    using journal_new_ok(1-3)[OF new] lt by simp_all
  show "\<exists>q. present_all (cs_values d) p = Some q \<and> follows pl t q" if "follows pl s p"
    using that journal_new_ok(4)[OF new] emit_values[OF e] by (simp add: follows_def)
qed

lemma reset_error: "journal_reset pl mem scope s = (Inl f, t) \<Longrightarrow> (\<exists>x. f = Err x) \<and> t = s"
  by (auto simp: journal_reset_def changes_def res_simps split: if_splits
      dest!: journal_new_error event_reserved_error emit_error)

end
