(* ===== verification/Net_Event_Props.thy ===== *)
theory Net_Event_Props
  imports Net_Event_Ops
begin

text \<open>
  The event journal as a machine over its public operations, and its properties: a presentation
  layer that applies every change it is handed never sees an impossible one and shows exactly the
  live records; a replay leaves exactly the corrected events live in its range; decisions, bindings
  and retirements are final; the journal stays within its limits and never panics.
\<close>

section \<open>The journal as a machine\<close>

datatype 'p EventOp =
    AdvanceTo ServerTick
  | Reconcile ServerTick ReplayRange "'p EventRecord list" "'p \<Rightarrow> bool"
  | Resolve ServerTick EventIdentity EventOutcome
  | RejectAction ServerTick ActionKey
  | ExpireEvent ServerTick EventIdentity
  | RetireThrough CommandSeq
  | ResetScope JournalScope

fun journal_op :: "'p Payload \<Rightarrow> Memory \<Rightarrow> 'p EventOp \<Rightarrow> 'p EventJournal \<Rightarrow>
  'p EventChange list event_result \<times> 'p EventJournal" where
  "journal_op pl mem (AdvanceTo now) s = apfst (map_sum id cs_values) (journal_advance pl mem now s)"
| "journal_op pl mem (Reconcile now window corrected validate) s =
    apfst (map_sum id cs_values) (journal_reconcile pl mem now window corrected validate s)"
| "journal_op pl mem (Resolve now identity outcome) s =
    apfst (map_sum id cs_values) (journal_resolve pl mem now identity outcome s)"
| "journal_op pl mem (RejectAction now action) s =
    apfst (map_sum id cs_values) (journal_reject_action pl mem now action s)"
| "journal_op pl mem (ExpireEvent now identity) s =
    apfst (map_sum id cs_values) (journal_expire pl mem now identity s)"
| "journal_op pl mem (RetireThrough seq) s = apfst (map_sum id (\<lambda>_. [])) (journal_retire_through seq s)"
| "journal_op pl mem (ResetScope scope) s = apfst (map_sum id cs_values) (journal_reset pl mem scope s)"

text \<open>A run pairs each operation with the memory it finds, and collects the changes handed out.\<close>

fun event_step :: "'p Payload \<Rightarrow> Memory \<times> 'p EventOp \<Rightarrow> 'p EventJournal \<times> 'p EventChange list \<Rightarrow>
  'p EventJournal \<times> 'p EventChange list" where
  "event_step pl (mem, op) (s, log) =
    (case journal_op pl mem op s of (Inr xs, t) \<Rightarrow> (t, log @ xs) | (Inl _, t) \<Rightarrow> (t, log))"

definition transactional :: "'p EventOp \<Rightarrow> bool" where
  "transactional op = (case op of RetireThrough _ \<Rightarrow> False | ResetScope _ \<Rightarrow> False | _ \<Rightarrow> True)"

definition advanced :: "'p Payload \<Rightarrow> 'p EventJournal \<Rightarrow> 'p EventChange list \<Rightarrow> 'p EventJournal \<Rightarrow> bool" where
  "advanced pl s xs t \<longleftrightarrow> journal_ok t \<and> ej_limits t = ej_limits s
    \<and> (journal_below s t \<or> ej_scope s < ej_scope t)
    \<and> (\<forall>p. follows pl s p \<longrightarrow> (\<exists>q. present_all xs p = Some q \<and> follows pl t q))"

lemma committed_advanced: "committed_ok pl s xs t \<Longrightarrow> advanced pl s xs t"
  by (auto simp: committed_ok_def advanced_def journal_below_def)

lemma transaction_cases:
  assumes "journal_ok s" "\<And>u c. journal_ok u \<Longrightarrow> steps pl u c (f u c)"
    "apfst (map_sum id cs_values) (transaction pl mem f s) = (r, t)"
  shows "(\<exists>x. r = Inl (Err x)) \<and> t = s \<or> (\<exists>xs. r = Inr xs \<and> advanced pl s xs t
    \<and> journal_retained_bytes pl mem t \<le> evl_resident_bytes (ej_limits t))"
proof (cases "transaction pl mem f s")
  case (Pair q u)
  with assms(3) have r: "r = map_sum id cs_values q" "t = u"
    by auto
  show ?thesis
  proof (cases q)
    case (Inl x)
    then show ?thesis
      using transaction_Inl[OF assms(1,2), of mem] Pair r by auto
  next
    case (Inr d)
    then show ?thesis
      using transaction_Inr[OF assms(1,2), of mem] Pair r by (auto intro: committed_advanced)
  qed
qed

lemma journal_op_cases:
  assumes tr: "transp (pl_eq pl)" and ok: "journal_ok s" and op: "journal_op pl mem op s = (r, t)"
  shows "(\<exists>x. r = Inl (Err x)) \<and> t = s \<or> (\<exists>xs. r = Inr xs \<and> advanced pl s xs t
    \<and> (transactional op \<longrightarrow> journal_retained_bytes pl mem t \<le> evl_resident_bytes (ej_limits t)))"
proof (cases op)
  case (AdvanceTo now)
  then show ?thesis
    using op transaction_cases[OF ok advance_inner_steps] by (simp add: journal_advance_def transactional_def)
next
  case (Reconcile now window corrected validate)
  then show ?thesis
    using op transaction_cases[OF ok reconcile_staged[OF tr]] by (simp add: journal_reconcile_def transactional_def)
next
  case (Resolve now identity outcome)
  then show ?thesis
    using op transaction_cases[OF ok resolve_staged] by (simp add: journal_resolve_def transactional_def)
next
  case (RejectAction now action)
  then show ?thesis
    using op transaction_cases[OF ok reject_staged] by (simp add: journal_reject_action_def transactional_def)
next
  case (ExpireEvent now identity)
  then show ?thesis
    using op transaction_cases[OF ok expire_staged] by (simp add: journal_expire_def transactional_def)
next
  case (RetireThrough seq)
  then obtain q where q: "journal_retire_through seq s = (q, t)" "r = map_sum id (\<lambda>_. []) q"
    using op by (cases "journal_retire_through seq s") auto
  show ?thesis
  proof (cases q)
    case (Inl x)
    then show ?thesis
      using q by (auto simp: journal_retire_through_def split: if_splits)
  next
    case (Inr u)
    then show ?thesis
      using q RetireThrough committed_advanced[OF retire_committed[OF ok, of seq u t pl]]
      by (simp add: transactional_def)
  qed
next
  case (ResetScope scope)
  then obtain q where q: "journal_reset pl mem scope s = (q, t)" "r = map_sum id cs_values q"
    using op by (cases "journal_reset pl mem scope s") auto
  show ?thesis
  proof (cases q)
    case (Inl x)
    then show ?thesis
      using q reset_error[of pl mem scope s x t] by auto
  next
    case (Inr d)
    then show ?thesis
      using q ResetScope reset_committed[of pl mem scope s d t] by (auto simp: advanced_def transactional_def)
  qed
qed

definition events_inv :: "'p Payload \<Rightarrow> JournalScope \<Rightarrow> 'p EventJournal \<times> 'p EventChange list \<Rightarrow> bool" where
  "events_inv pl scope x \<longleftrightarrow> (transp (pl_eq pl) \<longrightarrow>
     journal_ok (fst x) \<and> (\<exists>p. present_all (snd x) (blank scope) = Some p \<and> follows pl (fst x) p))"

definition events_below :: "'p Payload \<Rightarrow> 'p EventJournal \<times> 'p EventChange list \<Rightarrow>
  'p EventJournal \<times> 'p EventChange list \<Rightarrow> bool" where
  "events_below pl x y \<longleftrightarrow> (transp (pl_eq pl) \<longrightarrow>
     ej_limits (fst y) = ej_limits (fst x) \<and> (journal_below (fst x) (fst y) \<or> ej_scope (fst x) < ej_scope (fst y)))"

lemma event_step_advanced:
  assumes tr: "transp (pl_eq pl)" and ok: "journal_ok s" and st: "event_step pl (mem, op) (s, log) = (t, log')"
  shows "\<exists>xs. log' = log @ xs \<and> advanced pl s xs t"
proof -
  obtain r u where op: "journal_op pl mem op s = (r, u)"
    by (cases "journal_op pl mem op s")
  have "advanced pl s [] s"
    using ok by (simp add: advanced_def)
  then show ?thesis
    using journal_op_cases[OF tr ok op] st op by auto
qed

lemma events_step:
  assumes inv: "events_inv pl scope x"
  shows "events_inv pl scope (event_step pl op x)" "events_below pl x (event_step pl op x)"
proof -
  obtain s log mem o' where x: "x = (s, log)" and op: "op = (mem, o')"
    by (cases x; cases op)
  obtain t log' where st: "event_step pl (mem, o') (s, log) = (t, log')"
    by (cases "event_step pl (mem, o') (s, log)")
  have adv: "\<exists>xs. log' = log @ xs \<and> advanced pl s xs t" if "transp (pl_eq pl)"
    using event_step_advanced[OF that _ st] inv that by (simp add: events_inv_def x)
  then show "events_inv pl scope (event_step pl op x)"
    using inv unfolding x op st by (fastforce simp: events_inv_def advanced_def present_all_append)
  show "events_below pl x (event_step pl op x)"
    using adv unfolding x op st by (auto simp: events_below_def advanced_def)
qed

lemma events_below_trans:
  assumes "events_below pl x y" "events_below pl y z"
  shows "events_below pl x z"
proof -
  have scope: "journal_below a b \<Longrightarrow> ej_scope b = ej_scope a" for a b :: "'a EventJournal"
    by (simp add: journal_below_def)
  show ?thesis
    using assms journal_below_trans[of "fst x" "fst y" "fst z"] scope[of "fst x" "fst y"] scope[of "fst y" "fst z"]
    unfolding events_below_def by (elim impCE) auto
qed

interpretation event_machine: monotone_machine "event_step pl" "events_inv pl scope" "events_below pl" for pl scope
proof
  show "events_inv pl scope (event_step pl op x)" if "events_inv pl scope x" for op x
    using that by (rule events_step)
  show "events_below pl x x" for x
    by (simp add: events_below_def)
  show "events_below pl x z" if "events_below pl x y" "events_below pl y z" for x y z
    using that by (rule events_below_trans)
  show "events_below pl x (event_step pl op x)" if "events_inv pl scope x" for op x
    using that by (rule events_step)
qed

lemma events_run:
  assumes "transp (pl_eq pl)" "journal_new mem scope limits = Inr s0" "fold (event_step pl) ops (s0, []) = (s, log)"
  shows "events_inv pl scope (s, log)" "journal_ok s" "ej_limits s = limits"
proof -
  have inv: "events_inv pl scope (s0, [])"
    using journal_new_ok(1,4)[OF assms(2)] by (auto simp: events_inv_def)
  show "events_inv pl scope (s, log)"
    using event_machine.run_inv[OF inv, of ops] assms(3) by simp
  then show "journal_ok s"
    using assms(1) by (simp add: events_inv_def)
  have "events_below pl (s0, []) (s, log)"
    using event_machine.run_below[OF inv, of ops] assms(3) by simp
  then show "ej_limits s = limits"
    using assms(1) journal_new_ok(3)[OF assms(2)] by (simp add: events_below_def)
qed

lemma events_run_below:
  assumes "transp (pl_eq pl)" "journal_new mem scope limits = Inr s0"
    "fold (event_step pl) ops (s0, []) = (s, log)" "fold (event_step pl) later (s, log) = (t, log')"
    "ej_scope t = ej_scope s"
  shows "journal_below s t"
proof -
  have "events_below pl (s, log) (t, log')"
    using event_machine.run_below[OF events_run(1)[OF assms(1-3)], of later] assms(4) by simp
  then show ?thesis
    using assms(1,5) by (auto simp: events_below_def)
qed

section \<open>What a replay leaves\<close>


lemma cancel_entry_Inr:
  "cancel_entry pl mem k phase reason s c = Inr (t, d) \<Longrightarrow>
    \<exists>e. map_of (ej_entries s) k = Some e \<and> t = put_entry k (e\<lparr>en_phase := phase, en_payload := None\<rparr>) s"
  by (auto simp: cancel_entry_def entry_at_def res_simps)





section \<open>Properties\<close>

text \<open>C2: The changes the journal hands out are a faithful script for the presentation.  From a new
  journal, whatever operations are called with whatever arguments, a consumer that applies all changes in
  order never meets one that makes no sense: no visual is created twice or while it is up, none is
  updated or cancelled while it is not up, no one-shot cue is played twice, nothing is confirmed or
  bound twice, every creation carries the confirmation and binding handed out before, and no entity
  is bound while an older or equal generation of its index still has a visual.  At every moment the
  visuals that are up are exactly the live reversible records of the journal, each with a payload
  equal to the record's.  The payload's equality is only assumed transitive.\<close>

theorem presentation_follows_journal:
  assumes "transp (pl_eq pl)" "journal_new mem scope limits = Inr s0"
    "fold (event_step pl) ops (s0, []) = (s, log)"
  shows "\<exists>p. present_all log (blank scope) = Some p \<and> pr_scope p = ej_scope s
    \<and> (\<forall>k. rel_option (shown_as pl) (map_of (pr_visuals p) k) (live_visual s k))"
proof -
  obtain p where p: "present_all log (blank scope) = Some p" "follows pl s p"
    using events_run(1)[OF assms] assms(1) by (auto simp: events_inv_def)
  have "rel_option (shown_as pl) (map_of (pr_visuals p) k) (live_visual s k)" for k
  proof -
    have "key_view pl s k p"
      using p(2) by (simp add: follows_def)
    then show ?thesis
      by (cases "map_of (ej_entries s) k") (simp_all add: key_view_def live_visual_def absent_view_def entry_view_def)
  qed
  with p show ?thesis
    by (auto simp: follows_def)
qed

text \<open>C34: What the journal has decided stays decided.  While the scope lasts, a record is forgotten only
  once its command has been retired, and until then its terminal decision, its bound entity, its
  lifetime and the fact that it has been shown never change, and an expired or rejected record never
  becomes live again; the generation fence of an entity index only moves to newer generations.\<close>

theorem event_decisions_final:
  assumes "transp (pl_eq pl)" "journal_new mem scope limits = Inr s0"
    "fold (event_step pl) ops (s0, []) = (s, log)" "fold (event_step pl) later (s, log) = (t, log')"
    "ej_scope t = ej_scope s"
  shows "(\<forall>k e. map_of (ej_entries s) k = Some e \<and> ej_retired t < ak_command (ek_action k) \<longrightarrow>
      (\<exists>e'. map_of (ej_entries t) k = Some e' \<and> en_identity e' = en_identity e
        \<and> (en_decision e \<noteq> DecisionUnresolved \<longrightarrow> en_decision e' = en_decision e)
        \<and> (en_binding e \<noteq> None \<longrightarrow> en_binding e' = en_binding e)
        \<and> (en_lifetime e \<noteq> None \<longrightarrow> en_lifetime e' = en_lifetime e)
        \<and> (en_delivered e \<longrightarrow> en_delivered e')
        \<and> (en_phase e \<in> {PhaseExpired, PhaseRejected} \<longrightarrow> en_phase e' \<noteq> PhaseLive)))
    \<and> (\<forall>i b. map_of (ej_bindings s) i = Some b \<longrightarrow>
      (\<exists>b'. map_of (ej_bindings t) i = Some b' \<and> (b' = b \<or> eid_generation (fst b) < eid_generation (fst b'))))"
proof (intro conjI allI impI)
  fix k e
  assume "map_of (ej_entries s) k = Some e \<and> ej_retired t < ak_command (ek_action k)"
  then have e: "map_of (ej_entries s) k = Some e" and seq: "\<not> stale_key (ej_retired t) k"
    by (auto simp: stale_key_def)
  then obtain e' where e': "map_of (ej_entries t) k = Some e'" "entry_below e e'"
    using events_run_below[OF assms] unfolding journal_below_def by blast
  then show "\<exists>e'. map_of (ej_entries t) k = Some e' \<and> en_identity e' = en_identity e
        \<and> (en_decision e \<noteq> DecisionUnresolved \<longrightarrow> en_decision e' = en_decision e)
        \<and> (en_binding e \<noteq> None \<longrightarrow> en_binding e' = en_binding e)
        \<and> (en_lifetime e \<noteq> None \<longrightarrow> en_lifetime e' = en_lifetime e)
        \<and> (en_delivered e \<longrightarrow> en_delivered e')
        \<and> (en_phase e \<in> {PhaseExpired, PhaseRejected} \<longrightarrow> en_phase e' \<noteq> PhaseLive)"
    by (intro exI[of _ e']) (auto simp: entry_below_def)
next
  fix i b
  assume "map_of (ej_bindings s) i = Some b"
  then show "\<exists>b'. map_of (ej_bindings t) i = Some b' \<and> (b' = b \<or> eid_generation (fst b) < eid_generation (fst b'))"
    using events_run_below[OF assms] unfolding journal_below_def fence_below_def by blast
qed

text \<open>C36: The journal stays within its limits and never panics: after any operations it holds at most the
  configured numbers of records, bindings and action fences, no operation indexes a record that is not
  there, a failed operation leaves the journal as it was, and a transaction that succeeds leaves the
  bytes the journal retains within the configured allowance.\<close>

theorem event_journal_bounded:
  assumes "transp (pl_eq pl)" "journal_new mem scope limits = Inr s0"
    "fold (event_step pl) ops (s0, []) = (s, log)"
  shows "length (ej_entries s) \<le> evl_records limits \<and> length (ej_bindings s) \<le> evl_bindings limits
    \<and> length (ej_rejected_actions s) \<le> evl_action_fences limits
    \<and> \<not> is_panic (fst (journal_op pl mem' op s))
    \<and> (\<forall>x t. journal_op pl mem' op s = (Inl x, t) \<longrightarrow> t = s)
    \<and> (\<forall>xs t. transactional op \<and> journal_op pl mem' op s = (Inr xs, t) \<longrightarrow>
         journal_retained_bytes pl mem' t \<le> evl_resident_bytes limits)"
proof -
  note ok = events_run(2)[OF assms] and lim = events_run(3)[OF assms]
  obtain r u where op: "journal_op pl mem' op s = (r, u)"
    by (cases "journal_op pl mem' op s")
  show ?thesis
    using journal_op_cases[OF assms(1) ok op] op lim journal_okD(4-6)[OF ok] by (auto simp: advanced_def)
qed


section \<open>A run\<close>

definition ex_payload :: "nat Payload" where
  "ex_payload = \<lparr>pl_eq = (=), pl_retained_bytes = (\<lambda>_. 1)\<rparr>"

definition ex_memory :: Memory where
  "ex_memory = \<lparr>mem_entry = 8, mem_binding = 4, mem_action = 2, mem_change = 8, mem_reserve = Some\<rparr>"

definition ex_event_limits :: EventLimits where
  "ex_event_limits = \<lparr>evl_records = 4, evl_bindings = 2, evl_action_fences = 2, evl_payload_bytes = 4,
     evl_resident_bytes = 64, evl_transitions = 4, evl_transition_bytes = 64, evl_peak_bytes = 256,
     evl_history_ticks = 16, evl_lifetime_ticks = 16\<rparr>"

definition ex_scope :: JournalScope where
  "ex_scope = JournalScope 1 1"

definition ex_identity :: "u64 \<Rightarrow> ServerTick \<Rightarrow> EventIdentity" where
  "ex_identity c origin = \<lparr>ei_key = EventKey (ActionKey 1 1 c 0) 7 0, ei_origin_tick = origin, ei_schema = 3\<rparr>"

definition ex_event :: "u64 \<Rightarrow> ServerTick \<Rightarrow> EventDelivery \<Rightarrow> nat \<Rightarrow> nat EventRecord" where
  "ex_event c origin dv p = \<lparr>er_identity = ex_identity c origin, er_expires_at = origin + 8, er_delivery = dv,
     er_payload = p\<rparr>"

definition ex_journal :: "nat EventJournal" where
  "ex_journal = \<lparr>ej_scope = ex_scope, ej_limits = ex_event_limits, ej_now = 0, ej_retired = 0, ej_entries = [],
     ej_entries_capacity = 4, ej_bindings = [], ej_bindings_capacity = 2, ej_rejected_actions = [],
     ej_rejected_capacity = 2\<rparr>"

lemma ex_transp: "transp (pl_eq ex_payload)"
  by (simp add: ex_payload_def transp_def)

lemmas ex_data = ex_memory_def ex_scope_def ex_event_limits_def ex_journal_def ex_payload_def ex_event_def ex_identity_def
  usize_checked_add_def usize_checked_mul_def usize_max_def

lemmas event_eval = journal_new_def event_limits_refused_def event_metadata_def event_reserved_def transaction_def
  check_resident_def journal_retained_bytes_def changes_def changes_retained_bytes_def emit_def advance_inner_def
  set_now_def entry_at_def put_entry_def find_or_insert_def valid_identity_def valid_action_def new_entry_def
  cancel_entry_def reversible_life_def expired_prediction_def check_event_def show_event_def reconcile_event_def
  replay_absent_def bind_fence_def bind_event_def resolve_outcome_def journal_reconcile_def journal_resolve_def
  journal_reject_action_def bt_update_def bt_map_def bt_contains_def bt_sum_def less_EventKey_def event_tuple_def
  less_ActionKey_def action_tuple_def Let_def

lemma ex_journal_new: "journal_new ex_memory ex_scope ex_event_limits = Inr ex_journal"
  by (simp add: ex_data journal_new_def event_limits_refused_def event_metadata_def event_reserved_def)

definition ex_live :: "nat EventEntry" where
  "ex_live = \<lparr>en_identity = ex_identity 1 3, en_lifetime = Some \<lparr>lt_expires = 11, lt_delivery = Reversible\<rparr>,
     en_payload = Some 10, en_phase = PhaseLive, en_decision = DecisionUnresolved, en_delivered = True,
     en_binding = None\<rparr>"

definition ex_cue :: "nat EventEntry" where
  "ex_cue = \<lparr>en_identity = ex_identity 2 4, en_lifetime = Some \<lparr>lt_expires = 12, lt_delivery = OneShot\<rparr>,
     en_payload = Some 20, en_phase = PhaseLive, en_decision = DecisionUnresolved, en_delivered = True,
     en_binding = None\<rparr>"

lemma ex_reconcile: "journal_reconcile ex_payload ex_memory 5 \<lparr>rr_first = 2, rr_last = 5\<rparr>
    [ex_event 1 3 Reversible 10, ex_event 2 4 OneShot 20] (\<lambda>_. True) ex_journal =
    (Inr \<lparr>cs_values = [EvCreate (ex_event 1 3 Reversible 10) False None, EvCreate (ex_event 2 4 OneShot 20) False None],
       cs_capacity = 4, cs_payload_bytes = 2\<rparr>,
     ex_journal\<lparr>ej_now := 5, ej_entries := [(ei_key (ex_identity 1 3), ex_live), (ei_key (ex_identity 2 4), ex_cue)]\<rparr>)"
  by (simp add: event_eval ex_data ex_live_def ex_cue_def)

definition ex_shown :: "nat EventJournal" where
  "ex_shown = ex_journal\<lparr>ej_now := 5,
     ej_entries := [(ei_key (ex_identity 1 3), ex_live), (ei_key (ex_identity 2 4), ex_cue)]\<rparr>"

definition ex_bound :: "nat EventJournal" where
  "ex_bound = ex_journal\<lparr>ej_now := 6,
     ej_entries := [(ei_key (ex_identity 1 3),
        ex_live\<lparr>en_decision := DecisionAccepted, en_binding := Some (EntityId 9 1)\<rparr>),
       (ei_key (ex_identity 2 4), ex_cue)],
     ej_bindings := [(9, (EntityId 9 1, ei_key (ex_identity 1 3)))]\<rparr>"

lemma ex_resolve: "journal_resolve ex_payload ex_memory 6 (ex_identity 1 3) (OutcomeAccepted (Some (EntityId 9 1))) ex_shown =
    (Inr \<lparr>cs_values = [EvConfirm (ei_key (ex_identity 1 3)), EvBind (ei_key (ex_identity 1 3)) (EntityId 9 1)],
       cs_capacity = 4, cs_payload_bytes = 0\<rparr>, ex_bound)"
  by (simp add: event_eval ex_data ex_live_def ex_cue_def ex_shown_def ex_bound_def)

definition ex_replaced :: "nat EventJournal" where
  "ex_replaced = ex_journal\<lparr>ej_now := 7,
     ej_entries := [(ei_key (ex_identity 1 3),
        ex_live\<lparr>en_phase := PhaseExpired, en_payload := None, en_decision := DecisionAccepted,
          en_binding := Some (EntityId 9 1)\<rparr>),
       (ei_key (ex_identity 2 4), ex_cue),
       (ei_key (ex_identity 3 4), (new_entry (ex_identity 3 4))\<lparr>en_decision := DecisionAccepted,
          en_binding := Some (EntityId 9 2)\<rparr>)],
     ej_bindings := [(9, (EntityId 9 2, ei_key (ex_identity 3 4)))]\<rparr>"

lemma ex_replace: "journal_resolve ex_payload ex_memory 7 (ex_identity 3 4) (OutcomeAccepted (Some (EntityId 9 2))) ex_bound =
    (Inr \<lparr>cs_values = [EvConfirm (ei_key (ex_identity 3 4)), EvCancel (ei_key (ex_identity 1 3)) ReasonExpired,
         EvBind (ei_key (ex_identity 3 4)) (EntityId 9 2)],
       cs_capacity = 4, cs_payload_bytes = 0\<rparr>, ex_replaced)"
  by (simp add: event_eval ex_data ex_live_def ex_cue_def ex_bound_def ex_replaced_def)

definition ex_event_ops :: "(Memory \<times> nat EventOp) list" where
  "ex_event_ops = map (Pair ex_memory)
    [Reconcile 5 \<lparr>rr_first = 2, rr_last = 5\<rparr> [ex_event 1 3 Reversible 10, ex_event 2 4 OneShot 20] (\<lambda>_. True),
     Resolve 6 (ex_identity 1 3) (OutcomeAccepted (Some (EntityId 9 1)))]"

definition ex_later :: "(Memory \<times> nat EventOp) list" where
  "ex_later = [(ex_memory, Resolve 7 (ex_identity 3 4) (OutcomeAccepted (Some (EntityId 9 2))))]"

definition ex_log :: "nat EventChange list" where
  "ex_log = [EvCreate (ex_event 1 3 Reversible 10) False None, EvCreate (ex_event 2 4 OneShot 20) False None,
     EvConfirm (ei_key (ex_identity 1 3)), EvBind (ei_key (ex_identity 1 3)) (EntityId 9 1)]"

definition ex_log' :: "nat EventChange list" where
  "ex_log' = ex_log @ [EvConfirm (ei_key (ex_identity 3 4)), EvCancel (ei_key (ex_identity 1 3)) ReasonExpired,
     EvBind (ei_key (ex_identity 3 4)) (EntityId 9 2)]"

lemma ex_event_run: "fold (event_step ex_payload) ex_event_ops (ex_journal, []) = (ex_bound, ex_log)"
  by (simp add: ex_event_ops_def ex_reconcile ex_resolve ex_shown_def[symmetric] ex_log_def)

lemma ex_run_later: "fold (event_step ex_payload) ex_later (ex_bound, ex_log) = (ex_replaced, ex_log')"
  by (simp add: ex_later_def ex_replace ex_log'_def)

lemma ex_run_all: "fold (event_step ex_payload) (ex_event_ops @ ex_later) (ex_journal, []) = (ex_replaced, ex_log')"
  by (simp add: ex_event_run ex_run_later)

theorem presentation_follows_journal_witness:
  "(\<exists>p. present_all ex_log' (blank ex_scope) = Some p \<and> pr_scope p = ex_scope
    \<and> (\<forall>k. rel_option (shown_as ex_payload) (map_of (pr_visuals p) k) (live_visual ex_replaced k)))
   \<and> length ex_log' = 7 \<and> live_visual ex_bound (ei_key (ex_identity 1 3)) = Some 10
   \<and> live_visual ex_replaced (ei_key (ex_identity 1 3)) = None"
  using presentation_follows_journal[OF ex_transp ex_journal_new ex_run_all]
  by (simp add: ex_replaced_def ex_bound_def ex_journal_def ex_log_def ex_log'_def live_visual_def live_payload_def
      ex_live_def reversible_life_def)

theorem event_decisions_final_witness:
  "(\<exists>e'. map_of (ej_entries ex_replaced) (ei_key (ex_identity 1 3)) = Some e'
      \<and> en_decision e' = DecisionAccepted \<and> en_binding e' = Some (EntityId 9 1))
   \<and> (\<exists>b'. map_of (ej_bindings ex_replaced) 9 = Some b' \<and> eid_generation (fst b') \<ge> 1)"
proof -
  have scope: "ej_scope ex_replaced = ej_scope ex_bound"
    by (simp add: ex_replaced_def ex_bound_def)
  note final = event_decisions_final[OF ex_transp ex_journal_new ex_event_run ex_run_later scope]
  have "map_of (ej_entries ex_bound) (ei_key (ex_identity 1 3)) =
      Some (ex_live\<lparr>en_decision := DecisionAccepted, en_binding := Some (EntityId 9 1)\<rparr>)"
    "ej_retired ex_replaced < ak_command (ek_action (ei_key (ex_identity 1 3)))"
    "map_of (ej_bindings ex_bound) 9 = Some (EntityId 9 1, ei_key (ex_identity 1 3))"
    by (simp_all add: ex_bound_def ex_replaced_def ex_journal_def ex_identity_def)
  then show ?thesis
    using final by fastforce
qed

theorem event_journal_bounded_witness:
  "length (ej_entries ex_bound) \<le> 4
   \<and> \<not> is_panic (fst (journal_op ex_payload ex_memory
        (Resolve 7 (ex_identity 3 4) (OutcomeAccepted (Some (EntityId 9 2)))) ex_bound))
   \<and> journal_retained_bytes ex_payload ex_memory ex_replaced \<le> 64"
  using event_journal_bounded[OF ex_transp ex_journal_new ex_event_run, of ex_memory
      "Resolve 7 (ex_identity 3 4) (OutcomeAccepted (Some (EntityId 9 2)))"]
  by (simp add: ex_replace transactional_def ex_event_limits_def)


end
