(* ===== verification/Net_Scheduling.thy ===== *)
theory Net_Scheduling
  imports Net_Prelude Net_Types Net_Grants
begin

text \<open>
  Bounded send scheduling (\<open>engine/net/src/scheduling.rs\<close>): a token bucket per connection, cadence
  histories per unit, and the selection of the units that fit the budget.

  Tokens are nanobytes in \<open>u128\<close>; they are naturals here, with the saturation of that width written
  out.  A missing history or a subtraction below zero is the failure \<open>Panic\<close>.  The transport callback
  of \<open>transmit\<close> is a predicate on the requests of the plan: the plan holds each unit once, so this is
  every sequence of answers the callback can give.
\<close>

section \<open>Units and requests\<close>

datatype UnitId = UnitEntity EntityId | PredictionGroup GroupId

fun unit_tuple :: "UnitId \<Rightarrow> nat \<times> EntityId \<times> u32" where
  "unit_tuple (UnitEntity e) = (0, e, 0)"
| "unit_tuple (PredictionGroup g) = (1, EntityId 0 0, g)"

lemma unit_tuple_inj: "unit_tuple a = unit_tuple b \<longleftrightarrow> a = b"
  by (cases a; cases b) simp_all

instantiation UnitId :: linorder
begin

definition less_eq_UnitId :: "UnitId \<Rightarrow> UnitId \<Rightarrow> bool" where
  "less_eq_UnitId a b \<longleftrightarrow> unit_tuple a \<le> unit_tuple b"

definition less_UnitId :: "UnitId \<Rightarrow> UnitId \<Rightarrow> bool" where
  "less_UnitId a b \<longleftrightarrow> unit_tuple a < unit_tuple b"

instance
  by standard (auto simp: less_eq_UnitId_def less_UnitId_def less_le_not_le unit_tuple_inj[symmetric])

end

record Cadence =
  ca_period_ticks :: u32
  ca_maximum_age_ticks :: u32
  ca_priority :: u8
  ca_critical :: bool

record UnitRequest =
  ur_id :: UnitId
  ur_members :: "EntityId list"
  ur_wire_bytes :: usize
  ur_cadence :: Cadence

datatype ScheduleError = InvalidConfiguration | InvalidRequest | Unauthorized | Capacity | Stale

definition unit_request_entity :: "EntityId \<Rightarrow> usize \<Rightarrow> Cadence \<Rightarrow> UnitRequest" where
  "unit_request_entity entity wire_bytes cadence =
    \<lparr>ur_id = UnitEntity entity, ur_members = [entity], ur_wire_bytes = wire_bytes, ur_cadence = cadence\<rparr>"

definition unit_request_prediction_group ::
  "EligibleSet \<Rightarrow> GroupId \<Rightarrow> usize \<Rightarrow> Cadence \<Rightarrow> ScheduleError + UnitRequest" where
  "unit_request_prediction_group eligible g wire_bytes cadence =
    (case es_prediction eligible of
       Admitted members \<Rightarrow>
         if members = [] \<or> g = 0 then Inl InvalidRequest
         else Inr \<lparr>ur_id = PredictionGroup g, ur_members = members, ur_wire_bytes = wire_bytes,
                   ur_cadence = cadence\<rparr>
     | _ \<Rightarrow> Inl Unauthorized)"

record SchedulerLimits =
  sl_units :: usize
  sl_bytes_per_second :: u64
  sl_burst_bytes :: usize
  sl_critical_reserve :: u16
  sl_maximum_accumulated_age_ticks :: u32

definition default_scheduler_limits :: SchedulerLimits where
  "default_scheduler_limits =
    \<lparr>sl_units = 4096, sl_bytes_per_second = 60000, sl_burst_bytes = 16384, sl_critical_reserve = 4000,
     sl_maximum_accumulated_age_ticks = 65535\<rparr>"

record TransportBudget =
  tb_available_wire_bytes :: usize
  tb_maximum_atomic_wire_bytes :: usize

record ScheduleMetrics =
  sm_due_units :: usize
  sm_selected_units :: usize
  sm_selected_wire_bytes :: usize
  sm_deferred_units :: usize
  sm_infeasible_units :: usize
  sm_deadline_misses :: usize
  sm_critical_deadline_misses :: usize
  sm_maximum_update_age_ticks :: u64

definition default_schedule_metrics :: ScheduleMetrics where
  "default_schedule_metrics =
    \<lparr>sm_due_units = 0, sm_selected_units = 0, sm_selected_wire_bytes = 0, sm_deferred_units = 0,
     sm_infeasible_units = 0, sm_deadline_misses = 0, sm_critical_deadline_misses = 0,
     sm_maximum_update_age_ticks = 0\<rparr>"

record History =
  hi_first_due :: ServerTick
  hi_last_transmitted :: "ServerTick option"

record SchedulePlan =
  sp_eligible :: EligibleSet
  sp_serial :: u64
  sp_selected :: "UnitRequest list"
  sp_metrics :: ScheduleMetrics

record TransmitMetrics =
  tm_accepted_units :: usize
  tm_accepted_wire_bytes :: usize
  tm_rejected_units :: usize

record Scheduler =
  sc_connection :: ConnectionId
  sc_limits :: SchedulerLimits
  sc_history :: "(UnitId, History) bt"
  sc_now :: Duration
  sc_tick :: ServerTick
  sc_world_revision :: u64
  sc_policy_revision :: PolicyRevision
  sc_serial :: u64
  sc_tokens :: nat

text \<open>\<open>AuthorizedUnit::entries\<close>: the entries the callback reads of a selected unit.\<close>

definition authorized_entries :: "EligibleSet \<Rightarrow> UnitRequest \<Rightarrow> ScheduleError failure + EligibleEntry list" where
  "authorized_entries eligible request =
    (if list_all (\<lambda>e. eligible_get e eligible \<noteq> None) (ur_members request)
     then Inr (map (\<lambda>e. the (eligible_get e eligible)) (ur_members request))
     else Inl (Panic ''called Option::unwrap() on a None value''))"

section \<open>The token bucket\<close>

definition nano :: nat where
  "nano = 1000000000"

definition u128_max :: nat where
  "u128_max = 2 ^ 128 - 1"

definition scheduler_new :: "ConnectionId \<Rightarrow> SchedulerLimits \<Rightarrow> ScheduleError + Scheduler" where
  "scheduler_new connection limits =
    (if sl_units limits = 0 \<or> sl_bytes_per_second limits = 0 \<or> sl_burst_bytes limits = 0
        \<or> sl_critical_reserve limits > 10000 \<or> sl_maximum_accumulated_age_ticks limits = 0
     then Inl InvalidConfiguration
     else Inr \<lparr>sc_connection = connection, sc_limits = limits, sc_history = [], sc_now = 0, sc_tick = 0,
               sc_world_revision = 0, sc_policy_revision = 0, sc_serial = 0,
               sc_tokens = sl_burst_bytes limits * nano\<rparr>)"

definition known_units :: "Scheduler \<Rightarrow> usize" where
  "known_units s = length (sc_history s)"

definition last_transmitted :: "UnitId \<Rightarrow> Scheduler \<Rightarrow> ServerTick option" where
  "last_transmitted unit s = Option.bind (map_of (sc_history s) unit) hi_last_transmitted"

definition refilled :: "Duration \<Rightarrow> Scheduler \<Rightarrow> nat" where
  "refilled now s =
    (let refill = min ((now - sc_now s) * unat (sl_bytes_per_second (sc_limits s))) u128_max in
     min (min (sc_tokens s + refill) u128_max) (sl_burst_bytes (sc_limits s) * nano))"

definition scheduler_available_wire_bytes :: "Duration \<Rightarrow> Scheduler \<Rightarrow> usize" where
  "scheduler_available_wire_bytes now s = refilled now s div nano"

section \<open>Scheduling\<close>

fun check_members :: "EligibleSet \<Rightarrow> EntityId list \<Rightarrow> EntityId list \<Rightarrow> ScheduleError + EntityId list" where
  "check_members eligible [] members = Inr members"
| "check_members eligible (e # es) members =
    (if eligible_get e eligible = None then Inl Unauthorized
     else if e \<in> set members then Inl InvalidRequest
     else check_members eligible es (bs_insert e members))"

definition request_invalid :: "SchedulerLimits \<Rightarrow> UnitId list \<Rightarrow> UnitRequest \<Rightarrow> bool" where
  "request_invalid limits ids request \<longleftrightarrow>
    ur_wire_bytes request = 0
    \<or> ca_period_ticks (ur_cadence request) = 0
    \<or> ca_maximum_age_ticks (ur_cadence request) < ca_period_ticks (ur_cadence request)
    \<or> ca_maximum_age_ticks (ur_cadence request) > sl_maximum_accumulated_age_ticks limits
    \<or> ur_id request \<in> set ids
    \<or> ur_members request = []"

definition group_unauthorized :: "EligibleSet \<Rightarrow> UnitRequest \<Rightarrow> bool" where
  "group_unauthorized eligible request \<longleftrightarrow>
    (case ur_id request of
       PredictionGroup _ \<Rightarrow> es_prediction eligible \<noteq> Admitted (ur_members request)
     | UnitEntity _ \<Rightarrow> False)"

fun check_requests ::
  "SchedulerLimits \<Rightarrow> EligibleSet \<Rightarrow> UnitRequest list \<Rightarrow> UnitId list \<Rightarrow> EntityId list \<Rightarrow>
   ScheduleError + UnitId list" where
  "check_requests limits eligible [] ids members = Inr ids"
| "check_requests limits eligible (r # rs) ids members =
    (if request_invalid limits ids r then Inl InvalidRequest
     else if group_unauthorized eligible r then Inl Unauthorized
     else and_then (check_members eligible (ur_members r) members) (\<lambda>members'.
       check_requests limits eligible rs (bs_insert (ur_id r) ids) members'))"

fun insert_histories :: "ServerTick \<Rightarrow> UnitRequest list \<Rightarrow> (UnitId, History) bt \<Rightarrow> (UnitId, History) bt" where
  "insert_histories tick [] h = h"
| "insert_histories tick (r # rs) h =
    insert_histories tick rs
      (if bt_contains (ur_id r) h then h
       else bt_insert (ur_id r) \<lparr>hi_first_due = tick, hi_last_transmitted = None\<rparr> h)"

record Due =
  du_request :: UnitRequest
  du_age :: u64
  du_score :: u64
  du_infeasible :: bool

definition update_origin :: "History \<Rightarrow> ServerTick" where
  "update_origin h = (case hi_last_transmitted h of Some t \<Rightarrow> t | None \<Rightarrow> hi_first_due h)"

definition not_due :: "UnitRequest \<Rightarrow> History \<Rightarrow> u64 \<Rightarrow> bool" where
  "not_due r h age \<longleftrightarrow> hi_last_transmitted h \<noteq> None \<and> age < ucast (ca_period_ticks (ur_cadence r))"

definition make_due :: "SchedulerLimits \<Rightarrow> TransportBudget \<Rightarrow> UnitRequest \<Rightarrow> u64 \<Rightarrow> Due" where
  "make_due limits transport r age =
    \<lparr>du_request = r, du_age = age,
     du_score = min age (ucast (sl_maximum_accumulated_age_ticks limits)) + ucast (ca_priority (ur_cadence r)),
     du_infeasible = (ur_wire_bytes r > sl_burst_bytes limits
                      \<or> ur_wire_bytes r > tb_maximum_atomic_wire_bytes transport)\<rparr>"

fun collect_due ::
  "SchedulerLimits \<Rightarrow> TransportBudget \<Rightarrow> ServerTick \<Rightarrow> (UnitId, History) bt \<Rightarrow> UnitRequest list \<Rightarrow>
   ScheduleMetrics \<Rightarrow> Due list \<Rightarrow> ScheduleError failure + Due list \<times> ScheduleMetrics" where
  "collect_due limits transport tick history [] m due = Inr (due, m)"
| "collect_due limits transport tick history (r # rs) m due =
    (case map_of history (ur_id r) of
       None \<Rightarrow> Inl (Panic ''no entry found for key'')
     | Some h \<Rightarrow>
         if tick < update_origin h then Inl (Panic ''attempt to subtract with overflow'')
         else let age = tick - update_origin h;
                  m1 = m\<lparr>sm_maximum_update_age_ticks := max (sm_maximum_update_age_ticks m) age\<rparr>;
                  d = make_due limits transport r age in
           if not_due r h age then collect_due limits transport tick history rs m1 due
           else collect_due limits transport tick history rs
             (m1\<lparr>sm_due_units := sm_due_units m1 + 1,
                 sm_infeasible_units := sm_infeasible_units m1 + (if du_infeasible d then 1 else 0)\<rparr>)
             (due @ [d]))"

definition deadline_missed :: "Due \<Rightarrow> bool" where
  "deadline_missed d \<longleftrightarrow> du_age d \<ge> ucast (ca_maximum_age_ticks (ur_cadence (du_request d)))"

text \<open>
  The comparison of \<open>sort_by\<close> as a key: overdue units first, the longest overdue first, then the
  higher score, then the smaller identity.
\<close>

definition due_key :: "Due \<Rightarrow> int \<times> int \<times> int \<times> UnitId" where
  "due_key d =
    (- of_bool (deadline_missed d),
     - uint (saturating_sub (du_age d) (ucast (ca_maximum_age_ticks (ur_cadence (du_request d))))),
     - uint (du_score d),
     ur_id (du_request d))"

definition sort_due :: "Due list \<Rightarrow> Due list" where
  "sort_due due = sort_key due_key due"

record Selection =
  se_used :: usize
  se_ids :: "UnitId list"
  se_selected :: "UnitRequest list"

definition take_unit :: "UnitRequest \<Rightarrow> Selection \<Rightarrow> Selection" where
  "take_unit r x = \<lparr>se_used = se_used x + ur_wire_bytes r, se_ids = bs_insert (ur_id r) (se_ids x),
     se_selected = se_selected x @ [r]\<rparr>"

fun select_critical :: "usize \<Rightarrow> usize \<Rightarrow> Due list \<Rightarrow> Selection \<Rightarrow> Selection" where
  "select_critical budget reserve [] x = x"
| "select_critical budget reserve (d # ds) x =
    (let r = du_request d in
     select_critical budget reserve ds
       (if \<not> du_infeasible d \<and> ca_critical (ur_cadence r) \<and> se_used x < reserve
           \<and> ur_wire_bytes r \<le> budget - se_used x
        then take_unit r x else x))"

fun select_rest :: "usize \<Rightarrow> Due list \<Rightarrow> Selection \<Rightarrow> Selection" where
  "select_rest budget [] x = x"
| "select_rest budget (d # ds) x =
    (let r = du_request d in
     select_rest budget ds
       (if \<not> du_infeasible d \<and> ur_id r \<notin> set (se_ids x) \<and> ur_wire_bytes r \<le> budget - se_used x
        then take_unit r x else x))"

fun count_deferred :: "UnitId list \<Rightarrow> Due list \<Rightarrow> ScheduleMetrics \<Rightarrow> ScheduleMetrics" where
  "count_deferred ids [] m = m"
| "count_deferred ids (d # ds) m =
    count_deferred ids ds
      (if ur_id (du_request d) \<in> set ids then m
       else let m1 = m\<lparr>sm_deferred_units := sm_deferred_units m + 1\<rparr> in
         if deadline_missed d
         then m1\<lparr>sm_deadline_misses := sm_deadline_misses m1 + 1,
                 sm_critical_deadline_misses := sm_critical_deadline_misses m1
                   + of_bool (ca_critical (ur_cadence (du_request d)))\<rparr>
         else m1)"

definition select_units :: "usize \<Rightarrow> usize \<Rightarrow> Due list \<Rightarrow> Selection" where
  "select_units budget reserve due =
    select_rest budget due (select_critical budget reserve due \<lparr>se_used = 0, se_ids = [], se_selected = []\<rparr>)"

definition begin_schedule ::
  "EligibleSet \<Rightarrow> UnitRequest list \<Rightarrow> UnitId list \<Rightarrow> Duration \<Rightarrow> u64 \<Rightarrow> Scheduler \<Rightarrow> Scheduler" where
  "begin_schedule eligible requests ids now serial s =
    s\<lparr>sc_tokens := refilled now s, sc_now := now, sc_tick := es_tick eligible,
      sc_world_revision := es_world_revision eligible, sc_policy_revision := es_policy_revision eligible,
      sc_serial := serial,
      sc_history := insert_histories (es_tick eligible) requests
        (bt_retain (\<lambda>i _. i \<in> set ids) (sc_history s))\<rparr>"

definition plan_units ::
  "EligibleSet \<Rightarrow> UnitRequest list \<Rightarrow> TransportBudget \<Rightarrow> Scheduler \<Rightarrow> ScheduleError failure + SchedulePlan" where
  "plan_units eligible requests transport s =
    (let limits = sc_limits s;
         budget = min (tb_available_wire_bytes transport) (sc_tokens s div nano) in
     and_then (collect_due limits transport (sc_tick s) (sc_history s) requests default_schedule_metrics [])
       (\<lambda>(collected, m).
       let due = sort_due collected;
           reserve = budget * unat (sl_critical_reserve limits) div 10000;
           x = select_units budget reserve due;
           m2 = count_deferred (se_ids x) due m in
       Inr \<lparr>sp_eligible = eligible, sp_serial = sc_serial s, sp_selected = se_selected x,
            sp_metrics = m2\<lparr>sm_selected_units := length (se_selected x), sm_selected_wire_bytes := se_used x\<rparr>\<rparr>))"

definition schedule ::
  "EligibleSet \<Rightarrow> UnitRequest list \<Rightarrow> Duration \<Rightarrow> TransportBudget \<Rightarrow> Scheduler \<Rightarrow>
   (ScheduleError failure + SchedulePlan) \<times> Scheduler" where
  "schedule eligible requests now transport s =
    (if es_connection eligible \<noteq> sc_connection s then (Inl (Err Unauthorized), s)
     else if now < sc_now s \<or> es_tick eligible < sc_tick s
             \<or> es_world_revision eligible < sc_world_revision s
             \<or> es_policy_revision eligible < sc_policy_revision s then (Inl (Err Stale), s)
     else if length requests > sl_units (sc_limits s) then (Inl (Err Capacity), s)
     else case check_requests (sc_limits s) eligible requests [] [] of
       Inl e \<Rightarrow> (Inl (Err e), s)
     | Inr ids \<Rightarrow>
         case checked_add (sc_serial s) 1 of
           None \<Rightarrow> (Inl (Err Capacity), s)
         | Some serial \<Rightarrow>
             let t = begin_schedule eligible requests ids now serial s in
             (plan_units eligible requests transport t, t))"

section \<open>Transmission\<close>

fun transmit_units ::
  "(UnitRequest \<Rightarrow> bool) \<Rightarrow> ServerTick \<Rightarrow> UnitRequest list \<Rightarrow> TransmitMetrics \<Rightarrow> Scheduler \<Rightarrow>
   (ScheduleError failure + TransmitMetrics) \<times> Scheduler" where
  "transmit_units send tick [] m s = (Inr m, s)"
| "transmit_units send tick (r # rs) m s =
    (if send r
     then if sc_tokens s < ur_wire_bytes r * nano then (Inl (Panic ''attempt to subtract with overflow''), s)
       else if \<not> bt_contains (ur_id r) (sc_history s)
         then (Inl (Panic ''called Option::unwrap() on a None value''),
               s\<lparr>sc_tokens := sc_tokens s - ur_wire_bytes r * nano\<rparr>)
       else transmit_units send tick rs
         (m\<lparr>tm_accepted_units := tm_accepted_units m + 1,
            tm_accepted_wire_bytes := tm_accepted_wire_bytes m + ur_wire_bytes r\<rparr>)
         (s\<lparr>sc_tokens := sc_tokens s - ur_wire_bytes r * nano,
            sc_history := bt_update (ur_id r) (\<lambda>h. h\<lparr>hi_last_transmitted := Some tick\<rparr>) (sc_history s)\<rparr>)
     else transmit_units send tick rs (m\<lparr>tm_rejected_units := tm_rejected_units m + 1\<rparr>) s)"

definition transmit_plan ::
  "SchedulePlan \<Rightarrow> u64 \<Rightarrow> PolicyRevision \<Rightarrow> (UnitRequest \<Rightarrow> bool) \<Rightarrow> Scheduler \<Rightarrow>
   (ScheduleError failure + TransmitMetrics) \<times> Scheduler" where
  "transmit_plan plan world_revision policy_revision send s =
    (if sp_serial plan \<noteq> sc_serial s \<or> \<not> is_current world_revision policy_revision (sp_eligible plan)
       then (Inl (Err Stale), s)
     else case checked_add (sc_serial s) 1 of
       None \<Rightarrow> (Inl (Err Capacity), s)
     | Some serial \<Rightarrow>
         transmit_units send (es_tick (sp_eligible plan)) (sp_selected plan)
           \<lparr>tm_accepted_units = 0, tm_accepted_wire_bytes = 0, tm_rejected_units = 0\<rparr>
           (s\<lparr>sc_serial := serial\<rparr>))"

end
