(* ===== verification/Net_Schedule_Facts.thy ===== *)
theory Net_Schedule_Facts
  imports Net_Scheduling
begin

text \<open>
  The scheduler's invariant \<open>scheduler_ok\<close>, the meaning of the due list, and what the two selection
  passes choose: \<open>plan_units_sound\<close> collects it for a whole plan.
\<close>

section \<open>Requests\<close>

definition request_ok :: "SchedulerLimits \<Rightarrow> EligibleSet \<Rightarrow> UnitRequest \<Rightarrow> bool" where
  "request_ok limits eligible r \<longleftrightarrow>
    ur_wire_bytes r \<noteq> 0 \<and> ca_period_ticks (ur_cadence r) \<noteq> 0
    \<and> ca_maximum_age_ticks (ur_cadence r) \<le> sl_maximum_accumulated_age_ticks limits
    \<and> ur_members r \<noteq> [] \<and> (\<forall>e \<in> set (ur_members r). eligible_get e eligible \<noteq> None)
    \<and> \<not> group_unauthorized eligible r"

lemma check_members_ok:
  "check_members eligible es ms = Inr ms' \<Longrightarrow> \<forall>e \<in> set es. eligible_get e eligible \<noteq> None"
  by (induction es arbitrary: ms) (auto split: if_splits)

lemma check_requests_ok:
  assumes "check_requests limits eligible rs ids ms = Inr ids'"
  shows "set ids' = set ids \<union> ur_id ` set rs \<and> distinct (map ur_id rs) \<and> set ids \<inter> ur_id ` set rs = {}
    \<and> (\<forall>r \<in> set rs. request_ok limits eligible r)"
  using assms
proof (induction rs arbitrary: ids ms)
  case (Cons r rs)
  from Cons.prems obtain ms' where r: "\<not> request_invalid limits ids r" "\<not> group_unauthorized eligible r"
    "check_members eligible (ur_members r) ms = Inr ms'"
    "check_requests limits eligible rs (bs_insert (ur_id r) ids) ms' = Inr ids'"
    by (auto simp: res_simps split: if_splits)
  have "request_ok limits eligible r" "ur_id r \<notin> set ids"
    using r(1,2) check_members_ok[OF r(3)] by (auto simp: request_ok_def request_invalid_def)
  then show ?case
    using Cons.IH[OF r(4)] by auto
qed simp

section \<open>Histories\<close>

definition history_ok :: "ServerTick \<Rightarrow> History \<Rightarrow> bool" where
  "history_ok tick h \<longleftrightarrow> hi_first_due h \<le> tick \<and> (case hi_last_transmitted h of None \<Rightarrow> True | Some t \<Rightarrow> t \<le> tick)"

lemma history_ok_origin: "history_ok tick h \<Longrightarrow> update_origin h \<le> tick"
  by (auto simp: history_ok_def update_origin_def split: option.splits)

lemma history_ok_mono: "history_ok tick h \<Longrightarrow> tick \<le> tick' \<Longrightarrow> history_ok tick' h"
  by (auto simp: history_ok_def split: option.splits)

lemma insert_histories_ok:
  "bt_ok h \<Longrightarrow> bt_ok (insert_histories tick rs h)
    \<and> map_of (insert_histories tick rs h) k = (case map_of h k of Some x \<Rightarrow> Some x
       | None \<Rightarrow> if k \<in> ur_id ` set rs then Some \<lparr>hi_first_due = tick, hi_last_transmitted = None\<rparr> else None)"
proof (induction rs arbitrary: h)
  case (Cons r rs)
  let ?h = "if bt_contains (ur_id r) h then h else bt_insert (ur_id r) \<lparr>hi_first_due = tick, hi_last_transmitted = None\<rparr> h"
  have "bt_ok ?h"
    using Cons.prems by simp
  from Cons.IH[OF this] show ?case
    using Cons.prems by (auto simp: bt_contains_def split: option.splits)
qed (auto split: option.splits)

definition scheduler_ok :: "Scheduler \<Rightarrow> bool" where
  "scheduler_ok s \<longleftrightarrow>
    bt_ok (sc_history s) \<and> length (sc_history s) \<le> sl_units (sc_limits s)
    \<and> sc_tokens s \<le> sl_burst_bytes (sc_limits s) * nano
    \<and> (\<forall>k h. map_of (sc_history s) k = Some h \<longrightarrow> history_ok (sc_tick s) h)"

lemma keys_length:
  assumes "bt_ok m" "\<And>k v. map_of m k = Some v \<Longrightarrow> k \<in> set ks"
  shows "length m \<le> length ks"
proof -
  have "set (map fst m) \<subseteq> set ks"
    using assms bt_keys_unique[OF assms(1)] by auto
  then have "card (set (map fst m)) \<le> card (set ks)"
    by (intro card_mono) simp_all
  also have "card (set (map fst m)) = length m"
    using distinct_card[OF bt_ok_distinct[OF assms(1)]] by simp
  also have "card (set ks) \<le> length ks"
    by (rule card_length)
  finally show ?thesis .
qed

lemma begin_schedule_ok:
  fixes now :: Duration and serial :: u64
  assumes ok: "scheduler_ok s" and chk: "check_requests (sc_limits s) eligible requests [] [] = Inr ids"
    and len: "length requests \<le> sl_units (sc_limits s)" and tick: "sc_tick s \<le> es_tick eligible"
  defines "t \<equiv> begin_schedule eligible requests ids now serial s"
  shows "scheduler_ok t" "\<And>r. r \<in> set requests \<Longrightarrow> bt_contains (ur_id r) (sc_history t)"
    "sc_tokens t \<le> sc_tokens s + (now - sc_now s) * unat (sl_bytes_per_second (sc_limits s))"
proof -
  note m = check_requests_ok[OF chk]
  let ?old = "bt_retain (\<lambda>i _. i \<in> set ids) (sc_history s)"
  have old: "bt_ok ?old"
    using ok by (simp add: scheduler_ok_def)
  note look = insert_histories_ok[OF old, of "es_tick eligible" requests]
  have fields: "sc_history t = insert_histories (es_tick eligible) requests ?old" "sc_tick t = es_tick eligible"
    "sc_limits t = sc_limits s" "sc_tokens t = refilled now s"
    by (simp_all add: t_def begin_schedule_def)
  have retained: "map_of ?old k = Some h \<Longrightarrow> map_of (sc_history s) k = Some h \<and> k \<in> set ids" for k h
    using ok by (auto simp: map_of_bt_retain scheduler_ok_def split: option.splits if_splits)
  have keys: "k \<in> set (map ur_id requests)" "history_ok (es_tick eligible) h" if "map_of (sc_history t) k = Some h" for k h
  proof -
    show "k \<in> set (map ur_id requests)"
      using that look[of k] m retained[of k] by (auto simp: fields split: option.splits if_splits)
    show "history_ok (es_tick eligible) h"
    proof (cases "map_of ?old k")
      case None
      then show ?thesis
        using that look[of k] by (auto simp: fields history_ok_def split: if_splits)
    next
      case (Some x)
      then have "history_ok (sc_tick s) h"
        using that look[of k] retained[of k x] ok by (auto simp: fields scheduler_ok_def)
      then show ?thesis
        using tick by (rule history_ok_mono)
    qed
  qed
  have "length (sc_history t) \<le> length (map ur_id requests)"
    using look keys(1) by (intro keys_length) (auto simp: fields)
  then show "scheduler_ok t"
    using look keys(2) len by (auto simp: scheduler_ok_def fields refilled_def Let_def)
  show "bt_contains (ur_id r) (sc_history t)" if "r \<in> set requests" for r
    using that look[of "ur_id r"] by (auto simp: fields bt_contains_def split: option.splits)
  show "sc_tokens t \<le> sc_tokens s + (now - sc_now s) * unat (sl_bytes_per_second (sc_limits s))"
    by (simp add: fields refilled_def Let_def)
qed

section \<open>Due units\<close>

definition due_of :: "SchedulerLimits \<Rightarrow> TransportBudget \<Rightarrow> ServerTick \<Rightarrow> (UnitId, History) bt \<Rightarrow> UnitRequest \<Rightarrow> Due option" where
  "due_of limits transport tick history r =
    (case map_of history (ur_id r) of
       None \<Rightarrow> None
     | Some h \<Rightarrow> if not_due r h (tick - update_origin h) then None
         else Some (make_due limits transport r (tick - update_origin h)))"

definition due_units :: "TransportBudget \<Rightarrow> UnitRequest list \<Rightarrow> Scheduler \<Rightarrow> Due list" where
  "due_units transport requests s =
    List.map_filter (due_of (sc_limits s) transport (sc_tick s) (sc_history s)) requests"

lemma due_of_request [simp]: "due_of limits transport tick history r = Some d \<Longrightarrow> du_request d = r"
  by (auto simp: due_of_def make_due_def split: option.splits if_splits)

lemma collect_due_eq:
  assumes "\<forall>r \<in> set rs. bt_contains (ur_id r) history"
    "\<And>k h. map_of history k = Some h \<Longrightarrow> history_ok tick h"
  shows "\<exists>m'. collect_due limits transport tick history rs m due =
    Inr (due @ List.map_filter (due_of limits transport tick history) rs, m')"
  using assms(1)
proof (induction rs arbitrary: m due)
  case (Cons r rs)
  then obtain h where h: "map_of history (ur_id r) = Some h"
    by (auto simp: bt_contains_def)
  have "\<not> tick < update_origin h"
    using history_ok_origin[OF assms(2)[OF h]] by simp
  moreover have "due_of limits transport tick history r =
      (if not_due r h (tick - update_origin h) then None else Some (make_due limits transport r (tick - update_origin h)))"
    using h by (simp add: due_of_def)
  moreover have "\<exists>m'. collect_due limits transport tick history rs m1 (due @ [d]) =
      Inr (due @ d # List.map_filter (due_of limits transport tick history) rs, m')" for m1 d
    using Cons.IH[of m1 "due @ [d]"] Cons.prems by simp
  ultimately show ?case
    using Cons h by (auto simp: Let_def map_filter_simps)
qed (simp add: map_filter_simps)

lemma due_units_distinct:
  assumes "distinct (map ur_id requests)"
  shows "distinct (map (ur_id \<circ> du_request) (due_units transport requests s))"
  using assms
proof (induction requests)
  case (Cons r rs)
  have "ur_id (du_request d) \<in> ur_id ` set rs" if "d \<in> set (due_units transport rs s)" for d
    using that by (auto simp: due_units_def List.map_filter_def)
  then show ?case
    using Cons by (auto simp: due_units_def map_filter_simps split: option.splits)
qed (simp add: due_units_def map_filter_simps)

section \<open>Selection\<close>

definition wire_total :: "UnitRequest list \<Rightarrow> nat" where
  "wire_total rs = sum_list (map ur_wire_bytes rs)"

lemma wire_total_simps [simp]:
  "wire_total [] = 0" "wire_total (r # rs) = ur_wire_bytes r + wire_total rs"
  "wire_total (xs @ ys) = wire_total xs + wire_total ys"
  by (simp_all add: wire_total_def)

definition selection_ok :: "usize \<Rightarrow> Due list \<Rightarrow> Selection \<Rightarrow> bool" where
  "selection_ok budget due x \<longleftrightarrow>
    se_used x = wire_total (se_selected x) \<and> se_used x \<le> budget
    \<and> set (se_ids x) = ur_id ` set (se_selected x) \<and> distinct (map ur_id (se_selected x))
    \<and> (\<forall>r \<in> set (se_selected x). \<exists>d \<in> set due. du_request d = r \<and> \<not> du_infeasible d)"

lemma take_unit_ok:
  assumes "selection_ok budget due x" "d \<in> set due" "\<not> du_infeasible d" "ur_id (du_request d) \<notin> set (se_ids x)"
    "ur_wire_bytes (du_request d) \<le> budget - se_used x"
  shows "selection_ok budget due (take_unit (du_request d) x)"
  using assms by (auto simp: selection_ok_def take_unit_def)

lemma take_unit_fields [simp]:
  "se_used (take_unit r x) = se_used x + ur_wire_bytes r"
  "set (se_ids (take_unit r x)) = insert (ur_id r) (set (se_ids x))"
  "se_selected (take_unit r x) = se_selected x @ [r]"
  by (simp_all add: take_unit_def)

lemma select_critical_ok:
  assumes "selection_ok budget due x" "set ds \<subseteq> set due" "distinct (map (ur_id \<circ> du_request) ds)"
    "\<forall>d \<in> set ds. ur_id (du_request d) \<notin> set (se_ids x)"
  shows "selection_ok budget due (select_critical budget reserve ds x)"
  using assms
proof (induction ds arbitrary: x)
  case (Cons d ds)
  let ?y = "if \<not> du_infeasible d \<and> ca_critical (ur_cadence (du_request d)) \<and> se_used x < reserve
           \<and> ur_wire_bytes (du_request d) \<le> budget - se_used x then take_unit (du_request d) x else x"
  have "selection_ok budget due ?y"
    using Cons.prems take_unit_ok[of budget due x d] by auto
  moreover have "\<forall>d' \<in> set ds. ur_id (du_request d') \<noteq> ur_id (du_request d)"
    using Cons.prems(3) by (simp add: image_iff) metis
  then have "\<forall>d' \<in> set ds. ur_id (du_request d') \<notin> set (se_ids ?y)"
    using Cons.prems(4) by auto
  ultimately show ?case
    using Cons.IH[of ?y] Cons.prems by (simp add: Let_def)
qed simp

lemma select_critical_grows: "set (se_selected x) \<subseteq> set (se_selected (select_critical budget reserve ds x))"
proof (induction ds arbitrary: x)
  case (Cons d ds)
  let ?y = "if \<not> du_infeasible d \<and> ca_critical (ur_cadence (du_request d)) \<and> se_used x < reserve
           \<and> ur_wire_bytes (du_request d) \<le> budget - se_used x then take_unit (du_request d) x else x"
  show ?case
    using Cons.IH[of ?y] by (auto simp: Let_def split: if_splits)
qed simp

lemma select_rest_ok:
  assumes "selection_ok budget due x" "set ds \<subseteq> set due"
  shows "selection_ok budget due (select_rest budget ds x)
    \<and> set (se_selected x) \<subseteq> set (se_selected (select_rest budget ds x))
    \<and> se_used x \<le> se_used (select_rest budget ds x)
    \<and> (\<forall>d \<in> set ds. \<not> du_infeasible d \<longrightarrow> ur_id (du_request d) \<in> set (se_ids (select_rest budget ds x))
         \<or> budget - se_used (select_rest budget ds x) < ur_wire_bytes (du_request d))"
  using assms
proof (induction ds arbitrary: x)
  case (Cons d ds)
  let ?take = "\<not> du_infeasible d \<and> ur_id (du_request d) \<notin> set (se_ids x)
    \<and> ur_wire_bytes (du_request d) \<le> budget - se_used x"
  let ?y = "if ?take then take_unit (du_request d) x else x"
  let ?z = "select_rest budget ds ?y"
  have y: "selection_ok budget due ?y"
    using Cons.prems take_unit_ok[of budget due x d] by auto
  note ih = Cons.IH[OF y] 
  have z: "selection_ok budget due ?z" "set (se_selected ?y) \<subseteq> set (se_selected ?z)" "se_used ?y \<le> se_used ?z"
    using ih Cons.prems by auto
  have mono: "ur_id r \<in> set (se_ids ?y) \<Longrightarrow> ur_id r \<in> set (se_ids ?z)" for r
    using z(1,2) y by (auto simp: selection_ok_def)
  have "\<not> du_infeasible d \<longrightarrow> ur_id (du_request d) \<in> set (se_ids ?z) \<or> budget - se_used ?z < ur_wire_bytes (du_request d)"
  proof (cases ?take)
    case True
    then show ?thesis
      using mono[of "du_request d"] by simp
  next
    case False
    then show ?thesis
      using mono[of "du_request d"] z(3) by auto
  qed
  then show ?case
    using ih z Cons.prems by (auto simp: Let_def split: if_splits)
qed simp

lemma select_critical_first:
  assumes "\<not> du_infeasible d" "ca_critical (ur_cadence (du_request d))" "0 < reserve"
    "ur_wire_bytes (du_request d) \<le> budget" "se_used x = 0"
    "\<forall>d' \<in> set before. \<not> (\<not> du_infeasible d' \<and> ca_critical (ur_cadence (du_request d')) \<and> ur_wire_bytes (du_request d') \<le> budget)"
  shows "du_request d \<in> set (se_selected (select_critical budget reserve (before @ d # after) x))"
  using assms
proof (induction before arbitrary: x)
  case Nil
  then show ?case
    using select_critical_grows[of "take_unit (du_request d) x" budget reserve after] by (auto simp: Let_def)
next
  case (Cons a before)
  then show ?case
    by (auto simp: Let_def)
qed

definition budget_of :: "TransportBudget \<Rightarrow> Scheduler \<Rightarrow> usize" where
  "budget_of transport s = min (tb_available_wire_bytes transport) (sc_tokens s div nano)"

definition reserve_of :: "TransportBudget \<Rightarrow> Scheduler \<Rightarrow> usize" where
  "reserve_of transport s = budget_of transport s * unat (sl_critical_reserve (sc_limits s)) div 10000"

text \<open>What a plan promises about the state it was made in.\<close>

definition plan_sound :: "EligibleSet \<Rightarrow> UnitRequest list \<Rightarrow> TransportBudget \<Rightarrow> Scheduler \<Rightarrow> SchedulePlan \<Rightarrow> bool" where
  "plan_sound eligible requests transport t p \<longleftrightarrow>
    distinct (map ur_id (sp_selected p))
    \<and> wire_total (sp_selected p) \<le> budget_of transport t
    \<and> (\<forall>r \<in> set (sp_selected p). r \<in> set requests \<and> request_ok (sc_limits t) eligible r
         \<and> (\<exists>d \<in> set (due_units transport requests t). du_request d = r \<and> \<not> du_infeasible d))
    \<and> (\<forall>d \<in> set (due_units transport requests t). \<not> du_infeasible d \<longrightarrow>
         du_request d \<in> set (sp_selected p)
         \<or> budget_of transport t - wire_total (sp_selected p) < ur_wire_bytes (du_request d))
    \<and> (\<forall>d \<in> set (due_units transport requests t).
         \<not> du_infeasible d \<and> ca_critical (ur_cadence (du_request d)) \<and> 0 < reserve_of transport t
         \<and> ur_wire_bytes (du_request d) \<le> budget_of transport t
         \<and> (\<forall>d' \<in> set (due_units transport requests t). \<not> du_infeasible d' \<and> ca_critical (ur_cadence (du_request d'))
              \<and> ur_wire_bytes (du_request d') \<le> budget_of transport t \<longrightarrow> due_key d \<le> due_key d')
         \<longrightarrow> du_request d \<in> set (sp_selected p))"

lemma due_units_member: "d \<in> set (due_units transport requests t) \<Longrightarrow> du_request d \<in> set requests"
  by (auto simp: due_units_def List.map_filter_def)

lemma due_key_id: "due_key d \<le> due_key d' \<Longrightarrow> due_key d' \<le> due_key d \<Longrightarrow> ur_id (du_request d) = ur_id (du_request d')"
  using order_antisym[of "due_key d" "due_key d'"] by (simp add: due_key_def)

lemma sorted_due_split:
  assumes d: "d \<in> set due" and dist: "distinct (map (ur_id \<circ> du_request) due)"
  shows "\<exists>before after. sort_due due = before @ d # after
    \<and> (\<forall>d' \<in> set before. due_key d' < due_key d)"
proof -
  obtain before after where split: "sort_due due = before @ d # after"
    using d split_list[of d "sort_due due"] by (auto simp: sort_due_def)
  have "sorted (map due_key (before @ d # after))"
    unfolding split[symmetric] sort_due_def by simp
  then have le: "\<forall>d' \<in> set before. due_key d' \<le> due_key d"
    by (auto simp: sorted_append)
  have "distinct (map (ur_id \<circ> du_request) (before @ d # after))"
    using dist unfolding split[symmetric] sort_due_def by (simp add: distinct_map)
  then have "ur_id (du_request d') \<noteq> ur_id (du_request d)" if "d' \<in> set before" for d'
    using that by (auto simp: image_iff)
  with le have "\<forall>d' \<in> set before. due_key d' < due_key d"
    using due_key_id by (metis order_le_less order_refl)
  with split show ?thesis
    by blast
qed

lemma plan_units_sound:
  assumes ok: "scheduler_ok t" and held: "\<And>r. r \<in> set requests \<Longrightarrow> bt_contains (ur_id r) (sc_history t)"
    and dist: "distinct (map ur_id requests)" and req: "\<forall>r \<in> set requests. request_ok (sc_limits t) eligible r"
  shows "\<exists>p. plan_units eligible requests transport t = Inr p \<and> sp_serial p = sc_serial t \<and> sp_eligible p = eligible
    \<and> plan_sound eligible requests transport t p"
proof -
  let ?due = "due_units transport requests t" and ?budget = "budget_of transport t" and ?reserve = "reserve_of transport t"
  obtain m where collect: "collect_due (sc_limits t) transport (sc_tick t) (sc_history t) requests default_schedule_metrics []
      = Inr (?due, m)"
    using collect_due_eq[of requests "sc_history t" "sc_tick t" "sc_limits t" transport default_schedule_metrics "[]"]
      held ok by (auto simp: due_units_def scheduler_ok_def)
  define x where "x = select_units ?budget ?reserve (sort_due ?due)"
  define x0 where "x0 = \<lparr>se_used = 0, se_ids = [], se_selected = []\<rparr>"
  define x1 where "x1 = select_critical ?budget ?reserve (sort_due ?due) x0"
  have set_due: "set (sort_due ?due) = set ?due"
    by (simp add: sort_due_def)
  have dist': "distinct (map (ur_id \<circ> du_request) (sort_due ?due))"
    using due_units_distinct[OF dist] by (simp add: sort_due_def distinct_map)
  have "selection_ok ?budget ?due x1"
    unfolding x1_def by (rule select_critical_ok) (simp_all add: x0_def selection_ok_def set_due dist'[simplified])
  from select_rest_ok[OF this, of "sort_due ?due"]
  have x: "selection_ok ?budget ?due x" "set (se_selected x1) \<subseteq> set (se_selected x)"
    "\<forall>d \<in> set ?due. \<not> du_infeasible d \<longrightarrow> ur_id (du_request d) \<in> set (se_ids x)
       \<or> ?budget - se_used x < ur_wire_bytes (du_request d)"
    by (simp_all add: set_due x_def select_units_def x1_def x0_def)
  have member: "r \<in> set requests" if "r \<in> set (se_selected x)" for r
    using x(1) that due_units_member by (auto simp: selection_ok_def)
  have chosen: "r \<in> set (se_selected x)" if "r \<in> set requests" "ur_id r \<in> set (se_ids x)" for r
    using x(1) that member dist by (auto simp: selection_ok_def distinct_map inj_on_def)
  have critical: "du_request d \<in> set (se_selected x)"
    if d: "d \<in> set ?due" "\<not> du_infeasible d" "ca_critical (ur_cadence (du_request d))" "0 < ?reserve"
      "ur_wire_bytes (du_request d) \<le> ?budget"
      and first: "\<forall>d' \<in> set ?due. \<not> du_infeasible d' \<and> ca_critical (ur_cadence (du_request d'))
        \<and> ur_wire_bytes (du_request d') \<le> ?budget \<longrightarrow> due_key d \<le> due_key d'" for d
  proof -
    obtain before after where split: "sort_due ?due = before @ d # after" "\<forall>d' \<in> set before. due_key d' < due_key d"
      using sorted_due_split[OF d(1) due_units_distinct[OF dist]] by blast
    have "set before \<subseteq> set ?due"
      using set_due split(1) by auto
    then have none: "\<forall>d' \<in> set before. \<not> (\<not> du_infeasible d' \<and> ca_critical (ur_cadence (du_request d'))
        \<and> ur_wire_bytes (du_request d') \<le> ?budget)"
      using first split(2) by (meson in_mono leD)
    have "du_request d \<in> set (se_selected x1)"
      unfolding x1_def split(1) by (rule select_critical_first[OF d(2-5) _ none]) (simp add: x0_def)
    then show ?thesis
      using x(2) by blast
  qed
  let ?p = "\<lparr>sp_eligible = eligible, sp_serial = sc_serial t, sp_selected = se_selected x,
    sp_metrics = (count_deferred (se_ids x) (sort_due ?due) m)\<lparr>sm_selected_units := length (se_selected x),
      sm_selected_wire_bytes := se_used x\<rparr>\<rparr>"
  have "plan_units eligible requests transport t = Inr ?p"
    by (simp add: plan_units_def Let_def collect x_def budget_of_def reserve_of_def)
  moreover have "plan_sound eligible requests transport t ?p"
    unfolding plan_sound_def
  proof (intro conjI ballI impI)
    show "distinct (map ur_id (sp_selected ?p))" "wire_total (sp_selected ?p) \<le> ?budget"
      using x(1) by (simp_all add: selection_ok_def)
    show "r \<in> set requests" "request_ok (sc_limits t) eligible r"
      "\<exists>d \<in> set ?due. du_request d = r \<and> \<not> du_infeasible d" if "r \<in> set (sp_selected ?p)" for r
      using that x(1) member req by (auto simp: selection_ok_def)
    show "du_request d \<in> set (sp_selected ?p) \<or> ?budget - wire_total (sp_selected ?p) < ur_wire_bytes (du_request d)"
      if "d \<in> set ?due" "\<not> du_infeasible d" for d
      using that x(1,3) chosen[OF due_units_member] by (auto simp: selection_ok_def)
    show "du_request d \<in> set (sp_selected ?p)" if "d \<in> set ?due"
      "\<not> du_infeasible d \<and> ca_critical (ur_cadence (du_request d)) \<and> 0 < ?reserve \<and> ur_wire_bytes (du_request d) \<le> ?budget
       \<and> (\<forall>d' \<in> set ?due. \<not> du_infeasible d' \<and> ca_critical (ur_cadence (du_request d'))
            \<and> ur_wire_bytes (du_request d') \<le> ?budget \<longrightarrow> due_key d \<le> due_key d')" for d
      using critical that by simp
  qed
  ultimately show ?thesis
    by simp
qed

end
