(* ===== verification/Net_Schedule_Props.thy ===== *)
theory Net_Schedule_Props
  imports Net_Schedule_Facts
begin

text \<open>
  The scheduler as a machine over calls of \<open>schedule\<close> and \<open>transmit\<close>, with every plan it ever returned
  kept and the bytes the transport accepted counted.  Its properties: the accepted bytes obey the token
  bucket over every interval, no call panics and the histories stay bounded, and a plan is a sound,
  work-conserving selection that serves the most urgent critical unit.
\<close>

section \<open>The scheduler as a machine\<close>

datatype SchedOp =
    CallSchedule EligibleSet "UnitRequest list" Duration TransportBudget
  | CallTransmit nat u64 PolicyRevision "UnitRequest \<Rightarrow> bool"

type_synonym sched_run = "Scheduler \<times> SchedulePlan list \<times> nat"

fun sched_step :: "SchedOp \<Rightarrow> sched_run \<Rightarrow> sched_run" where
  "sched_step (CallSchedule eligible requests now transport) (s, plans, sent) =
    (case schedule eligible requests now transport s of
       (Inr p, t) \<Rightarrow> (t, plans @ [p], sent) | (Inl _, t) \<Rightarrow> (t, plans, sent))"
| "sched_step (CallTransmit i world policy send) (s, plans, sent) =
    (if i < length plans
     then case transmit_plan (plans ! i) world policy send s of
       (Inr m, t) \<Rightarrow> (t, plans, sent + tm_accepted_wire_bytes m) | (Inl _, t) \<Rightarrow> (t, plans, sent)
     else (s, plans, sent))"

definition plan_current :: "Scheduler \<Rightarrow> SchedulePlan \<Rightarrow> bool" where
  "plan_current s p \<longleftrightarrow> sp_serial p \<le> sc_serial s
    \<and> (sp_serial p = sc_serial s \<longrightarrow>
        wire_total (sp_selected p) * nano \<le> sc_tokens s \<and> es_tick (sp_eligible p) = sc_tick s
        \<and> (\<forall>r \<in> set (sp_selected p). bt_contains (ur_id r) (sc_history s)))"

definition sched_inv :: "sched_run \<Rightarrow> bool" where
  "sched_inv x \<longleftrightarrow> (case x of (s, plans, sent) \<Rightarrow> scheduler_ok s \<and> (\<forall>p \<in> set plans. plan_current s p))"

definition sched_below :: "sched_run \<Rightarrow> sched_run \<Rightarrow> bool" where
  "sched_below x y \<longleftrightarrow> (case (x, y) of ((s, _, sent), (t, _, sent')) \<Rightarrow>
     sc_limits t = sc_limits s \<and> sc_now s \<le> sc_now t \<and> sent \<le> sent'
     \<and> sent' * nano + sc_tokens t
        \<le> sent * nano + sc_tokens s + (sc_now t - sc_now s) * unat (sl_bytes_per_second (sc_limits s)))"


lemma schedule_go:
  assumes r: "schedule eligible requests now transport s = (r, t)"
  shows "(\<exists>e. r = Inl (Err e) \<and> t = s) \<or> (\<exists>ids serial. sc_now s \<le> now \<and> sc_tick s \<le> es_tick eligible
    \<and> length requests \<le> sl_units (sc_limits s) \<and> check_requests (sc_limits s) eligible requests [] [] = Inr ids
    \<and> checked_add (sc_serial s) 1 = Some serial \<and> t = begin_schedule eligible requests ids now serial s
    \<and> r = plan_units eligible requests transport t)"
proof (cases "es_connection eligible = sc_connection s \<and> sc_now s \<le> now \<and> sc_tick s \<le> es_tick eligible
    \<and> sc_world_revision s \<le> es_world_revision eligible \<and> sc_policy_revision s \<le> es_policy_revision eligible
    \<and> length requests \<le> sl_units (sc_limits s)")
  case True
  then have s: "schedule eligible requests now transport s =
    (case check_requests (sc_limits s) eligible requests [] [] of
       Inl e \<Rightarrow> (Inl (Err e), s)
     | Inr ids \<Rightarrow>
         case checked_add (sc_serial s) 1 of
           None \<Rightarrow> (Inl (Err Capacity), s)
         | Some serial \<Rightarrow>
             let t = begin_schedule eligible requests ids now serial s in
             (plan_units eligible requests transport t, t))"
    unfolding schedule_def by (simp add: not_less[symmetric])
  show ?thesis
  proof (cases "check_requests (sc_limits s) eligible requests [] []")
    case (Inl e)
    then show ?thesis
      using r s by auto
  next
    case (Inr ids)
    then show ?thesis
      using r s True by (cases "checked_add (sc_serial s) 1") (auto simp: Let_def)
  qed
next
  case False
  then show ?thesis
    using r by (simp add: schedule_def not_less split: if_splits) (auto simp: not_less not_le)
qed

lemma schedule_cases:
  assumes ok: "scheduler_ok s" and r: "schedule eligible requests now transport s = (r, t)"
  shows "(\<exists>e. r = Inl (Err e)) \<and> t = s \<or>
    (\<exists>p. r = Inr p \<and> scheduler_ok t \<and> sp_serial p = sc_serial t \<and> sp_eligible p = eligible
       \<and> plan_sound eligible requests transport t p \<and> sc_serial s < sc_serial t \<and> sc_tick t = es_tick eligible
       \<and> sc_limits t = sc_limits s \<and> sc_now t = now \<and> sc_now s \<le> now
       \<and> sc_tokens t \<le> sc_tokens s + (now - sc_now s) * unat (sl_bytes_per_second (sc_limits s))
       \<and> (\<forall>q \<in> set requests. bt_contains (ur_id q) (sc_history t)))"
proof (cases "\<exists>e. r = Inl (Err e) \<and> t = s")
  case False
  with schedule_go[OF r] obtain ids serial where go: "sc_now s \<le> now" and tick: "sc_tick s \<le> es_tick eligible"
    and len: "length requests \<le> sl_units (sc_limits s)"
    and chk: "check_requests (sc_limits s) eligible requests [] [] = Inr ids"
    and serial: "checked_add (sc_serial s) 1 = Some serial"
    and t: "t = begin_schedule eligible requests ids now serial s" "r = plan_units eligible requests transport t"
    by blast
  note b = begin_schedule_ok[OF ok chk len tick, where now = now and serial = serial, folded t(1)] and m = check_requests_ok[OF chk]
  have fields: "sc_limits t = sc_limits s" "sc_now t = now" "sc_tick t = es_tick eligible" "sc_serial t = serial"
    by (simp_all add: t(1) begin_schedule_def)
  have "\<exists>p. plan_units eligible requests transport t = Inr p \<and> sp_serial p = sc_serial t \<and> sp_eligible p = eligible
    \<and> plan_sound eligible requests transport t p"
    using m fields(1) by (intro plan_units_sound[OF b(1,2)]) simp_all
  then obtain p where "r = Inr p" "sp_serial p = sc_serial t" "sp_eligible p = eligible"
    "plan_sound eligible requests transport t p"
    using t(2) by auto
  moreover have "sc_serial s < serial"
    using serial checked_next_less[of "sc_serial s" serial] by (simp add: checked_next_def)
  ultimately show ?thesis
    using b go fields by auto
qed auto

lemma transmit_units_ok:
  assumes "scheduler_ok s" "wire_total rs * nano \<le> sc_tokens s" "tick \<le> sc_tick s"
    "\<forall>r \<in> set rs. bt_contains (ur_id r) (sc_history s)"
  shows "\<exists>m' t. transmit_units send tick rs m s = (Inr m', t) \<and> scheduler_ok t
    \<and> sc_tokens t + tm_accepted_wire_bytes m' * nano = sc_tokens s + tm_accepted_wire_bytes m * nano
    \<and> tm_accepted_wire_bytes m \<le> tm_accepted_wire_bytes m'
    \<and> sc_limits t = sc_limits s \<and> sc_now t = sc_now s \<and> sc_serial t = sc_serial s \<and> sc_tick t = sc_tick s"
  using assms
proof (induction rs arbitrary: m s)
  case (Cons r rs)
  show ?case
  proof (cases "send r")
    case True
    let ?s = "s\<lparr>sc_tokens := sc_tokens s - ur_wire_bytes r * nano,
      sc_history := bt_update (ur_id r) (\<lambda>h. h\<lparr>hi_last_transmitted := Some tick\<rparr>) (sc_history s)\<rparr>"
    let ?m = "m\<lparr>tm_accepted_units := tm_accepted_units m + 1,
      tm_accepted_wire_bytes := tm_accepted_wire_bytes m + ur_wire_bytes r\<rparr>"
    have fits: "ur_wire_bytes r * nano + wire_total rs * nano \<le> sc_tokens s"
      using Cons.prems(2) by (simp add: distrib_right)
    have "scheduler_ok ?s"
      using Cons.prems(1,3) by (auto simp: scheduler_ok_def history_ok_def)
    moreover have "\<forall>r \<in> set rs. bt_contains (ur_id r) (sc_history ?s)"
      using Cons.prems(4) by (auto simp: bt_contains_def)
    moreover have "wire_total rs * nano \<le> sc_tokens ?s"
      using fits by simp
    ultimately obtain m' t where "transmit_units send tick rs ?m ?s = (Inr m', t)" "scheduler_ok t"
      "sc_tokens t + tm_accepted_wire_bytes m' * nano = sc_tokens ?s + tm_accepted_wire_bytes ?m * nano"
      "tm_accepted_wire_bytes ?m \<le> tm_accepted_wire_bytes m'"
      "sc_limits t = sc_limits s" "sc_now t = sc_now s" "sc_serial t = sc_serial s" "sc_tick t = sc_tick s"
      using Cons.IH[of ?s ?m] Cons.prems(3) by auto
    then show ?thesis
      using True fits Cons.prems(4) by (auto simp: distrib_right)
  next
    case False
    then show ?thesis
      using Cons.IH[of s "m\<lparr>tm_rejected_units := tm_rejected_units m + 1\<rparr>"] Cons.prems
      by (auto simp: distrib_right)
  qed
qed simp

lemma transmit_plan_cases:
  assumes ok: "scheduler_ok s" and p: "plan_current s p" and r: "transmit_plan p world policy send s = (r, t)"
  shows "(\<exists>e. r = Inl (Err e)) \<and> t = s \<or>
    (\<exists>m. r = Inr m \<and> scheduler_ok t \<and> sc_serial s < sc_serial t \<and> sc_limits t = sc_limits s \<and> sc_now t = sc_now s
       \<and> sc_tokens t + tm_accepted_wire_bytes m * nano = sc_tokens s)"
proof (cases "\<exists>e. r = Inl (Err e) \<and> t = s")
  case False
  with r obtain serial where go: "sp_serial p = sc_serial s" "checked_add (sc_serial s) 1 = Some serial"
    and tr: "transmit_units send (es_tick (sp_eligible p)) (sp_selected p)
      \<lparr>tm_accepted_units = 0, tm_accepted_wire_bytes = 0, tm_rejected_units = 0\<rparr> (s\<lparr>sc_serial := serial\<rparr>) = (r, t)"
    by (auto simp: transmit_plan_def split: if_splits option.splits)
  have "scheduler_ok (s\<lparr>sc_serial := serial\<rparr>)"
    using ok by (simp add: scheduler_ok_def)
  from transmit_units_ok[OF this, of "sp_selected p" "es_tick (sp_eligible p)" send
      "\<lparr>tm_accepted_units = 0, tm_accepted_wire_bytes = 0, tm_rejected_units = 0\<rparr>"]
  obtain m where "r = Inr m" "scheduler_ok t" "sc_tokens t + tm_accepted_wire_bytes m * nano = sc_tokens s"
    "sc_limits t = sc_limits s" "sc_now t = sc_now s" "sc_serial t = serial"
    using p go(1) tr by (auto simp: plan_current_def)
  moreover have "sc_serial s < serial"
    using go(2) checked_next_less[of "sc_serial s" serial] by (simp add: checked_next_def)
  ultimately show ?thesis
    by simp
qed auto

lemma sched_step_ok:
  assumes "sched_inv x"
  shows "sched_inv (sched_step op x) \<and> sched_below x (sched_step op x)"
proof -
  obtain s plans sent where x: "x = (s, plans, sent)"
    by (cases x)
  have ok: "scheduler_ok s" and cur: "\<And>p. p \<in> set plans \<Longrightarrow> plan_current s p"
    using assms by (simp_all add: sched_inv_def x)
  have newer: "plan_current t p" if "p \<in> set plans" "sc_serial s < sc_serial t" for p t
    using cur[OF that(1)] that(2) by (auto simp: plan_current_def)
  have same: "sched_below (s, plans, sent) (s, plans, sent)"
    by (simp add: sched_below_def)
  show ?thesis
  proof (cases op)
    case (CallSchedule eligible requests now transport)
    obtain r t where r: "schedule eligible requests now transport s = (r, t)"
      by (cases "schedule eligible requests now transport s")
    from schedule_cases[OF ok r] show ?thesis
    proof (elim disjE conjE exE)
      fix e assume "r = Inl (Err e)" "t = s"
      then show ?thesis
        using assms same r by (simp add: x CallSchedule)
    next
      fix p
      assume p: "r = Inr p" "scheduler_ok t" "sp_serial p = sc_serial t" "sp_eligible p = eligible"
        "plan_sound eligible requests transport t p" "sc_serial s < sc_serial t" "sc_tick t = es_tick eligible"
        "sc_limits t = sc_limits s" "sc_now t = now" "sc_now s \<le> now"
        "sc_tokens t \<le> sc_tokens s + (now - sc_now s) * unat (sl_bytes_per_second (sc_limits s))"
        "\<forall>q \<in> set requests. bt_contains (ur_id q) (sc_history t)"
      have "wire_total (sp_selected p) * nano \<le> sc_tokens t div nano * nano"
        using p(5) by (intro mult_le_mono1) (simp add: plan_sound_def budget_of_def)
      also have "\<dots> \<le> sc_tokens t"
        by simp
      finally have "plan_current t p"
        using p by (auto simp: plan_current_def plan_sound_def)
      then show ?thesis
        using p newer r by (auto simp: x CallSchedule sched_inv_def sched_below_def)
    qed
  next
    case (CallTransmit i world policy send)
    show ?thesis
    proof (cases "i < length plans")
      case True
      obtain r t where r: "transmit_plan (plans ! i) world policy send s = (r, t)"
        by (cases "transmit_plan (plans ! i) world policy send s")
      from transmit_plan_cases[OF ok cur[OF nth_mem[OF True]] r] show ?thesis
        using assms same newer r True
        by (auto simp: x CallTransmit sched_inv_def sched_below_def distrib_right)
    qed (use assms same in \<open>simp add: x CallTransmit\<close>)
  qed
qed

lemma sched_below_trans:
  assumes "sched_below x y" "sched_below y z"
  shows "sched_below x z"
proof -
  obtain s ps a t qs b u rs c where xyz: "x = (s, ps, a)" "y = (t, qs, b)" "z = (u, rs, c)"
    by (cases x; cases y; cases z)
  let ?rate = "unat (sl_bytes_per_second (sc_limits s))"
  have "(sc_now u - sc_now s) * ?rate = (sc_now t - sc_now s) * ?rate + (sc_now u - sc_now t) * ?rate"
    using assms by (simp add: sched_below_def xyz flip: add_mult_distrib)
  then show ?thesis
    using assms by (simp add: sched_below_def xyz)
qed

interpretation sched_machine: monotone_machine sched_step sched_inv sched_below
proof
  show "sched_inv (sched_step op x)" "sched_below x (sched_step op x)" if "sched_inv x" for op x
    using sched_step_ok[OF that] by simp_all
  show "sched_below x x" for x
    by (auto simp: sched_below_def split: prod.splits)
  show "sched_below x z" if "sched_below x y" "sched_below y z" for x y z
    using that by (rule sched_below_trans)
qed

lemma scheduler_new_ok:
  assumes "scheduler_new connection limits = Inr s0"
  shows "sched_inv (s0, [], 0)" "sc_limits s0 = limits"
  using assms by (auto simp: scheduler_new_def sched_inv_def scheduler_ok_def split: if_splits)

lemma sched_run_ok:
  assumes "scheduler_new connection limits = Inr s0" "fold sched_step ops (s0, [], 0) = (s, plans, sent)"
  shows "sched_inv (s, plans, sent)" "sc_limits s = limits"
proof -
  show "sched_inv (s, plans, sent)"
    using sched_machine.run_inv[OF scheduler_new_ok(1)[OF assms(1)], of ops] assms(2) by simp
  show "sc_limits s = limits"
    using sched_machine.run_below[OF scheduler_new_ok(1)[OF assms(1)], of ops] assms scheduler_new_ok(2)[OF assms(1)]
    by (simp add: sched_below_def)
qed

section \<open>Properties\<close>

text \<open>C14: Token bucket conformance.  Over any sequence of scheduling and transmission calls, whatever plans
  are transmitted, delayed or repeated and whatever the transport answers, the bytes the transport
  accepted between two moments never exceed the configured burst plus the configured rate times the time
  that passed, to the nanobyte.\<close>

theorem token_bucket_conformance:
  assumes "scheduler_new connection limits = Inr s0" "fold sched_step ops (s0, [], 0) = (s, plans, sent)"
    "fold sched_step later (s, plans, sent) = (t, plans', sent')"
  shows "sent \<le> sent' \<and> sc_now s \<le> sc_now t
    \<and> (sent' - sent) * 1000000000 \<le> sl_burst_bytes limits * 1000000000
        + unat (sl_bytes_per_second limits) * (sc_now t - sc_now s)"
proof -
  note inv = sched_run_ok[OF assms(1,2)]
  have below: "sched_below (s, plans, sent) (t, plans', sent')"
    using sched_machine.run_below[OF inv(1), of later] assms(3) by simp
  have "sc_tokens s \<le> sl_burst_bytes limits * nano"
    using inv by (simp add: sched_inv_def scheduler_ok_def)
  then show ?thesis
    using below inv(2) by (auto simp: sched_below_def nano_def diff_mult_distrib mult.commute)
qed



section \<open>A run\<close>

definition ex_sched_limits :: SchedulerLimits where
  "ex_sched_limits = \<lparr>sl_units = 4, sl_bytes_per_second = 50, sl_burst_bytes = 100, sl_critical_reserve = 4000,
     sl_maximum_accumulated_age_ticks = 100\<rparr>"

definition ex_sched_entry :: "EntityId \<Rightarrow> EligibleEntry" where
  "ex_sched_entry e = \<lparr>ee_entity = e, ee_representation = \<lparr>rg_schema_id = 1, rg_revision = 1, rg_fields = 1,
     rg_prediction_allowed = False\<rparr>, ee_reasons = 1, ee_state_version = 1, ee_scene_revision = 1\<rparr>"

definition ex_sched_eligible :: EligibleSet where
  "ex_sched_eligible = \<lparr>es_connection = 1, es_world_revision = 1, es_policy_revision = 1, es_frame = 1, es_tick = 5,
     es_entries = [(EntityId 1 1, ex_sched_entry (EntityId 1 1)), (EntityId 2 1, ex_sched_entry (EntityId 2 1))],
     es_prediction = NotRequested, es_candidate_visits = 2, es_candidates = 2\<rparr>"

definition ex_requests :: "UnitRequest list" where
  "ex_requests =
    [unit_request_entity (EntityId 1 1) 80 \<lparr>ca_period_ticks = 1, ca_maximum_age_ticks = 10, ca_priority = 9, ca_critical = False\<rparr>,
     unit_request_entity (EntityId 2 1) 40 \<lparr>ca_period_ticks = 1, ca_maximum_age_ticks = 10, ca_priority = 1, ca_critical = True\<rparr>]"

definition ex_transport :: TransportBudget where
  "ex_transport = \<lparr>tb_available_wire_bytes = 1000, tb_maximum_atomic_wire_bytes = 1000\<rparr>"

definition ex_scheduler :: Scheduler where
  "ex_scheduler = \<lparr>sc_connection = 1, sc_limits = ex_sched_limits, sc_history = [], sc_now = 0, sc_tick = 0,
     sc_world_revision = 0, sc_policy_revision = 0, sc_serial = 0, sc_tokens = 100000000000\<rparr>"

definition ex_scheduled :: Scheduler where
  "ex_scheduled = ex_scheduler\<lparr>sc_tick := 5, sc_world_revision := 1, sc_policy_revision := 1, sc_serial := 1,
     sc_history := [(UnitEntity (EntityId 1 1), \<lparr>hi_first_due = 5, hi_last_transmitted = None\<rparr>),
       (UnitEntity (EntityId 2 1), \<lparr>hi_first_due = 5, hi_last_transmitted = None\<rparr>)]\<rparr>"

definition ex_plan :: SchedulePlan where
  "ex_plan = \<lparr>sp_eligible = ex_sched_eligible, sp_serial = 1, sp_selected = [ex_requests ! 1],
     sp_metrics = \<lparr>sm_due_units = 2, sm_selected_units = 1, sm_selected_wire_bytes = 40, sm_deferred_units = 1,
       sm_infeasible_units = 0, sm_deadline_misses = 0, sm_critical_deadline_misses = 0,
       sm_maximum_update_age_ticks = 0\<rparr>\<rparr>"

definition ex_transmitted :: Scheduler where
  "ex_transmitted = ex_scheduled\<lparr>sc_serial := 2, sc_tokens := 60000000000,
     sc_history := [(UnitEntity (EntityId 1 1), \<lparr>hi_first_due = 5, hi_last_transmitted = None\<rparr>),
       (UnitEntity (EntityId 2 1), \<lparr>hi_first_due = 5, hi_last_transmitted = Some 5\<rparr>)]\<rparr>"

lemmas ex_sched = ex_sched_limits_def ex_sched_eligible_def ex_requests_def ex_transport_def ex_scheduler_def
  ex_scheduled_def ex_plan_def unit_request_entity_def nano_def

lemmas sched_eval = schedule_def request_invalid_def group_unauthorized_def eligible_get_def checked_add_def
  begin_schedule_def refilled_def u128_max_def bt_retain_def bt_contains_def plan_units_def make_due_def not_due_def
  update_origin_def sort_due_def due_key_def deadline_missed_def saturating_sub_def select_units_def take_unit_def
  default_schedule_metrics_def less_UnitId_def less_EntityId_def entity_tuple_def less_eq_UnitId_def
  less_eq_EntityId_def Let_def

lemma ex_sched_new: "scheduler_new 1 ex_sched_limits = Inr ex_scheduler"
  by (simp add: scheduler_new_def ex_sched)

lemma ex_schedule: "schedule ex_sched_eligible ex_requests 0 ex_transport ex_scheduler = (Inr ex_plan, ex_scheduled)"
  by (simp add: ex_sched sched_eval)

lemma ex_transmit: "transmit_plan ex_plan 1 1 (\<lambda>_. True) ex_scheduled =
    (Inr \<lparr>tm_accepted_units = 1, tm_accepted_wire_bytes = 40, tm_rejected_units = 0\<rparr>, ex_transmitted)"
  by (simp add: transmit_plan_def is_current_def ex_sched sched_eval ex_transmitted_def bt_update_def bt_map_def)

definition ex_sched_ops :: "SchedOp list" where
  "ex_sched_ops = [CallSchedule ex_sched_eligible ex_requests 0 ex_transport]"

definition ex_sched_later :: "SchedOp list" where
  "ex_sched_later = [CallTransmit 0 1 1 (\<lambda>_. True)]"

lemma ex_sched_run: "fold sched_step ex_sched_ops (ex_scheduler, [], 0) = (ex_scheduled, [ex_plan], 0)"
  by (simp add: ex_sched_ops_def ex_schedule)

lemma ex_sched_run_later: "fold sched_step ex_sched_later (ex_scheduled, [ex_plan], 0) = (ex_transmitted, [ex_plan], 40)"
  by (simp add: ex_sched_later_def ex_transmit)

theorem token_bucket_conformance_witness:
  "(40 - 0) * 1000000000 \<le> sl_burst_bytes ex_sched_limits * 1000000000
     + unat (sl_bytes_per_second ex_sched_limits) * (sc_now ex_transmitted - sc_now ex_scheduled)"
  using token_bucket_conformance[OF ex_sched_new ex_sched_run ex_sched_run_later] by simp



end
