(* ===== verification/Net_Groups.thy ===== *)
theory Net_Groups
  imports Net_Client_Scopes
begin

text \<open>
  Atomic groups: \<open>engine/net/src/replication/groups.rs\<close>.  A group snapshot arrives in chunks that are
  staged until all of them are there and are then published through \<open>ClientScopes\<close> in one step.

  Vectors that are charged by capacity carry it in a field of its own, and the sizes of a state and of a
  scope identity are the parameter \<open>GroupMemory\<close>.  The subtractions of staged bytes and of start times
  are on naturals and words; the invariant of \<open>Net_Group_Facts\<close> shows that they never go below zero.
\<close>

section \<open>Data\<close>

record GroupPublication =
  gp_connection :: ConnectionEpoch
  gp_group :: GroupId
  gp_revision :: GroupRevision
  gp_snapshot :: SnapshotId

record 'p GroupChunk =
  gc_publication :: GroupPublication
  gc_end_tick :: ServerTick
  gc_manifest :: "ScopeIdentity list"
  gc_manifest_capacity :: usize
  gc_index :: usize
  gc_count :: usize
  gc_members :: "'p FullState list"
  gc_members_capacity :: usize

record GroupLimits =
  gl_members :: usize
  gl_chunks :: usize
  gl_incomplete :: usize
  gl_known_groups :: usize
  gl_staging_bytes :: usize
  gl_group_bytes :: usize
  gl_max_age_ms :: u64

definition default_group_limits :: GroupLimits where
  "default_group_limits = \<lparr>gl_members = 32, gl_chunks = 16, gl_incomplete = 8, gl_known_groups = 8,
     gl_staging_bytes = 128 * 1024, gl_group_bytes = 16384, gl_max_age_ms = 2000\<rparr>"

datatype GroupProgress = Staged | Published "StateReceipt list"

record 'p Assembly =
  as_end_tick :: ServerTick
  as_manifest :: "ScopeIdentity list"
  as_chunks :: "'p FullState list option list"
  as_started_ms :: u64
  as_bytes :: usize

record GroupFence =
  gf_publication :: GroupPublication
  gf_end_tick :: ServerTick
  gf_manifest :: "ScopeIdentity list"
  gf_receipts :: "StateReceipt list option"

record 'p GroupAssembler =
  ga_connection :: ConnectionEpoch
  ga_limits :: GroupLimits
  ga_assemblies :: "(GroupId, 'p Assembly) bt"
  ga_fences :: "(GroupId, GroupFence) bt"
  ga_bytes :: usize
  ga_now_ms :: u64

record GroupMemory =
  gm_full_state :: usize
  gm_scope :: usize

section \<open>Construction, expiry and reset\<close>

definition group_assembler_new :: "ConnectionEpoch \<Rightarrow> GroupLimits \<Rightarrow> ReplicationError + 'p GroupAssembler" where
  "group_assembler_new connection limits =
    (if connection = 0 \<or> gl_members limits = 0 \<or> gl_chunks limits = 0 \<or> gl_incomplete limits = 0
        \<or> gl_known_groups limits < gl_incomplete limits \<or> gl_group_bytes limits = 0
        \<or> gl_staging_bytes limits < gl_group_bytes limits \<or> gl_max_age_ms limits = 0
     then Inl InvalidConfiguration
     else Inr \<lparr>ga_connection = connection, ga_limits = limits, ga_assemblies = [], ga_fences = [],
               ga_bytes = 0, ga_now_ms = 0\<rparr>)"

definition group_publication :: "GroupId \<Rightarrow> 'p GroupAssembler \<Rightarrow> GroupPublication option" where
  "group_publication g s = map_option gf_publication (map_of (ga_fences s) g)"

definition group_manifest :: "GroupId \<Rightarrow> 'p GroupAssembler \<Rightarrow> ScopeIdentity list option" where
  "group_manifest g s = map_option gf_manifest (map_of (ga_fences s) g)"

definition fresh_assembly :: "u64 \<Rightarrow> GroupLimits \<Rightarrow> 'p Assembly \<Rightarrow> bool" where
  "fresh_assembly now limits a \<longleftrightarrow> now - as_started_ms a < gl_max_age_ms limits"

definition group_expire :: "u64 \<Rightarrow> 'p GroupAssembler \<Rightarrow> (ReplicationError + usize) \<times> 'p GroupAssembler" where
  "group_expire now s =
    (if now < ga_now_ms s then (Inl Stale, s)
     else
       let kept = bt_retain (\<lambda>_ a. fresh_assembly now (ga_limits s) a) (ga_assemblies s);
           dropped = bt_retain (\<lambda>_ a. \<not> fresh_assembly now (ga_limits s) a) (ga_assemblies s) in
       (Inr (length (ga_assemblies s) - length kept),
        s\<lparr>ga_now_ms := now, ga_assemblies := kept,
          ga_bytes := ga_bytes s - bt_sum (\<lambda>_ a. as_bytes a) dropped\<rparr>))"

definition group_reset :: "ConnectionEpoch \<Rightarrow> 'p GroupAssembler \<Rightarrow> (ReplicationError + unit) \<times> 'p GroupAssembler" where
  "group_reset connection s =
    (if connection \<le> ga_connection s then (Inl Stale, s)
     else (Inr (), s\<lparr>ga_connection := connection, ga_assemblies := [], ga_fences := [], ga_bytes := 0, ga_now_ms := 0\<rparr>))"

section \<open>Receiving a chunk\<close>

definition chunk_invalid :: "GroupLimits \<Rightarrow> 'p GroupChunk \<Rightarrow> bool" where
  "chunk_invalid limits chunk \<longleftrightarrow>
    gp_revision (gc_publication chunk) = 0 \<or> gp_snapshot (gc_publication chunk) = 0
    \<or> gc_manifest chunk = [] \<or> length (gc_manifest chunk) > gl_members limits
    \<or> gc_count chunk = 0 \<or> gc_count chunk > gl_chunks limits \<or> gc_count chunk > length (gc_manifest chunk)
    \<or> gc_index chunk \<ge> gc_count chunk
    \<or> gc_members chunk = [] \<or> length (gc_members chunk) > length (gc_manifest chunk)"

fun check_manifest ::
  "ConnectionEpoch \<Rightarrow> ScopeIdentity option \<Rightarrow> u64 list \<Rightarrow> ScopeIdentity list \<Rightarrow> ReplicationError + unit" where
  "check_manifest connection previous indices [] = Inr ()"
| "check_manifest connection previous indices (scope # scopes) =
    and_then (validate_scope scope connection) (\<lambda>_.
     if scope_index scope \<in> set indices
        \<or> (case previous of None \<Rightarrow> False | Some p \<Rightarrow> p \<ge> scope) then Inl Conflict
     else check_manifest connection (Some scope) (bs_insert (scope_index scope) indices) scopes)"

fun check_states ::
  "'p Payload \<Rightarrow> ('p \<Rightarrow> bool) \<Rightarrow> ConnectionEpoch \<Rightarrow> 'p GroupChunk \<Rightarrow> 'p FullState list \<Rightarrow> ScopeIdentity list \<Rightarrow> usize \<Rightarrow>
   ReplicationError + usize" where
  "check_states pl valid connection chunk [] ids n = Inr n"
| "check_states pl valid connection chunk (st # sts) ids n =
    and_then (validate_identity connection st) (\<lambda>_.
     if fs_end_tick st \<noteq> gc_end_tick chunk \<or> fs_scope st \<notin> set (gc_manifest chunk) \<or> fs_scope st \<in> set ids
       then Inl Conflict
     else if \<not> valid (fs_payload st) then Inl InvalidPayload
     else and_then (ok_or Capacity (usize_checked_add n (pl_retained_bytes pl (fs_payload st)))) (\<lambda>m.
       check_states pl valid connection chunk sts (bs_insert (fs_scope st) ids) m))"

datatype GroupRoute = RepeatAck "StateReceipt list" | StageChunk bool u64

definition publication_conflict :: "'p GroupChunk \<Rightarrow> GroupFence \<Rightarrow> bool" where
  "publication_conflict chunk fence \<longleftrightarrow>
    (let key = gc_publication chunk; old = gf_publication fence in
     gp_revision key = gp_revision old
     \<and> (gc_manifest chunk \<noteq> gf_manifest fence
        \<or> (gp_snapshot key = gp_snapshot old \<and> gc_end_tick chunk \<noteq> gf_end_tick fence)
        \<or> (gp_snapshot key < gp_snapshot old \<and> gc_end_tick chunk > gf_end_tick fence)
        \<or> (gp_snapshot key > gp_snapshot old \<and> gc_end_tick chunk < gf_end_tick fence)))"

definition repeat_ack ::
  "'p Payload \<Rightarrow> 'p GroupChunk \<Rightarrow> 'p ClientScopes \<Rightarrow> StateReceipt list \<Rightarrow> ReplicationError + GroupRoute" where
  "repeat_ack pl chunk client receipts =
    (if \<not> list_all (\<lambda>r. case published_state (si_entity (rc_scope r)) client of
            None \<Rightarrow> False | Some st \<Rightarrow> full_receipt st = r) receipts then Inl Stale
     else if \<not> list_all (\<lambda>st. case published_state (si_entity (fs_scope st)) client of
            None \<Rightarrow> False | Some x \<Rightarrow> full_state_eq pl x st) (gc_members chunk) then Inl Conflict
     else Inr (RepeatAck receipts))"

definition route_chunk ::
  "'p Payload \<Rightarrow> 'p GroupChunk \<Rightarrow> u64 \<Rightarrow> 'p ClientScopes \<Rightarrow> 'p GroupAssembler \<Rightarrow> ReplicationError + GroupRoute" where
  "route_chunk pl chunk now client s =
    (let key = gc_publication chunk; open = bt_contains (gp_group key) (ga_assemblies s) in
     case map_of (ga_fences s) (gp_group key) of
       None \<Rightarrow> if length (ga_fences s) \<ge> gl_known_groups (ga_limits s) then Inl ResetRequired
               else Inr (StageChunk False now)
     | Some fence \<Rightarrow>
         let old = gf_publication fence in
         if publication_conflict chunk fence then Inl Conflict
         else if gp_revision key < gp_revision old
                 \<or> (gp_revision key = gp_revision old \<and> gp_snapshot key < gp_snapshot old)
           then Inl (Obsolete Publication)
         else if gf_receipts fence = None \<and> \<not> open then Inl Expired
         else if key = old then
           (case gf_receipts fence of
              Some receipts \<Rightarrow> repeat_ack pl chunk client receipts
            | None \<Rightarrow> if \<not> open then Inl Expired else Inr (StageChunk False now))
         else Inr (StageChunk True (case map_of (ga_assemblies s) (gp_group key) of
                Some a \<Rightarrow> as_started_ms a | None \<Rightarrow> now)))"

definition staged_states :: "'p Assembly \<Rightarrow> 'p FullState list" where
  "staged_states a = concat (List.map_filter (\<lambda>c. c) (as_chunks a))"

text \<open>
  What an assembly already under way says to the chunk: nothing to add (\<open>Some\<close> result) or go on
  (\<open>None\<close>).
\<close>

definition check_existing :: "'p Payload \<Rightarrow> 'p GroupChunk \<Rightarrow> 'p Assembly \<Rightarrow> (ReplicationError + GroupProgress) option" where
  "check_existing pl chunk a =
    (if as_end_tick a \<noteq> gc_end_tick chunk \<or> length (as_chunks a) \<noteq> gc_count chunk
        \<or> as_manifest a \<noteq> gc_manifest chunk then Some (Inl Conflict)
     else case as_chunks a ! gc_index chunk of
       Some previous \<Rightarrow>
         Some (if list_all2 (full_state_eq pl) previous (gc_members chunk) then Inr Staged else Inl Conflict)
     | None \<Rightarrow>
         if \<exists>st \<in> set (staged_states a). fs_scope st \<in> fs_scope ` set (gc_members chunk)
         then Some (Inl Conflict) else None)"

definition charge_chunk ::
  "GroupMemory \<Rightarrow> 'p GroupChunk \<Rightarrow> usize \<Rightarrow> 'p Assembly option \<Rightarrow> usize \<Rightarrow> 'p GroupAssembler \<Rightarrow>
   ReplicationError + usize \<times> usize" where
  "charge_chunk mem chunk member_bytes existing old_bytes s =
    and_then (case existing of
       None \<Rightarrow> ok_or Capacity (usize_checked_mul (gc_manifest_capacity chunk) (gm_scope mem))
     | Some _ \<Rightarrow> Inr 0) (\<lambda>manifest_bytes.
    and_then (ok_or Capacity (usize_checked_add member_bytes manifest_bytes)) (\<lambda>added.
    and_then (ok_or Capacity (usize_checked_add (case existing of None \<Rightarrow> 0 | Some a \<Rightarrow> as_bytes a) added)) (\<lambda>group_bytes.
    and_then (ok_or Capacity (Option.bind (usize_checked_sub (ga_bytes s) old_bytes) (\<lambda>n. usize_checked_add n added)))
      (\<lambda>bytes.
      if group_bytes > gl_group_bytes (ga_limits s) \<or> bytes > gl_staging_bytes (ga_limits s) then Inl Capacity
      else Inr (group_bytes, bytes)))))"

fun apply_states ::
  "'p Payload \<Rightarrow> ('p \<Rightarrow> bool) \<Rightarrow> 'p FullState list \<Rightarrow> 'p ClientScopes \<Rightarrow>
   (ReplicationError + StateReceipt list) \<times> 'p ClientScopes" where
  "apply_states pl valid [] client = (Inr [], client)"
| "apply_states pl valid (st # sts) client =
    (case apply_full pl valid st client of
       (Inl e, c) \<Rightarrow> (Inl e, c)
     | (Inr r, c) \<Rightarrow>
         (case apply_states pl valid sts c of
            (Inl e, d) \<Rightarrow> (Inl e, d)
          | (Inr rs, d) \<Rightarrow> (Inr (r # rs), d)))"

definition close_assembly :: "GroupId \<Rightarrow> 'p Assembly \<Rightarrow> 'p GroupAssembler \<Rightarrow> 'p GroupAssembler" where
  "close_assembly g a s = s\<lparr>ga_assemblies := bt_remove g (ga_assemblies s), ga_bytes := ga_bytes s - as_bytes a\<rparr>"

definition publish_assembly ::
  "'p Payload \<Rightarrow> ('p \<Rightarrow> bool) \<Rightarrow> GroupId \<Rightarrow> 'p Assembly \<Rightarrow> 'p GroupAssembler \<Rightarrow> 'p ClientScopes \<Rightarrow>
   (ReplicationError + GroupProgress) \<times> 'p GroupAssembler \<times> 'p ClientScopes" where
  "publish_assembly pl valid g a s client =
    (if None \<in> set (as_chunks a) then (Inr Staged, s, client)
     else if length (staged_states a) \<noteq> length (as_manifest a)
       then (Inl Incomplete, close_assembly g a s, client)
     else case apply_states pl valid (staged_states a) client of
       (Inl e, _) \<Rightarrow> (Inl e, close_assembly g a s, client)
     | (Inr receipts, staged_client) \<Rightarrow>
         (Inr (Published receipts),
          (close_assembly g a s)\<lparr>ga_fences := bt_update g (\<lambda>f. f\<lparr>gf_receipts := Some receipts\<rparr>) (ga_fences s)\<rparr>,
          staged_client))"

definition store_chunk ::
  "'p GroupChunk \<Rightarrow> 'p Assembly option \<Rightarrow> u64 \<Rightarrow> usize \<Rightarrow> usize \<Rightarrow> 'p GroupAssembler \<Rightarrow> 'p Assembly \<times> 'p GroupAssembler" where
  "store_chunk chunk existing started group_bytes bytes s =
    (let key = gc_publication chunk;
         a0 = (case existing of
                 Some a \<Rightarrow> a
               | None \<Rightarrow> \<lparr>as_end_tick = gc_end_tick chunk, as_manifest = gc_manifest chunk,
                           as_chunks = replicate (gc_count chunk) None, as_started_ms = started, as_bytes = 0\<rparr>);
         a = a0\<lparr>as_chunks := (as_chunks a0)[gc_index chunk := Some (gc_members chunk)], as_bytes := group_bytes\<rparr> in
     (a, s\<lparr>ga_assemblies := bt_insert (gp_group key) a (ga_assemblies s), ga_bytes := bytes,
           ga_fences := bt_insert (gp_group key)
             \<lparr>gf_publication = key, gf_end_tick = gc_end_tick chunk, gf_manifest = gc_manifest chunk,
              gf_receipts = None\<rparr> (ga_fences s)\<rparr>))"

definition stage_chunk ::
  "'p Payload \<Rightarrow> GroupMemory \<Rightarrow> ('p \<Rightarrow> bool) \<Rightarrow> 'p GroupChunk \<Rightarrow> usize \<Rightarrow> bool \<Rightarrow> u64 \<Rightarrow> 'p GroupAssembler \<Rightarrow> 'p ClientScopes \<Rightarrow>
   (ReplicationError + GroupProgress) \<times> 'p GroupAssembler \<times> 'p ClientScopes" where
  "stage_chunk pl mem valid chunk member_bytes replace started s client =
    (let g = gp_group (gc_publication chunk);
         held = map_of (ga_assemblies s) g;
         existing = (if replace then None else held);
         verdict = (case existing of
            Some a \<Rightarrow> check_existing pl chunk a
          | None \<Rightarrow> if held = None \<and> length (ga_assemblies s) \<ge> gl_incomplete (ga_limits s)
                    then Some (Inl Capacity) else None);
         old_bytes = (if replace then (case held of None \<Rightarrow> 0 | Some a \<Rightarrow> as_bytes a) else 0) in
     case verdict of
       Some r \<Rightarrow> (r, s, client)
     | None \<Rightarrow>
         (case charge_chunk mem chunk member_bytes existing old_bytes s of
            Inl e \<Rightarrow> (Inl e, s, client)
          | Inr (group_bytes, bytes) \<Rightarrow>
              let (a, t) = store_chunk chunk existing started group_bytes bytes s in
              publish_assembly pl valid g a t client))"

definition receive_chunk ::
  "'p Payload \<Rightarrow> GroupMemory \<Rightarrow> ('p \<Rightarrow> bool) \<Rightarrow> 'p GroupChunk \<Rightarrow> u64 \<Rightarrow> 'p GroupAssembler \<Rightarrow> 'p ClientScopes \<Rightarrow>
   (ReplicationError + GroupProgress) \<times> 'p GroupAssembler \<times> 'p ClientScopes" where
  "receive_chunk pl mem valid chunk now s0 client =
    (case group_expire now s0 of
       (Inl e, s) \<Rightarrow> (Inl e, s, client)
     | (Inr _, s) \<Rightarrow>
         if gp_connection (gc_publication chunk) \<noteq> ga_connection s \<or> cs_connection client \<noteq> ga_connection s
           then (Inl Stale, s, client)
         else if chunk_invalid (ga_limits s) chunk then (Inl InvalidIdentity, s, client)
         else case check_manifest (ga_connection s) None [] (gc_manifest chunk) of
           Inl e \<Rightarrow> (Inl e, s, client)
         | Inr _ \<Rightarrow>
         (case and_then (ok_or Capacity (usize_checked_mul (gc_members_capacity chunk) (gm_full_state mem)))
                 (check_states pl valid (ga_connection s) chunk (gc_members chunk) []) of
            Inl e \<Rightarrow> (Inl e, s, client)
          | Inr member_bytes \<Rightarrow>
          (case route_chunk pl chunk now client s of
             Inl e \<Rightarrow> (Inl e, s, client)
           | Inr (RepeatAck receipts) \<Rightarrow> (Inr (Published receipts), s, client)
           | Inr (StageChunk replace started) \<Rightarrow>
               stage_chunk pl mem valid chunk member_bytes replace started s client)))"

section \<open>Published groups\<close>

record 'p PublishedGroup =
  pg_publication :: GroupPublication
  pg_end_tick :: ServerTick
  pg_manifest :: "ScopeIdentity list"
  pg_client :: "'p ClientScopes"

definition member_retained :: "StateReceipt list \<Rightarrow> ServerTick \<Rightarrow> 'p ClientScopes \<Rightarrow> ScopeIdentity \<Rightarrow> bool" where
  "member_retained receipts end_tick client scope \<longleftrightarrow>
    (case published_state (si_entity scope) client of
       None \<Rightarrow> False
     | Some st \<Rightarrow> fs_scope st = scope \<and> fs_end_tick st = end_tick \<and> full_receipt st \<in> set receipts)"

definition published_group :: "GroupId \<Rightarrow> 'p ClientScopes \<Rightarrow> 'p GroupAssembler \<Rightarrow> 'p PublishedGroup option" where
  "published_group g client s =
    (if cs_connection client \<noteq> ga_connection s then None
     else Option.bind (map_of (ga_fences s) g) (\<lambda>fence.
       Option.bind (gf_receipts fence) (\<lambda>receipts.
       if gf_manifest fence = [] \<or> length receipts \<noteq> length (gf_manifest fence) then None
       else Option.bind (published_state (si_entity (hd (gf_manifest fence))) client) (\<lambda>first.
         if list_all (member_retained receipts (fs_end_tick first) client) (gf_manifest fence)
         then Some \<lparr>pg_publication = gf_publication fence, pg_end_tick = fs_end_tick first,
                    pg_manifest = gf_manifest fence, pg_client = client\<rparr>
         else None))))"

definition group_states :: "'p PublishedGroup \<Rightarrow> ReplicationError failure + 'p FullState list" where
  "group_states g =
    (if list_all (\<lambda>scope. published_state (si_entity scope) (pg_client g) \<noteq> None) (pg_manifest g)
     then Inr (map (\<lambda>scope. the (published_state (si_entity scope) (pg_client g))) (pg_manifest g))
     else Inl (Panic ''immutable fully retained group proof''))"

end
