(* ===== verification/Net_Group_Facts.thy ===== *)
theory Net_Group_Facts
  imports Net_Groups
begin

text \<open>
  The invariant of the group assembler and the steps of receiving a chunk: validated manifests,
  disjoint staged members, exact byte accounting, and publication through the client scopes.
\<close>

section \<open>Manifests and members\<close>

definition manifest_ok :: "ScopeIdentity list \<Rightarrow> bool" where
  "manifest_ok scopes \<longleftrightarrow> scopes \<noteq> [] \<and> distinct (map scope_index scopes)"

lemma check_manifest_distinct:
  "check_manifest connection previous indices scopes = Inr () \<Longrightarrow>
    distinct (map scope_index scopes) \<and> set indices \<inter> scope_index ` set scopes = {}"
proof (induction scopes arbitrary: previous indices)
  case (Cons scope scopes)
  then have "scope_index scope \<notin> set indices"
      "check_manifest connection (Some scope) (bs_insert (scope_index scope) indices) scopes = Inr ()"
    by (simp_all add: res_simps split: if_splits)
  with Cons.IH[OF this(2)] show ?case
    by auto
qed simp

definition states_fit :: "ScopeIdentity list \<Rightarrow> ServerTick \<Rightarrow> 'p FullState list \<Rightarrow> bool" where
  "states_fit manifest end_tick sts \<longleftrightarrow>
    distinct (map fs_scope sts) \<and> (\<forall>st \<in> set sts. fs_scope st \<in> set manifest \<and> fs_end_tick st = end_tick)"

lemma check_states_fit:
  "check_states pl valid connection chunk sts ids n = Inr m \<Longrightarrow>
    states_fit (gc_manifest chunk) (gc_end_tick chunk) sts \<and> set ids \<inter> fs_scope ` set sts = {}"
proof (induction sts arbitrary: ids n)
  case (Cons st sts)
  then obtain k where "fs_end_tick st = gc_end_tick chunk" "fs_scope st \<in> set (gc_manifest chunk)" "fs_scope st \<notin> set ids"
      "check_states pl valid connection chunk sts (bs_insert (fs_scope st) ids) k = Inr m"
    by (auto simp: res_simps split: if_splits)
  with Cons.IH[OF this(4)] show ?case
    by (auto simp: states_fit_def)
qed (simp add: states_fit_def)

lemma states_fit_indices:
  assumes "states_fit manifest t sts" "manifest_ok manifest"
  shows "distinct (map (\<lambda>x. scope_index (fs_scope x)) sts)"
proof -
  have "inj_on scope_index (set manifest)"
    using assms(2) by (simp add: manifest_ok_def distinct_map)
  moreover have "fs_scope ` set sts \<subseteq> set manifest"
    using assms(1) by (auto simp: states_fit_def)
  ultimately have "inj_on scope_index (fs_scope ` set sts)"
    by (rule inj_on_subset)
  then show ?thesis
    using assms(1) by (simp add: states_fit_def distinct_map inj_on_def image_iff)
qed

lemma states_fit_cover:
  assumes "states_fit manifest t sts" "manifest_ok manifest" "length sts = length manifest"
  shows "fs_scope ` set sts = set manifest"
proof -
  have "distinct manifest"
    using assms(2) by (simp add: manifest_ok_def distinct_map)
  then have "card (set manifest) = card (fs_scope ` set sts)"
    using assms(1,3) distinct_card[of manifest] distinct_card[of "map fs_scope sts"]
    by (simp add: states_fit_def)
  then show ?thesis
    using assms(1) by (intro card_subset_eq) (auto simp: states_fit_def)
qed

lemma staged_insert:
  assumes "i < length (as_chunks a)" "as_chunks a ! i = None"
  shows "\<exists>xs ys. staged_states a = xs @ ys
    \<and> staged_states (a\<lparr>as_chunks := (as_chunks a)[i := Some ms], as_bytes := n\<rparr>) = xs @ ms @ ys"
proof -
  let ?f = "\<lambda>cs. concat (List.map_filter (\<lambda>c. c) cs)"
  have split: "?f (cs @ ds) = ?f cs @ ?f ds" for cs ds :: "'a FullState list option list"
    by (simp add: List.map_filter_def)
  have "as_chunks a = take i (as_chunks a) @ None # drop (Suc i) (as_chunks a)"
    using id_take_nth_drop[OF assms(1)] unfolding assms(2) .
  then have "staged_states a = ?f (take i (as_chunks a) @ None # drop (Suc i) (as_chunks a))"
    by (simp add: staged_states_def)
  then have "staged_states a = ?f (take i (as_chunks a)) @ ?f (drop (Suc i) (as_chunks a))"
    by (simp only: split map_filter_simps option.simps)
  moreover have "staged_states (a\<lparr>as_chunks := (as_chunks a)[i := Some ms], as_bytes := n\<rparr>) =
      ?f (take i (as_chunks a)) @ ms @ ?f (drop (Suc i) (as_chunks a))"
    using assms(1) by (simp add: staged_states_def upd_conv_take_nth_drop split map_filter_simps)
  ultimately show ?thesis
    by blast
qed

lemma staged_new:
  "i < n \<Longrightarrow> staged_states \<lparr>as_end_tick = e, as_manifest = mf, as_chunks = (replicate n None)[i := Some ms],
     as_started_ms = b, as_bytes = m\<rparr> = ms"
proof -
  assume i: "i < n"
  have none: "List.map_filter (\<lambda>c. c) (replicate k None) = []" for k
    by (induction k) (simp_all add: map_filter_simps)
  have "(replicate n None)[i := Some ms] = replicate i None @ Some ms # replicate (n - Suc i) None"
    using i by (simp add: upd_conv_take_nth_drop min_def)
  then show ?thesis
    using none by (simp add: staged_states_def List.map_filter_def)
qed

section \<open>Publication through the client\<close>

lemma apply_full_Inr:
  assumes "apply_full pl valid st s = (Inr r, t)"
  shows "r = full_receipt st" "cs_connection t = cs_connection s"
    "bt_ok (cs_records s) \<Longrightarrow> map_of (cs_records t) = (map_of (cs_records s))(scope_index (fs_scope st) \<mapsto>
       \<lparr>re_scope = fs_scope st, re_closed = False, re_destroyed = False, re_state = Some st\<rparr>)"
    "bt_ok (cs_records s) \<Longrightarrow> bt_ok (cs_records t)"
  using assms by (cases rule: apply_full_cases; simp)+

lemma apply_states_Inr:
  assumes "apply_states pl valid sts c = (Inr rs, d)" "bt_ok (cs_records c)" "distinct (map (\<lambda>x. scope_index (fs_scope x)) sts)"
  shows "rs = map full_receipt sts" "cs_connection d = cs_connection c"
    "\<And>i. i \<notin> (\<lambda>x. scope_index (fs_scope x)) ` set sts \<Longrightarrow> map_of (cs_records d) i = map_of (cs_records c) i"
    "\<And>st. st \<in> set sts \<Longrightarrow> map_of (cs_records d) (scope_index (fs_scope st)) =
       Some \<lparr>re_scope = fs_scope st, re_closed = False, re_destroyed = False, re_state = Some st\<rparr>"
  using assms
proof (atomize (full), induction sts arbitrary: c rs)
  case (Cons st sts)
  then obtain u qs where u: "apply_full pl valid st c = (Inr (full_receipt st), u)"
    "apply_states pl valid sts u = (Inr qs, d)" "rs = full_receipt st # qs"
    by (auto split: prod.splits sum.splits dest: apply_full_Inr(1))
  note f = apply_full_Inr[OF u(1)]
  have ok: "bt_ok (cs_records u)" "map_of (cs_records u) = (map_of (cs_records c))(scope_index (fs_scope st) \<mapsto>
       \<lparr>re_scope = fs_scope st, re_closed = False, re_destroyed = False, re_state = Some st\<rparr>)"
    using f(3,4) Cons.prems(2) by blast+
  have new: "scope_index (fs_scope st) \<notin> (\<lambda>x. scope_index (fs_scope x)) ` set sts" "distinct (map (\<lambda>x. scope_index (fs_scope x)) sts)"
    using Cons.prems(3) by simp_all
  note ih = Cons.IH[OF u(2) ok(1) new(2)]
  have "map_of (cs_records d) (scope_index (fs_scope st)) =
      Some \<lparr>re_scope = fs_scope st, re_closed = False, re_destroyed = False, re_state = Some st\<rparr>"
    using ih new(1) ok(2) by simp
  moreover have "map_of (cs_records d) i = map_of (cs_records c) i"
    if "i \<notin> (\<lambda>x. scope_index (fs_scope x)) ` set (st # sts)" for i
    using ih that ok(2) by simp
  ultimately show ?case
    using ih u(3) f(2) by simp
qed simp

lemma published_state_of:
  assumes "map_of (cs_records d) (scope_index (fs_scope st)) =
    Some \<lparr>re_scope = fs_scope st, re_closed = False, re_destroyed = False, re_state = Some st\<rparr>"
  shows "published_state (si_entity (fs_scope st)) d = Some st"
  using assms by (simp add: published_state_def)

lemma apply_states_ok:
  "scopes_ok pl c \<Longrightarrow> scopes_ok pl (snd (apply_states pl valid sts c))"
proof (induction sts arbitrary: c)
  case (Cons st sts)
  obtain r u where u: "apply_full pl valid st c = (r, u)"
    by (cases "apply_full pl valid st c")
  have "scopes_ok pl u"
    using apply_full_ok[OF Cons.prems u] by simp
  then show ?case
    using Cons.IH[of u] u by (auto split: prod.splits sum.splits)
qed simp

section \<open>The invariant\<close>

definition assembly_ok :: "'p GroupAssembler \<Rightarrow> GroupId \<Rightarrow> 'p Assembly \<Rightarrow> bool" where
  "assembly_ok s g a \<longleftrightarrow>
    (\<exists>f. map_of (ga_fences s) g = Some f \<and> gf_manifest f = as_manifest a \<and> gf_end_tick f = as_end_tick a
       \<and> gf_receipts f = None)
    \<and> manifest_ok (as_manifest a) \<and> states_fit (as_manifest a) (as_end_tick a) (staged_states a)
    \<and> as_started_ms a \<le> ga_now_ms s \<and> fresh_assembly (ga_now_ms s) (ga_limits s) a
    \<and> as_bytes a \<le> gl_group_bytes (ga_limits s)"

definition assembler_ok :: "'p GroupAssembler \<Rightarrow> bool" where
  "assembler_ok s \<longleftrightarrow> gl_max_age_ms (ga_limits s) \<noteq> 0 \<and> bt_ok (ga_assemblies s) \<and> bt_ok (ga_fences s)
    \<and> length (ga_assemblies s) \<le> gl_incomplete (ga_limits s)
    \<and> length (ga_fences s) \<le> gl_known_groups (ga_limits s)
    \<and> ga_bytes s = bt_sum (\<lambda>_. as_bytes) (ga_assemblies s) \<and> ga_bytes s \<le> gl_staging_bytes (ga_limits s)
    \<and> (\<forall>g a. map_of (ga_assemblies s) g = Some a \<longrightarrow> assembly_ok s g a)"

lemma group_new_ok: "group_assembler_new connection limits = Inr s \<Longrightarrow> assembler_ok s \<and> ga_limits s = limits"
  by (auto simp: group_assembler_new_def assembler_ok_def split: if_splits)

lemma group_reset_ok: "assembler_ok s \<Longrightarrow> assembler_ok (snd (group_reset connection s))"
  by (auto simp: group_reset_def assembler_ok_def)

lemma bt_sum_split: "bt_sum f (bt_retain P m) + bt_sum f (bt_retain (\<lambda>k v. \<not> P k v) m) = bt_sum f m"
  by (induction m) (auto simp: bt_retain_def)

lemma group_expire_cases:
  assumes "group_expire now s = (res, t)"
  obtains (stale) "now < ga_now_ms s" "res = Inl Stale" "t = s"
  | (expired) n where "ga_now_ms s \<le> now" "res = Inr n" "ga_now_ms t = now" "ga_limits t = ga_limits s"
      "ga_connection t = ga_connection s" "ga_fences t = ga_fences s"
      "ga_assemblies t = bt_retain (\<lambda>_ a. fresh_assembly now (ga_limits s) a) (ga_assemblies s)"
      "ga_bytes t = ga_bytes s - bt_sum (\<lambda>_. as_bytes) (bt_retain (\<lambda>_ a. \<not> fresh_assembly now (ga_limits s) a) (ga_assemblies s))"
  using assms by (cases "now < ga_now_ms s") (auto simp: group_expire_def Let_def)

lemma group_expire_ok:
  assumes ok: "assembler_ok s" and step: "group_expire now s = (res, t)"
  shows "assembler_ok t"
  using step
proof (cases rule: group_expire_cases)
  case (expired n)
  let ?keep = "bt_retain (\<lambda>_ a. fresh_assembly now (ga_limits s) a) (ga_assemblies s)"
  have len: "length ?keep \<le> gl_incomplete (ga_limits s)"
    using ok length_bt_retain[of "\<lambda>_ a. fresh_assembly now (ga_limits s) a" "ga_assemblies s"]
    by (simp add: assembler_ok_def del: length_bt_retain)
  have bytes: "ga_bytes t = bt_sum (\<lambda>_. as_bytes) ?keep"
    using ok expired(8) bt_sum_split[of "\<lambda>_. as_bytes" "\<lambda>_ a. fresh_assembly now (ga_limits s) a" "ga_assemblies s"]
    by (simp add: assembler_ok_def)
  have le: "bt_sum (\<lambda>_. as_bytes) ?keep \<le> gl_staging_bytes (ga_limits s)"
    using ok bt_sum_retain_le[of "\<lambda>_. as_bytes" "\<lambda>_ a. fresh_assembly now (ga_limits s) a" "ga_assemblies s"]
    by (simp add: assembler_ok_def)
  have "assembly_ok t g a" if "map_of ?keep g = Some a" for g a
  proof -
    have "bt_ok (ga_assemblies s)"
      using ok by (simp add: assembler_ok_def)
    then have "map_of (ga_assemblies s) g = Some a" "fresh_assembly now (ga_limits s) a"
      using that by (auto simp: map_of_bt_retain split: option.splits if_splits)
    then have "assembly_ok s g a" "fresh_assembly now (ga_limits s) a"
      using ok by (simp_all add: assembler_ok_def)
    then show ?thesis
      using expired(1,3,4,6) by (auto simp: assembly_ok_def)
  qed
  then show ?thesis
    using ok expired(3-7) len bytes le by (simp add: assembler_ok_def)
qed (use ok in simp)

section \<open>Storing a chunk\<close>

lemma charge_chunk_Inr:
  assumes "charge_chunk mem chunk member_bytes existing old_bytes s = Inr (group_bytes, bytes)"
  obtains added where "group_bytes = (case existing of None \<Rightarrow> 0 | Some a \<Rightarrow> as_bytes a) + added"
    "old_bytes \<le> ga_bytes s" "bytes = ga_bytes s - old_bytes + added"
    "group_bytes \<le> gl_group_bytes (ga_limits s)" "bytes \<le> gl_staging_bytes (ga_limits s)"
  using assms
  by (auto simp: charge_chunk_def res_simps usize_checked_add_def usize_checked_sub_def bind_eq_Some_conv split: if_splits)

lemma route_stage:
  assumes ok: "assembler_ok s" and now: "ga_now_ms s = now"
    and route: "route_chunk pl chunk now client s = Inr (StageChunk replace started)"
  shows "started \<le> now" "now - started < gl_max_age_ms (ga_limits s)"
    "length (bt_insert (gp_group (gc_publication chunk)) f (ga_fences s)) \<le> gl_known_groups (ga_limits s)"
proof -
  let ?g = "gp_group (gc_publication chunk)"
  have ages: "as_started_ms a \<le> now \<and> now - as_started_ms a < gl_max_age_ms (ga_limits s)"
    if "map_of (ga_assemblies s) ?g = Some a" for a
    using ok now that by (auto simp: assembler_ok_def assembly_ok_def fresh_assembly_def)
  have pos: "0 < gl_max_age_ms (ga_limits s)"
    using ok by (auto simp: assembler_ok_def word_neq_0_conv)
  have "started = now \<or> (\<exists>a. map_of (ga_assemblies s) ?g = Some a \<and> started = as_started_ms a)"
    using route by (auto simp: route_chunk_def repeat_ack_def Let_def split: option.splits if_splits)
  then show "started \<le> now" "now - started < gl_max_age_ms (ga_limits s)"
    using ages pos by auto
  have "map_of (ga_fences s) ?g = None \<Longrightarrow> length (ga_fences s) < gl_known_groups (ga_limits s)"
    using route by (auto simp: route_chunk_def split: if_splits)
  then show "length (bt_insert ?g f (ga_fences s)) \<le> gl_known_groups (ga_limits s)"
    using ok by (auto simp: assembler_ok_def length_bt_insert)
qed

lemma states_fit_merge:
  assumes "states_fit mf t (xs @ ys)" "states_fit mf t ms" "fs_scope ` set ms \<inter> fs_scope ` set (xs @ ys) = {}"
  shows "states_fit mf t (xs @ ms @ ys)"
  using assms by (auto simp: states_fit_def)

definition chunk_ok :: "'p GroupChunk \<Rightarrow> bool" where
  "chunk_ok chunk \<longleftrightarrow> gc_index chunk < gc_count chunk \<and> manifest_ok (gc_manifest chunk)
    \<and> states_fit (gc_manifest chunk) (gc_end_tick chunk) (gc_members chunk)"

lemma stored_states_fit:
  assumes chunk: "chunk_ok chunk" and store: "store_chunk chunk existing started group_bytes bytes s = (a, t)"
    and old: "\<And>x. existing = Some x \<Longrightarrow> check_existing pl chunk x = None \<and> states_fit (as_manifest x) (as_end_tick x) (staged_states x)"
  shows "as_manifest a = gc_manifest chunk" "as_end_tick a = gc_end_tick chunk"
    "states_fit (gc_manifest chunk) (gc_end_tick chunk) (staged_states a)"
proof (atomize (full), cases existing)
  case None
  then show "as_manifest a = gc_manifest chunk \<and> as_end_tick a = gc_end_tick chunk
      \<and> states_fit (gc_manifest chunk) (gc_end_tick chunk) (staged_states a)"
    using store chunk by (auto simp: store_chunk_def Let_def chunk_ok_def staged_new)
next
  case (Some x)
  then have x: "as_end_tick x = gc_end_tick chunk" "length (as_chunks x) = gc_count chunk" "as_manifest x = gc_manifest chunk"
      "as_chunks x ! gc_index chunk = None" "\<forall>st \<in> set (staged_states x). fs_scope st \<notin> fs_scope ` set (gc_members chunk)"
    using old by (auto simp: check_existing_def split: if_splits option.splits)
  have disjoint: "fs_scope ` set (gc_members chunk) \<inter> fs_scope ` set (staged_states x) = {}"
    using x(5) by (simp add: disjoint_iff image_iff) metis
  obtain xs ys where xy: "staged_states x = xs @ ys"
    "staged_states (x\<lparr>as_chunks := (as_chunks x)[gc_index chunk := Some (gc_members chunk)], as_bytes := group_bytes\<rparr>)
       = xs @ gc_members chunk @ ys"
    using staged_insert[where a = x and i = "gc_index chunk" and ms = "gc_members chunk" and n = group_bytes] x(2,4) chunk by (auto simp: chunk_ok_def)
  have a: "a = x\<lparr>as_chunks := (as_chunks x)[gc_index chunk := Some (gc_members chunk)], as_bytes := group_bytes\<rparr>"
    using store Some by (simp add: store_chunk_def Let_def)
  have "states_fit (gc_manifest chunk) (gc_end_tick chunk) (xs @ gc_members chunk @ ys)"
    using old[OF Some] chunk x(1,3) disjoint xy(1) by (intro states_fit_merge) (simp_all add: chunk_ok_def)
  then show "as_manifest a = gc_manifest chunk \<and> as_end_tick a = gc_end_tick chunk
      \<and> states_fit (gc_manifest chunk) (gc_end_tick chunk) (staged_states a)"
    using x(1,3) xy(2) a by simp
qed

lemma store_chunk_ok:
  fixes s :: "'p GroupAssembler"
  defines "held \<equiv> \<lambda>chunk :: 'p GroupChunk. map_of (ga_assemblies s) (gp_group (gc_publication chunk))"
  assumes ok: "assembler_ok s" and chunk: "chunk_ok chunk"
    and route: "route_chunk pl chunk (ga_now_ms s) client s = Inr (StageChunk replace started)"
    and existing: "existing = (if replace then None else held chunk)"
    and old: "\<And>x. existing = Some x \<Longrightarrow> check_existing pl chunk x = None"
    and room: "held chunk = None \<Longrightarrow> length (ga_assemblies s) < gl_incomplete (ga_limits s)"
    and charge: "charge_chunk mem chunk member_bytes existing
      (if replace then (case held chunk of None \<Rightarrow> 0 | Some a \<Rightarrow> as_bytes a) else 0) s = Inr (group_bytes, bytes)"
    and store: "store_chunk chunk existing started group_bytes bytes s = (a, t)"
  shows "assembler_ok t"
proof -
  let ?g = "gp_group (gc_publication chunk)"
  let ?f = "\<lparr>gf_publication = gc_publication chunk, gf_end_tick = gc_end_tick chunk, gf_manifest = gc_manifest chunk, gf_receipts = None\<rparr>"
  have bt: "bt_ok (ga_assemblies s)" "bt_ok (ga_fences s)"
    using ok by (simp_all add: assembler_ok_def)
  have t: "t = s\<lparr>ga_assemblies := bt_insert ?g a (ga_assemblies s), ga_bytes := bytes, ga_fences := bt_insert ?g ?f (ga_fences s)\<rparr>"
      "as_bytes a = group_bytes"
    using store by (auto simp: store_chunk_def Let_def)
  have held: "assembly_ok s ?g x" if "held chunk = Some x" for x
    using ok that by (simp add: assembler_ok_def held_def)
  have "states_fit (as_manifest x) (as_end_tick x) (staged_states x)" if "existing = Some x" for x
    using held existing that by (auto simp: assembly_ok_def split: if_splits)
  then have fit: "as_manifest a = gc_manifest chunk" "as_end_tick a = gc_end_tick chunk"
      "states_fit (gc_manifest chunk) (gc_end_tick chunk) (staged_states a)"
    using stored_states_fit[OF chunk store] old by blast+
  have age: "as_started_ms a \<le> ga_now_ms s" "fresh_assembly (ga_now_ms s) (ga_limits s) a"
    using store existing held route_stage(1,2)[OF ok refl route]
    by (auto simp: store_chunk_def Let_def assembly_ok_def fresh_assembly_def split: option.splits if_splits)
  obtain added where added: "group_bytes = (case existing of None \<Rightarrow> 0 | Some a \<Rightarrow> as_bytes a) + added"
      "(if replace then (case held chunk of None \<Rightarrow> 0 | Some a \<Rightarrow> as_bytes a) else 0) \<le> ga_bytes s"
      "bytes = ga_bytes s - (if replace then (case held chunk of None \<Rightarrow> 0 | Some a \<Rightarrow> as_bytes a) else 0) + added"
      "group_bytes \<le> gl_group_bytes (ga_limits s)" "bytes \<le> gl_staging_bytes (ga_limits s)"
    by (rule charge_chunk_Inr[OF charge])
  have sum: "bytes = bt_sum (\<lambda>_. as_bytes) (bt_insert ?g a (ga_assemblies s))"
    using bt_sum_insert[OF bt(1), of "\<lambda>_. as_bytes" ?g a] ok added(1-3) existing t(2)
    by (auto simp: assembler_ok_def held_def split: option.splits if_splits)
  have "assembly_ok t ?g a"
    using fit age added(4) t chunk bt(2) by (simp add: assembly_ok_def chunk_ok_def)
  moreover have "assembly_ok t g x" if "map_of (ga_assemblies s) g = Some x" "g \<noteq> ?g" for g x
    using ok that t(1) bt(2) by (auto simp: assembler_ok_def assembly_ok_def)
  ultimately have "\<forall>g x. map_of (ga_assemblies t) g = Some x \<longrightarrow> assembly_ok t g x"
    using t(1) bt(1) by simp
  moreover have "length (ga_assemblies t) \<le> gl_incomplete (ga_limits s)"
    using ok room t(1) bt(1) by (auto simp: assembler_ok_def length_bt_insert held_def)
  ultimately show ?thesis
    using ok t(1) bt sum added(5) route_stage(3)[OF ok refl route] by (simp add: assembler_ok_def)
qed

end
