(* ===== verification/Net_Group_Props.thy ===== *)
theory Net_Group_Props
  imports Net_Group_Facts
begin

text \<open>
  Runs of a group assembler beside its client scopes: staging stays within its limits, a group is
  published in one step or not at all, and an abandoned group is closed until a reset.
\<close>

section \<open>Receiving a chunk\<close>

definition closed_fence :: "GroupId \<Rightarrow> StateReceipt list \<Rightarrow> 'p GroupAssembler \<Rightarrow> 'p GroupAssembler" where
  "closed_fence g receipts s = s\<lparr>ga_fences := bt_update g (\<lambda>f. f\<lparr>gf_receipts := Some receipts\<rparr>) (ga_fences s)\<rparr>"

lemma publish_group_cases:
  assumes "publish_assembly pl valid g a s client = (res, t, d)"
  obtains (staged) "res = Inr Staged" "t = s" "d = client"
  | (dropped) e where "res = Inl e" "t = close_assembly g a s" "d = client"
  | (published) receipts where "length (staged_states a) = length (as_manifest a)"
      "apply_states pl valid (staged_states a) client = (Inr receipts, d)"
      "res = Inr (Published receipts)" "t = closed_fence g receipts (close_assembly g a s)"
  using assms
  by (auto simp: publish_assembly_def closed_fence_def close_assembly_def split: if_splits prod.splits sum.splits)

lemma close_assembly_ok:
  assumes ok: "assembler_ok s" and a: "map_of (ga_assemblies s) g = Some a"
  shows "assembler_ok (close_assembly g a s)" "assembler_ok (closed_fence g receipts (close_assembly g a s))"
proof -
  have bt: "bt_ok (ga_assemblies s)" "bt_ok (ga_fences s)"
    using ok by (simp_all add: assembler_ok_def)
  have sum: "ga_bytes s - as_bytes a = bt_sum (\<lambda>_. as_bytes) (bt_remove g (ga_assemblies s))"
    using bt_sum_remove[OF bt(1), of "\<lambda>_. as_bytes" g] ok a by (simp add: assembler_ok_def)
  have len: "length (bt_remove g (ga_assemblies s)) \<le> gl_incomplete (ga_limits s)"
    using ok length_bt_remove_le[of g "ga_assemblies s"] by (simp add: assembler_ok_def del: length_bt_remove_le)
  have "ga_bytes s \<le> gl_staging_bytes (ga_limits s)"
    using ok by (simp add: assembler_ok_def)
  then have le: "ga_bytes s - as_bytes a \<le> gl_staging_bytes (ga_limits s)"
    by linarith
  have rest: "assembly_ok s h x" if "map_of (ga_assemblies s) h = Some x" for h x
    using ok that by (simp add: assembler_ok_def)
  show "assembler_ok (close_assembly g a s)" "assembler_ok (closed_fence g receipts (close_assembly g a s))"
    using ok bt len le rest unfolding assembler_ok_def close_assembly_def closed_fence_def sum
    by (auto simp: assembly_ok_def)
qed

lemma publish_ok:
  assumes "assembler_ok s" "map_of (ga_assemblies s) g = Some a" "publish_assembly pl valid g a s client = (res, t, d)"
    "scopes_ok pl client"
  shows "assembler_ok t \<and> scopes_ok pl d"
  using assms(3)
proof (cases rule: publish_group_cases)
  case (published receipts)
  then show ?thesis
    using close_assembly_ok(2)[OF assms(1,2)] apply_states_ok[OF assms(4), of valid "staged_states a"] by simp
qed (use assms close_assembly_ok(1) in auto)

lemma stage_cases:
  fixes u :: "'p GroupAssembler"
  defines "held \<equiv> \<lambda>chunk :: 'p GroupChunk. map_of (ga_assemblies u) (gp_group (gc_publication chunk))"
  assumes "stage_chunk pl mem valid chunk member_bytes replace started u client = (res, t, d)"
  obtains (refused) "t = u" "d = client" "\<And>rs. res \<noteq> Inr (Published rs)"
  | (stored) existing group_bytes bytes a v where "existing = (if replace then None else held chunk)"
      "\<And>x. existing = Some x \<Longrightarrow> check_existing pl chunk x = None"
      "held chunk = None \<Longrightarrow> length (ga_assemblies u) < gl_incomplete (ga_limits u)"
      "charge_chunk mem chunk member_bytes existing (if replace then
         (case held chunk of None \<Rightarrow> 0 | Some a \<Rightarrow> as_bytes a) else 0) u = Inr (group_bytes, bytes)"
      "store_chunk chunk existing started group_bytes bytes u = (a, v)"
      "publish_assembly pl valid (gp_group (gc_publication chunk)) a v client = (res, t, d)"
proof -
  let ?existing = "if replace then None else held chunk"
  let ?old = "if replace then (case held chunk of None \<Rightarrow> 0 | Some a \<Rightarrow> as_bytes a) else 0"
  let ?verdict = "case ?existing of Some a \<Rightarrow> check_existing pl chunk a
    | None \<Rightarrow> if held chunk = None \<and> length (ga_assemblies u) \<ge> gl_incomplete (ga_limits u) then Some (Inl Capacity) else None"
  have step: "(case ?verdict of Some r \<Rightarrow> (r, u, client) | None \<Rightarrow>
      (case charge_chunk mem chunk member_bytes ?existing ?old u of Inl e \<Rightarrow> (Inl e, u, client)
       | Inr (group_bytes, bytes) \<Rightarrow> let (a, v) = store_chunk chunk ?existing started group_bytes bytes u in
           publish_assembly pl valid (gp_group (gc_publication chunk)) a v client)) = (res, t, d)"
    using assms(2) unfolding stage_chunk_def Let_def held_def .
  have quiet: "r \<noteq> Inr (Published rs)" if "?verdict = Some r" for r rs
    using that by (auto simp: check_existing_def split: option.splits if_splits)
  show thesis
  proof (cases "\<exists>group_bytes bytes. ?verdict = None \<and> charge_chunk mem chunk member_bytes ?existing ?old u = Inr (group_bytes, bytes)")
    case True
    then obtain gb b a v where "?verdict = None" "charge_chunk mem chunk member_bytes ?existing ?old u = Inr (gb, b)"
        "store_chunk chunk ?existing started gb b u = (a, v)"
      by (metis surj_pair)
    moreover from this have "publish_assembly pl valid (gp_group (gc_publication chunk)) a v client = (res, t, d)"
      using step by simp
    ultimately show thesis
      by (intro stored[of ?existing gb b a v]) (auto split: option.splits if_splits)
  next
    case False
    then show thesis
      using step quiet by (intro refused) (auto split: option.splits sum.splits)
  qed
qed

lemma receive_chunk_cases:
  assumes "receive_chunk pl mem valid chunk now s client = (res, t, d)"
  obtains (refused) u r where "group_expire now s = (r, u)" "t = u" "d = client" "\<And>rs. res \<noteq> Inr (Published rs)"
  | (repeated) n receipts where "group_expire now s = (Inr n, t)" "d = client" "res = Inr (Published receipts)"
      "route_chunk pl chunk now client t = Inr (RepeatAck receipts)"
  | (stored) n u replace started existing member_bytes group_bytes bytes a v where "group_expire now s = (Inr n, u)"
      "gp_connection (gc_publication chunk) = ga_connection u" "cs_connection client = ga_connection u" "chunk_ok chunk"
      "route_chunk pl chunk now client u = Inr (StageChunk replace started)"
      "existing = (if replace then None else map_of (ga_assemblies u) (gp_group (gc_publication chunk)))"
      "\<And>x. existing = Some x \<Longrightarrow> check_existing pl chunk x = None"
      "map_of (ga_assemblies u) (gp_group (gc_publication chunk)) = None \<Longrightarrow> length (ga_assemblies u) < gl_incomplete (ga_limits u)"
      "charge_chunk mem chunk member_bytes existing (if replace then
         (case map_of (ga_assemblies u) (gp_group (gc_publication chunk)) of None \<Rightarrow> 0 | Some a \<Rightarrow> as_bytes a) else 0) u
         = Inr (group_bytes, bytes)"
      "store_chunk chunk existing started group_bytes bytes u = (a, v)"
      "publish_assembly pl valid (gp_group (gc_publication chunk)) a v client = (res, t, d)"
proof -
  obtain r u where u: "group_expire now s = (r, u)"
    by (cases "group_expire now s")
  show thesis
  proof (cases "\<exists>n member_bytes route. r = Inr n \<and> gp_connection (gc_publication chunk) = ga_connection u
      \<and> cs_connection client = ga_connection u \<and> \<not> chunk_invalid (ga_limits u) chunk
      \<and> check_manifest (ga_connection u) None [] (gc_manifest chunk) = Inr ()
      \<and> and_then (ok_or Capacity (usize_checked_mul (gc_members_capacity chunk) (gm_full_state mem)))
          (check_states pl valid (ga_connection u) chunk (gc_members chunk) []) = Inr member_bytes
      \<and> route_chunk pl chunk now client u = Inr route")
    case False
    then show thesis
      using assms u by (intro refused[OF u]) (auto simp: receive_chunk_def split: if_splits sum.splits)
  next
    case True
    then obtain n member_bytes route where c: "r = Inr n" "gp_connection (gc_publication chunk) = ga_connection u"
        "cs_connection client = ga_connection u" "\<not> chunk_invalid (ga_limits u) chunk"
        "check_manifest (ga_connection u) None [] (gc_manifest chunk) = Inr ()"
        "and_then (ok_or Capacity (usize_checked_mul (gc_members_capacity chunk) (gm_full_state mem)))
          (check_states pl valid (ga_connection u) chunk (gc_members chunk) []) = Inr member_bytes"
        "route_chunk pl chunk now client u = Inr route"
      by auto
    have ok: "chunk_ok chunk"
      using c(4,6) check_manifest_distinct[OF c(5)] check_states_fit[of pl valid "ga_connection u" chunk "gc_members chunk" "[]"]
      by (auto simp: chunk_ok_def chunk_invalid_def manifest_ok_def res_simps)
    have step: "(case route of RepeatAck receipts \<Rightarrow> (Inr (Published receipts), u, client)
        | StageChunk replace started \<Rightarrow> stage_chunk pl mem valid chunk member_bytes replace started u client) = (res, t, d)"
      using assms u c by (simp add: receive_chunk_def)
    show thesis
    proof (cases route)
      case (RepeatAck receipts)
      then show thesis
        using step u c(1,7) by (intro repeated) auto
    next
      case (StageChunk replace started)
      then have "stage_chunk pl mem valid chunk member_bytes replace started u client = (res, t, d)"
        using step by simp
      then show thesis
      proof (cases rule: stage_cases)
        case refused
        then show thesis
          by (rule that(1)[OF u])
      next
        case (stored existing group_bytes bytes a v)
        show thesis
          by (rule that(3)[OF u[unfolded c(1)] c(2,3) ok c(7)[unfolded StageChunk] stored])
      qed
    qed
  qed
qed

lemma store_chunk_entries:
  assumes "store_chunk chunk existing started group_bytes bytes u = (a, v)" "bt_ok (ga_assemblies u)" "bt_ok (ga_fences u)"
  shows "map_of (ga_assemblies v) = (map_of (ga_assemblies u))(gp_group (gc_publication chunk) \<mapsto> a)"
    "map_of (ga_fences v) = (map_of (ga_fences u))(gp_group (gc_publication chunk) \<mapsto>
       \<lparr>gf_publication = gc_publication chunk, gf_end_tick = gc_end_tick chunk, gf_manifest = gc_manifest chunk, gf_receipts = None\<rparr>)"
    "ga_connection v = ga_connection u" "ga_limits v = ga_limits u" "bt_ok (ga_assemblies v)" "bt_ok (ga_fences v)"
  using assms by (auto simp: store_chunk_def Let_def)

lemma publish_limits: "publish_assembly pl valid g a v client = (res, t, d) \<Longrightarrow> ga_limits t = ga_limits v"
  by (erule publish_group_cases) (simp_all add: close_assembly_def closed_fence_def)

lemma expire_limits: "group_expire now s = (r, u) \<Longrightarrow> ga_limits u = ga_limits s"
  by (erule group_expire_cases) simp_all

lemma expire_now: "group_expire now s = (Inr n, u) \<Longrightarrow> ga_now_ms u = now"
  by (erule group_expire_cases) simp_all

lemma receive_ok:
  assumes ok: "assembler_ok s" "scopes_ok pl c" and step: "receive_chunk pl mem valid chunk now s c = (res, t, d)"
  shows "assembler_ok t \<and> scopes_ok pl d \<and> ga_limits t = ga_limits s"
  using step
proof (cases rule: receive_chunk_cases)
  case (stored n u replace started existing member_bytes group_bytes bytes a v)
  have u: "assembler_ok u" "ga_limits u = ga_limits s" "ga_now_ms u = now"
    using group_expire_ok[OF ok(1) stored(1)] expire_limits[OF stored(1)] expire_now[OF stored(1)] by auto
  have v: "assembler_ok v"
    by (rule store_chunk_ok[OF u(1) stored(4) _ stored(6-10)]) (use stored(5) u(3) in simp)
  have "bt_ok (ga_assemblies u)" "bt_ok (ga_fences u)"
    using u(1) by (simp_all add: assembler_ok_def)
  note e = store_chunk_entries[OF stored(10) this]
  show ?thesis
    using publish_ok[OF v _ stored(11) ok(2)] publish_limits[OF stored(11)] e(1,4) u(2) by simp
qed (use ok group_expire_ok expire_limits in blast)+

section \<open>Runs\<close>

datatype 'p GroupOp = GroupReceive "'p \<Rightarrow> bool" "'p GroupChunk" u64 | GroupExpire u64 | GroupReset ConnectionEpoch
  | ClientCall "'p ScopeOp" | NewClient ConnectionEpoch ScopeLimits

fun group_step :: "'p Payload \<Rightarrow> GroupMemory \<Rightarrow> 'p GroupOp \<Rightarrow> 'p GroupAssembler \<times> 'p ClientScopes \<Rightarrow> 'p GroupAssembler \<times> 'p ClientScopes" where
  "group_step pl mem (GroupReceive valid chunk now) (s, c) = snd (receive_chunk pl mem valid chunk now s c)"
| "group_step pl mem (GroupExpire now) (s, c) = (snd (group_expire now s), c)"
| "group_step pl mem (GroupReset connection) (s, c) = (snd (group_reset connection s), c)"
| "group_step pl mem (ClientCall op) (s, c) = (s, scope_step pl op c)"
| "group_step pl mem (NewClient connection limits) (s, c) =
    (s, case client_scopes_new connection limits of Inl _ \<Rightarrow> c | Inr d \<Rightarrow> d)"

definition group_inv :: "'p Payload \<Rightarrow> GroupLimits \<Rightarrow> 'p GroupAssembler \<times> 'p ClientScopes \<Rightarrow> bool" where
  "group_inv pl limits x \<longleftrightarrow> assembler_ok (fst x) \<and> ga_limits (fst x) = limits \<and> scopes_ok pl (snd x)"

lemma group_step_ok:
  assumes "group_inv pl limits x"
  shows "group_inv pl limits (group_step pl mem op x)"
proof (cases x)
  case (Pair s c)
  then have ok: "assembler_ok s" "ga_limits s = limits" "scopes_ok pl c"
    using assms by (auto simp: group_inv_def)
  show ?thesis
  proof (cases op)
    case (GroupReceive valid chunk now)
    obtain res t d where "receive_chunk pl mem valid chunk now s c = (res, t, d)"
      by (metis surj_pair)
    then show ?thesis
      using receive_ok[OF ok(1,3)] ok(2) Pair GroupReceive by (simp add: group_inv_def)
  next
    case (GroupExpire now)
    obtain r t where "group_expire now s = (r, t)"
      by (metis surj_pair)
    then show ?thesis
      using group_expire_ok[OF ok(1)] expire_limits[of now s r t] ok Pair GroupExpire by (simp add: group_inv_def)
  next
    case (GroupReset connection)
    then show ?thesis
      using group_reset_ok[OF ok(1), of connection] ok Pair by (auto simp: group_inv_def group_reset_def)
  qed (use ok Pair scope_step_ok new_scopes_ok in \<open>auto simp: group_inv_def split: sum.split\<close>)
qed

interpretation group_machine: guarded_machine "group_step pl mem" "group_inv pl limits" for pl mem limits
  by unfold_locales (rule group_step_ok)

lemma group_run_ok:
  assumes "group_assembler_new connection limits = Inr s0" "client_scopes_new connection scope_limits = Inr c0"
    "fold (group_step pl mem) ops (s0, c0) = (s, c)"
  shows "assembler_ok s" "ga_limits s = limits" "scopes_ok pl c"
proof -
  have "group_inv pl limits (s0, c0)"
    using group_new_ok[OF assms(1)] new_scopes_ok[OF assms(2)] by (simp add: group_inv_def)
  from group_machine.run_inv[OF this, of mem ops] show "assembler_ok s" "ga_limits s = limits" "scopes_ok pl c"
    using assms(3) by (simp_all add: group_inv_def)
qed

section \<open>Publication\<close>

definition fully_published :: "'p GroupChunk \<Rightarrow> StateReceipt list \<Rightarrow> 'p GroupAssembler \<Rightarrow> 'p ClientScopes \<Rightarrow> bool" where
  "fully_published chunk receipts t d \<longleftrightarrow>
    (\<exists>p sts. published_group (gp_group (gc_publication chunk)) d t = Some p
       \<and> pg_publication p = gc_publication chunk \<and> pg_end_tick p = gc_end_tick chunk \<and> pg_manifest p = gc_manifest chunk
       \<and> group_states p = Inr sts \<and> map fs_scope sts = gc_manifest chunk
       \<and> (\<forall>st \<in> set sts. fs_end_tick st = gc_end_tick chunk) \<and> set receipts = full_receipt ` set sts)"

lemma published_members:
  assumes fit: "states_fit manifest tick sts" "manifest_ok manifest" "length sts = length manifest"
    and ok: "scopes_ok pl c" and ap: "apply_states pl valid sts c = (Inr receipts, d)"
  shows "receipts = map full_receipt sts" "cs_connection d = cs_connection c" "fs_scope ` set sts = set manifest"
    "\<And>st. st \<in> set sts \<Longrightarrow> published_state (si_entity (fs_scope st)) d = Some st \<and> fs_end_tick st = tick"
    "\<And>e. eid_index e \<notin> scope_index ` set manifest \<Longrightarrow> published_state e d = published_state e c"
proof -
  have bt: "bt_ok (cs_records c)"
    using ok by (simp add: scopes_ok_def)
  note f = apply_states_Inr[OF ap bt states_fit_indices[OF fit(1,2)]]
  show cover: "fs_scope ` set sts = set manifest"
    by (rule states_fit_cover[OF fit])
  show "receipts = map full_receipt sts" "cs_connection d = cs_connection c"
    using f(1,2) by auto
  show "published_state (si_entity (fs_scope st)) d = Some st \<and> fs_end_tick st = tick" if "st \<in> set sts" for st
    using published_state_of[OF f(4)[OF that]] fit(1) that by (simp add: states_fit_def)
  show "published_state e d = published_state e c" if "eid_index e \<notin> scope_index ` set manifest" for e
    using f(3)[of "eid_index e"] that by (simp add: published_state_def cover[symmetric] image_image)
qed

lemma publish_complete:
  assumes v: "ga_connection v = cs_connection c"
      "map_of (ga_fences v) (gp_group (gc_publication chunk)) = Some \<lparr>gf_publication = gc_publication chunk,
         gf_end_tick = gc_end_tick chunk, gf_manifest = gc_manifest chunk, gf_receipts = None\<rparr>"
    and a: "as_manifest a = gc_manifest chunk" "states_fit (gc_manifest chunk) (gc_end_tick chunk) (staged_states a)"
      "manifest_ok (gc_manifest chunk)" "length (staged_states a) = length (as_manifest a)"
    and ok: "scopes_ok pl c" and ap: "apply_states pl valid (staged_states a) c = (Inr receipts, d)"
    and t: "t = closed_fence (gp_group (gc_publication chunk)) receipts (close_assembly g a v)"
  shows "fully_published chunk receipts t d"
proof -
  let ?mf = "gc_manifest chunk" and ?sts = "staged_states a"
  note m = published_members[OF a(2,3) a(4)[unfolded a(1)] ok ap]
  have member: "\<exists>st \<in> set ?sts. fs_scope st = scope \<and> published_state (si_entity scope) d = Some st \<and> fs_end_tick st = gc_end_tick chunk"
    if "scope \<in> set ?mf" for scope
  proof -
    have "scope \<in> fs_scope ` set ?sts"
      using that m(3) by simp
    then obtain st where "st \<in> set ?sts" "scope = fs_scope st"
      by (rule imageE)
    then show ?thesis
      using m(4) by (intro bexI[of _ st]) simp_all
  qed
  let ?p = "\<lparr>pg_publication = gc_publication chunk, pg_end_tick = gc_end_tick chunk, pg_manifest = ?mf, pg_client = d\<rparr>"
  have hd: "hd ?mf \<in> set ?mf" "?mf \<noteq> []"
    using a(3) by (auto simp: manifest_ok_def)
  have "list_all (member_retained receipts (gc_end_tick chunk) d) ?mf"
    using member m(1) by (fastforce simp: list_all_iff member_retained_def)
  then have group: "published_group (gp_group (gc_publication chunk)) d t = Some ?p"
    using v m(1,2) a(1,4) t hd member[OF hd(1)] by (auto simp: published_group_def closed_fence_def close_assembly_def)
  define out where "out = map (\<lambda>scope. the (published_state (si_entity scope) d)) ?mf"
  have states: "group_states ?p = Inr out"
    using member by (fastforce simp: group_states_def list_all_iff out_def)
  have scopes: "map fs_scope out = ?mf"
    using member by (fastforce simp: out_def intro!: map_idI)
  have "set out = set ?sts"
    unfolding out_def set_map m(3)[symmetric] image_image using m(4) by (simp cong: image_cong_simp)
  then show ?thesis
    unfolding fully_published_def using group states scopes m(1,4) by (intro exI[of _ ?p] exI[of _ out]) simp
qed

text \<open>C17: at any point of any run, receiving a chunk either leaves the client exactly as it was, and
  acknowledges a publication only when the fence of the group records these receipts and every one of
  them is still the state the client retains, or it publishes the whole group in one step: the group is
  then readable under the chunk's publication, its states are the manifest's members in order, all at the
  chunk's end tick, the receipts are theirs, and no entity outside the manifest changes.\<close>

theorem group_publication_atomic:
  assumes "group_assembler_new connection limits = Inr s0" "client_scopes_new connection scope_limits = Inr c0"
    "fold (group_step pl mem) ops (s0, c0) = (s, c)" "receive_chunk pl mem valid chunk now s c = (res, t, d)"
  shows "(d = c \<and> (\<forall>receipts. res = Inr (Published receipts) \<longrightarrow>
            (\<exists>f. map_of (ga_fences s) (gp_group (gc_publication chunk)) = Some f \<and> gf_publication f = gc_publication chunk
               \<and> gf_receipts f = Some receipts)
            \<and> (\<forall>r \<in> set receipts. \<exists>st. published_state (si_entity (rc_scope r)) c = Some st \<and> full_receipt st = r)))
    \<or> (\<exists>receipts. res = Inr (Published receipts) \<and> fully_published chunk receipts t d
         \<and> (\<forall>e. eid_index e \<notin> scope_index ` set (gc_manifest chunk) \<longrightarrow> published_state e d = published_state e c))"
    (is "?unchanged \<or> ?published")
proof -
  note ok = group_run_ok[OF assms(1-3)]
  from assms(4) show ?thesis
  proof (cases rule: receive_chunk_cases)
    case (repeated n receipts)
    have "ga_fences t = ga_fences s"
      using repeated(1) by (cases rule: group_expire_cases) simp_all
    then have ?unchanged
      using repeated(2-4)
      by (auto simp: route_chunk_def repeat_ack_def list_all_iff Let_def split: option.splits if_splits)
    then show ?thesis ..
  next
    case (stored n u replace started existing member_bytes group_bytes bytes a v)
    have u: "assembler_ok u" "ga_now_ms u = now"
      using group_expire_ok[OF ok(1) stored(1)] expire_now[OF stored(1)] by auto
    then have bt: "bt_ok (ga_assemblies u)" "bt_ok (ga_fences u)"
      by (simp_all add: assembler_ok_def)
    note e = store_chunk_entries[OF stored(10) bt]
    have "assembler_ok v"
      by (rule store_chunk_ok[OF u(1) stored(4) _ stored(6-10)]) (use stored(5) u(2) in simp)
    then have "assembly_ok v (gp_group (gc_publication chunk)) a"
      using e(1) by (simp add: assembler_ok_def)
    then have a: "as_manifest a = gc_manifest chunk" "manifest_ok (gc_manifest chunk)"
        "states_fit (gc_manifest chunk) (gc_end_tick chunk) (staged_states a)"
      using e(2) by (auto simp: assembly_ok_def)
    from stored(11) show ?thesis
    proof (cases rule: publish_group_cases)
      case (published receipts)
      have "fully_published chunk receipts t d"
        by (rule publish_complete[OF _ _ a(1,3,2) published(1) ok(3) published(2,4)]) (use e(2,3) stored(3) in simp_all)
      moreover have "published_state e d = published_state e c" if "eid_index e \<notin> scope_index ` set (gc_manifest chunk)" for e
        using published_members(5)[OF a(3,2) published(1)[unfolded a(1)] ok(3) published(2) that] .
      ultimately show ?thesis
        using published(3) by blast
    qed simp_all
  qed simp
qed


section \<open>Abandoned groups\<close>

definition abandoned :: "GroupId \<Rightarrow> 'p GroupAssembler \<Rightarrow> bool" where
  "abandoned g s \<longleftrightarrow> map_option gf_receipts (map_of (ga_fences s) g) = Some None \<and> map_of (ga_assemblies s) g = None"

lemma abandoned_expire:
  assumes "abandoned g s" "bt_ok (ga_assemblies s)" "group_expire now s = (r, u)"
  shows "abandoned g u"
  using assms(3) by (cases rule: group_expire_cases) (use assms(1,2) in \<open>simp_all add: abandoned_def map_of_bt_retain\<close>)

lemma abandoned_route:
  assumes "abandoned (gp_group (gc_publication chunk)) u"
  shows "route_chunk pl chunk now client u \<noteq> Inr r"
  using assms by (auto simp: route_chunk_def abandoned_def bt_contains_def Let_def split: option.splits if_splits)

lemma publish_keeps:
  assumes "publish_assembly pl valid h a v client = (res, t, d)" "h \<noteq> g" "abandoned g v"
    "bt_ok (ga_assemblies v)" "bt_ok (ga_fences v)"
  shows "abandoned g t"
  using assms(1)
  by (cases rule: publish_group_cases) (use assms(2-) in \<open>simp_all add: abandoned_def close_assembly_def closed_fence_def\<close>)

lemma abandoned_receive:
  assumes ok: "assembler_ok s" and g: "abandoned g s" and step: "receive_chunk pl mem valid chunk now s c = (res, t, d)"
  shows "abandoned g t" "gp_group (gc_publication chunk) = g \<Longrightarrow> (\<exists>e. res = Inl e) \<and> d = c"
proof -
  have bt: "bt_ok (ga_assemblies s)"
    using ok by (simp add: assembler_ok_def)
  obtain r u where u: "group_expire now s = (r, u)"
    by (cases "group_expire now s")
  have gu: "abandoned g u"
    by (rule abandoned_expire[OF g bt u])
  show "abandoned g t"
    using step
  proof (cases rule: receive_chunk_cases)
    case (stored n u' replace started existing member_bytes group_bytes bytes a v)
    then have "assembler_ok u" "u' = u"
      using group_expire_ok[OF ok u] u by auto
    then have btu: "bt_ok (ga_assemblies u)" "bt_ok (ga_fences u)"
      by (simp_all add: assembler_ok_def)
    have ne: "gp_group (gc_publication chunk) \<noteq> g"
      using stored(5) abandoned_route[of chunk u] gu \<open>u' = u\<close> by metis
    note e = store_chunk_entries[OF stored(10)[unfolded \<open>u' = u\<close>] btu]
    have "abandoned g v"
      using gu ne e(1,2) by (simp add: abandoned_def)
    then show ?thesis
      using publish_keeps[OF stored(11) ne] e(5,6) by blast
  qed (use u gu in auto)
  show "(\<exists>e. res = Inl e) \<and> d = c" if "gp_group (gc_publication chunk) = g"
    using step u abandoned_route[of chunk u pl now c] gu that
    by (auto simp: receive_chunk_def split: sum.splits if_splits)
qed

lemma abandoned_run:
  assumes "assembler_ok s" "scopes_ok pl c" "abandoned g s" "\<And>k. GroupReset k \<notin> set ops"
    "fold (group_step pl mem) ops (s, c) = (t, d)"
  shows "abandoned g t \<and> assembler_ok t"
  using assms
proof (induction ops arbitrary: s c)
  case (Cons op ops)
  obtain u e where u: "group_step pl mem op (s, c) = (u, e)"
    by (metis surj_pair)
  have inv: "assembler_ok u" "scopes_ok pl e"
    using group_step_ok[of pl "ga_limits s" "(s, c)" mem op] Cons.prems(1,2) u by (auto simp: group_inv_def)
  have bt: "bt_ok (ga_assemblies s)"
    using Cons.prems(1) by (simp add: assembler_ok_def)
  have "abandoned g u"
  proof (cases op)
    case (GroupReceive valid chunk now)
    obtain res where "receive_chunk pl mem valid chunk now s c = (res, u, e)"
      using u GroupReceive by (cases "receive_chunk pl mem valid chunk now s c") auto
    then show ?thesis
      by (rule abandoned_receive(1)[OF Cons.prems(1,3)])
  next
    case (GroupExpire now)
    obtain r where "group_expire now s = (r, u)"
      using u GroupExpire by (cases "group_expire now s") auto
    then show ?thesis
      by (rule abandoned_expire[OF Cons.prems(3) bt])
  qed (use Cons.prems(3,4) u in auto)
  then show ?case
    using Cons.IH[OF inv] Cons.prems(4,5) u by auto
qed simp

text \<open>C19: a group whose fence has no receipts and whose assembly is gone, because it expired or
  because its publication failed, accepts no chunk of any publication until the assembler is reset:
  every later chunk of the group is refused and leaves the client alone.\<close>

theorem abandoned_group_closed:
  assumes "group_assembler_new connection limits = Inr s0" "client_scopes_new connection scope_limits = Inr c0"
    "fold (group_step pl mem) ops (s0, c0) = (s, c)" "abandoned g s"
    "\<And>k. GroupReset k \<notin> set later" "fold (group_step pl mem) later (s, c) = (t, d)"
    "gp_group (gc_publication chunk) = g"
  shows "(\<exists>e. fst (receive_chunk pl mem valid chunk now t d) = Inl e) \<and> snd (snd (receive_chunk pl mem valid chunk now t d)) = d"
proof -
  note ok = group_run_ok[OF assms(1-3)]
  have t: "abandoned g t" "assembler_ok t"
    using abandoned_run[OF ok(1,3) assms(4,5,6)] by blast+
  obtain res t' d' where "receive_chunk pl mem valid chunk now t d = (res, t', d')"
    by (metis surj_pair)
  then show ?thesis
    using abandoned_receive(2)[OF t(2,1) _ assms(7)] by auto
qed

section \<open>A run\<close>

definition ex_second :: "vec FullState" where
  "ex_second = ex_full\<lparr>fs_scope := ScopeIdentity 3 (EntityId 10 2) 1 1\<rparr>"

definition ex_assembler :: "vec GroupAssembler" where
  "ex_assembler = \<lparr>ga_connection = 3, ga_limits = default_group_limits, ga_assemblies = [], ga_fences = [], ga_bytes = 0,
     ga_now_ms = 0\<rparr>"

definition ex_group_memory :: GroupMemory where
  "ex_group_memory = \<lparr>gm_full_state = 80, gm_scope = 40\<rparr>"

definition ex_chunk :: "usize \<Rightarrow> vec FullState \<Rightarrow> vec GroupChunk" where
  "ex_chunk i st = \<lparr>gc_publication = \<lparr>gp_connection = 3, gp_group = 7, gp_revision = 1, gp_snapshot = 4\<rparr>, gc_end_tick = 20,
     gc_manifest = [fs_scope ex_full, fs_scope ex_second], gc_manifest_capacity = 2, gc_index = i, gc_count = 2,
     gc_members = [st], gc_members_capacity = 1\<rparr>"

definition ex_half :: "vec GroupAssembler" where
  "ex_half = ex_assembler\<lparr>ga_assemblies := [(7, \<lparr>as_end_tick = 20, as_manifest = [fs_scope ex_full, fs_scope ex_second],
       as_chunks = [Some [ex_full], None], as_started_ms = 0, as_bytes = 162\<rparr>)], ga_bytes := 162,
     ga_fences := [(7, \<lparr>gf_publication = gc_publication (ex_chunk 0 ex_full), gf_end_tick = 20,
       gf_manifest = [fs_scope ex_full, fs_scope ex_second], gf_receipts = None\<rparr>)]\<rparr>"

lemma ex_assembler_new: "group_assembler_new 3 default_group_limits = Inr ex_assembler"
  by (simp add: group_assembler_new_def ex_assembler_def default_group_limits_def)

lemma replicate_two: "replicate 2 x = [x, x]"
  by (simp add: numeral_2_eq_2)

lemmas ex_group = ex_chunk_def ex_full_def ex_second_def ex_group_memory_def ex_assembler_def default_group_limits_def
  ex_scopes_def default_scope_limits_def vec_payload_def

lemmas group_eval = receive_chunk_def group_expire_def chunk_invalid_def validate_scope_def validate_identity_def
  route_chunk_def publication_conflict_def repeat_ack_def stage_chunk_def check_existing_def charge_chunk_def
  store_chunk_def publish_assembly_def staged_states_def close_assembly_def usize_checked_add_def usize_checked_sub_def
  usize_checked_mul_def usize_max_def bt_retain_def bt_contains_def bt_update_def bt_map_def bt_remove_def fresh_assembly_def
  less_eq_ScopeIdentity_def scope_tuple_def less_eq_EntityId_def less_EntityId_def entity_tuple_def map_filter_simps
  replicate_two Let_def

lemma ex_first_chunk: "receive_chunk vec_payload ex_group_memory (\<lambda>_. True) (ex_chunk 0 ex_full) 0 ex_assembler ex_scopes =
    (Inr Staged, ex_half, ex_scopes)"
  by (simp add: ex_half_def ex_group group_eval)

lemma ex_last_chunk: "\<exists>t d. receive_chunk vec_payload ex_group_memory (\<lambda>_. True) (ex_chunk 1 ex_second) 5 ex_half ex_scopes =
    (Inr (Published [full_receipt ex_full, full_receipt ex_second]), t, d)
    \<and> published_state (EntityId 10 2) ex_scopes = None \<and> published_state (EntityId 10 2) d = Some ex_second"
  by (simp add: ex_half_def ex_group group_eval apply_full_def capacity_for_def published_state_def full_receipt_def)

definition ex_group_ops :: "vec GroupOp list" where
  "ex_group_ops = [GroupReceive (\<lambda>_. True) (ex_chunk 0 ex_full) 0]"

lemma ex_group_run: "fold (group_step vec_payload ex_group_memory) ex_group_ops (ex_assembler, ex_scopes) = (ex_half, ex_scopes)"
  by (simp add: ex_group_ops_def ex_first_chunk)

theorem group_publication_atomic_witness:
  "\<exists>t d. receive_chunk vec_payload ex_group_memory (\<lambda>_. True) (ex_chunk 1 ex_second) 5 ex_half ex_scopes =
      (Inr (Published [full_receipt ex_full, full_receipt ex_second]), t, d)
    \<and> fully_published (ex_chunk 1 ex_second) [full_receipt ex_full, full_receipt ex_second] t d"
proof -
  obtain t d where step: "receive_chunk vec_payload ex_group_memory (\<lambda>_. True) (ex_chunk 1 ex_second) 5 ex_half ex_scopes =
      (Inr (Published [full_receipt ex_full, full_receipt ex_second]), t, d)" and "d \<noteq> ex_scopes"
    using ex_last_chunk by force
  from group_publication_atomic[OF ex_assembler_new ex_scopes_new ex_group_run step] this show ?thesis
    by auto
qed


theorem abandoned_group_closed_witness:
  "\<exists>t. fold (group_step vec_payload ex_group_memory) [GroupExpire 2000] (ex_half, ex_scopes) = (t, ex_scopes) \<and> abandoned 7 t
    \<and> snd (snd (receive_chunk vec_payload ex_group_memory (\<lambda>_. True) (ex_chunk 1 ex_second) 2001 t ex_scopes)) = ex_scopes"
proof -
  define t where "t = snd (group_expire 2000 ex_half)"
  have run: "fold (group_step vec_payload ex_group_memory) (ex_group_ops @ [GroupExpire 2000]) (ex_assembler, ex_scopes) = (t, ex_scopes)"
    by (simp add: ex_group_run t_def)
  have gone: "abandoned 7 t"
    by (simp add: t_def abandoned_def ex_half_def ex_group group_expire_def bt_retain_def fresh_assembly_def)
  from abandoned_group_closed[OF ex_assembler_new ex_scopes_new run gone, of "[]" t ex_scopes "ex_chunk 1 ex_second" "\<lambda>_. True" 2001]
  show ?thesis
    using gone by (intro exI[of _ t]) (simp add: t_def ex_chunk_def)
qed

end
